(* ===== verification/Prelude.thy ===== *)
theory Prelude
  imports Main
begin

text \<open>
  Shared vocabulary of the development: the exceptions of the two plugins and of the code they
  call, computations that may raise, computations that change a store and may raise, and the
  generic lemmas and fact collections the component theories use.

  A Python exception is a value of \<open>exn\<close>. A call that only computes returns \<open>exn + 'a\<close>
  (\<open>Inl\<close> is the raised exception). A call that changes shared objects is a function
  \<open>'s \<Rightarrow> (exn + 'a) \<times> 's\<close>: the store is returned in both cases, because the effects a
  Python function had before it raised stay in place. Exception messages are not modelled.

  A Python \<open>str\<close> is represented by its UTF-8 bytes as a \<open>string\<close>, so that \<open>str.encode\<close> and
  \<open>bytes.decode\<close> are the identity on the representation.
\<close>

section \<open>Exceptions\<close>

text \<open>The classes of \<open>sovtoken/exceptions.py\<close>, the plenum exceptions the plugins raise and the
  built-in exceptions their code can raise.\<close>

datatype exn =
    UTXOError | UTXONotFound | UTXOAddressNotFound | UTXOAlreadySpentError
  | InsufficientFundsError | InvalidFundsError | ExtraFundsError
  | TokenValueError
  | InvalidClientMessageException | InvalidClientRequest | UnauthorizedClientRequest
  | OperationError | UnknownIdentifier | InvalidSignatureFormat
  | InsufficientCorrectSignatures nat nat
  | ValueError | KeyError | IndexError | TypeError | AttributeError | ImportError
  | FileNotFoundError | PlainException

text \<open>\<open>except UTXOError\<close>: the class and its three subclasses.\<close>

fun is_UTXOError :: "exn \<Rightarrow> bool" where
  "is_UTXOError UTXOError = True"
| "is_UTXOError UTXONotFound = True"
| "is_UTXOError UTXOAddressNotFound = True"
| "is_UTXOError UTXOAlreadySpentError = True"
| "is_UTXOError _ = False"

text \<open>\<open>isinstance(ex, InvalidClientMessageException)\<close>, for the classes declared in
  \<open>sovtoken/exceptions.py\<close> and the class itself.\<close>

fun is_InvalidClientMessage :: "exn \<Rightarrow> bool" where
  "is_InvalidClientMessage InsufficientFundsError = True"
| "is_InvalidClientMessage InvalidFundsError = True"
| "is_InvalidClientMessage ExtraFundsError = True"
| "is_InvalidClientMessage InvalidClientMessageException = True"
| "is_InvalidClientMessage _ = False"

section \<open>Computations that may raise\<close>

fun ebind :: "exn + 'a \<Rightarrow> ('a \<Rightarrow> exn + 'b) \<Rightarrow> exn + 'b" where
  "ebind (Inl e) k = Inl e"
| "ebind (Inr a) k = k a"

lemma ebind_Inr_iff: "ebind m k = Inr b \<longleftrightarrow> (\<exists>a. m = Inr a \<and> k a = Inr b)"
  by (cases m) auto

lemma ebind_Inl_iff: "ebind m k = Inl e \<longleftrightarrow> m = Inl e \<or> (\<exists>a. m = Inr a \<and> k a = Inl e)"
  by (cases m) auto

lemma ebind_return [simp]: "ebind m Inr = m"
  by (cases m) auto

lemma ebind_assoc: "ebind (ebind m f) g = ebind m (\<lambda>a. ebind (f a) g)"
  by (cases m) auto

section \<open>Computations on a store that may raise\<close>

type_synonym ('s, 'a) proc = "'s \<Rightarrow> (exn + 'a) \<times> 's"

definition preturn :: "'a \<Rightarrow> ('s, 'a) proc" where
  "preturn a s = (Inr a, s)"

definition praise :: "exn \<Rightarrow> ('s, 'a) proc" where
  "praise e s = (Inl e, s)"

definition pbind :: "('s, 'a) proc \<Rightarrow> ('a \<Rightarrow> ('s, 'b) proc) \<Rightarrow> ('s, 'b) proc" where
  "pbind m k s = (case m s of (Inl e, s') \<Rightarrow> (Inl e, s') | (Inr a, s') \<Rightarrow> k a s')"

definition pseq :: "('s, unit) proc \<Rightarrow> ('s, 'b) proc \<Rightarrow> ('s, 'b) proc" where
  "pseq m k = pbind m (\<lambda>_. k)"

text \<open>\<open>try: m except E as ex: raise h(ex)\<close>.\<close>

definition pcatch :: "(exn \<Rightarrow> bool) \<Rightarrow> (exn \<Rightarrow> exn) \<Rightarrow> ('s, 'a) proc \<Rightarrow> ('s, 'a) proc" where
  "pcatch p h m s = (case m s of (Inl e, s') \<Rightarrow> (Inl (if p e then h e else e), s') | r \<Rightarrow> r)"

text \<open>A computation that only reads.\<close>

definition plift :: "exn + 'a \<Rightarrow> ('s, 'a) proc" where
  "plift r s = (r, s)"

text \<open>A method that changes one object and raises only before it has changed it.\<close>

definition pupdate :: "('s \<Rightarrow> exn + 's) \<Rightarrow> ('s, unit) proc" where
  "pupdate f s = (case f s of Inl e \<Rightarrow> (Inl e, s) | Inr s' \<Rightarrow> (Inr (), s'))"

text \<open>\<open>for x in xs: f(x)\<close>; the first exception ends the loop.\<close>

fun for_each :: "('a \<Rightarrow> ('s, unit) proc) \<Rightarrow> 'a list \<Rightarrow> ('s, unit) proc" where
  "for_each f [] = preturn ()"
| "for_each f (x # xs) = pseq (f x) (for_each f xs)"

lemma preturn_app [simp]: "preturn a s = (Inr a, s)"
  by (simp add: preturn_def)

lemma praise_app [simp]: "praise e s = (Inl e, s)"
  by (simp add: praise_def)

lemma plift_app [simp]: "plift r s = (r, s)"
  by (simp add: plift_def)

lemma pbind_plift [simp]: "pbind (plift (Inr a)) k = k a" "pbind (plift (Inl e)) k = praise e"
  by (auto simp: pbind_def plift_def praise_def fun_eq_iff)

lemma pseq_ok [simp]: "m s = (Inr (), s') \<Longrightarrow> pseq m k s = k s'"
  by (simp add: pseq_def pbind_def)

lemma pseq_err [simp]: "m s = (Inl e, s') \<Longrightarrow> pseq m k s = (Inl e, s')"
  by (simp add: pseq_def pbind_def)

lemma pbind_ok [simp]: "m s = (Inr a, s') \<Longrightarrow> pbind m k s = k a s'"
  by (simp add: pbind_def)

lemma pbind_err [simp]: "m s = (Inl e, s') \<Longrightarrow> pbind m k s = (Inl e, s')"
  by (simp add: pbind_def)

lemma pseq_Inr_iff:
  "pseq m k s = (Inr b, t) \<longleftrightarrow> (\<exists>s'. m s = (Inr (), s') \<and> k s' = (Inr b, t))"
  by (auto simp: pseq_def pbind_def split: prod.splits sum.splits)

lemma pcatch_ok [simp]: "m s = (Inr a, s') \<Longrightarrow> pcatch p h m s = (Inr a, s')"
  by (simp add: pcatch_def)

lemma pcatch_err [simp]:
  "m s = (Inl e, s') \<Longrightarrow> pcatch p h m s = (Inl (if p e then h e else e), s')"
  by (simp add: pcatch_def)

lemma pcatch_Inr_iff: "pcatch p h m s = (Inr a, t) \<longleftrightarrow> m s = (Inr a, t)"
  by (auto simp: pcatch_def split: prod.splits sum.splits)

lemma for_each_append: "for_each f (xs @ ys) = pseq (for_each f xs) (for_each f ys)"
proof (induction xs)
  case Nil
  show ?case by (rule ext) simp
next
  case (Cons x xs)
  show ?case
  proof (rule ext)
    fix s
    show "for_each f ((x # xs) @ ys) s = pseq (for_each f (x # xs)) (for_each f ys) s"
      using Cons by (auto simp: pseq_def pbind_def split: prod.splits sum.splits)
  qed
qed

section \<open>Fact collections\<close>

named_theorems key_simps \<open>equations of the keys under which the ledgers' states store values\<close>
named_theorems text_simps \<open>printing, parsing, splitting and joining of Python strings\<close>

section \<open>Lists of pairs\<close>

text \<open>Deleting the first pair with a given key, and summing the second components.\<close>

fun del_key :: "'k \<Rightarrow> ('k \<times> 'v) list \<Rightarrow> ('k \<times> 'v) list" where
  "del_key k [] = []"
| "del_key k (p # ps) = (if fst p = k then ps else p # del_key k ps)"

definition total_amount :: "('k \<times> int) list \<Rightarrow> int" where
  "total_amount ps = sum_list (map snd ps)"

lemma total_simps [simp]:
  "total_amount [] = 0" "total_amount (p # ps) = snd p + total_amount ps" "total_amount (ps @ qs) = total_amount ps + total_amount qs"
  by (simp_all add: total_amount_def)

lemma del_key_notin [simp]: "k \<notin> fst ` set ps \<Longrightarrow> del_key k ps = ps"
  by (induction ps) auto

lemma del_key_snoc: "k \<notin> fst ` set ps \<Longrightarrow> del_key k (ps @ [(k, v)]) = ps"
  by (induction ps) auto

lemma set_del_key_subset: "set (del_key k ps) \<subseteq> set ps"
  by (induction ps) auto

lemma keys_del_key:
  "distinct (map fst ps) \<Longrightarrow> fst ` set (del_key k ps) = fst ` set ps - {k}"
  by (induction ps) (force split: if_splits)+

lemma distinct_del_key: "distinct (map fst ps) \<Longrightarrow> distinct (map fst (del_key k ps))"
proof (induction ps)
  case (Cons p ps)
  then show ?case using set_del_key_subset [of k ps] by auto
qed simp

lemma map_of_del_key:
  "distinct (map fst ps) \<Longrightarrow> map_of (del_key k ps) = (map_of ps)(k := None)"
proof (induction ps)
  case (Cons p ps)
  show ?case
  proof (cases "fst p = k")
    case True
    then have "map_of ps k = None" using Cons.prems by (auto simp: map_of_eq_None_iff)
    then show ?thesis using True by (cases p) (auto simp: fun_eq_iff)
  next
    case False
    then show ?thesis using Cons by (cases p) (auto simp: fun_eq_iff)
  qed
qed simp

lemma total_del_key: "map_of ps k = Some v \<Longrightarrow> total_amount (del_key k ps) = total_amount ps - v"
  by (induction ps) (auto split: if_splits)

end
