(* ===== verification/PyText.thy ===== *)
theory PyText
  imports Prelude
begin

text \<open>
  The parts of Python's text handling the plugins rely on: \<open>len(s)\<close>, \<open>str(n)\<close> and \<open>int(s)\<close> for
  integers, \<open>s.split(c)\<close> for a one-character separator and \<open>sep.join(xs)\<close>. \<open>int(s)\<close> follows the
  language reference: surrounding white space is ignored, one sign is allowed, digits may be
  grouped by single underscores, and everything else is a \<open>ValueError\<close> (\<open>None\<close> here).
\<close>

section \<open>Characters\<close>

text \<open>\<open>len(s)\<close>: texts are kept as UTF-8, where every character has one byte that is not a continuation byte
  (128 to 191); texts of ASCII characters have one byte for each character.\<close>

definition continuation :: "char \<Rightarrow> bool" where
  "continuation c \<longleftrightarrow> (128::nat) \<le> of_char c \<and> of_char c < (192::nat)"

definition py_len :: "string \<Rightarrow> nat" where
  "py_len s = length (filter (\<lambda>c. \<not> continuation c) s)"

lemma py_len_le: "py_len s \<le> length s"
  by (simp add: py_len_def)

lemma py_len_replicate [simp]: "\<not> continuation c \<Longrightarrow> py_len (replicate n c) = n"
  by (simp add: py_len_def)

text \<open>The characters of a text: a byte that continues none starts one.\<close>

function py_chars :: "string \<Rightarrow> string list" where
  "py_chars [] = []"
| "py_chars (c # cs) = (c # takeWhile continuation cs) # py_chars (dropWhile continuation cs)"
  by pat_completeness auto

termination
  by (relation "measure length") (auto simp: length_dropWhile_le less_Suc_eq_le)

text \<open>On UTF-8, where no text starts with a continuation byte, both agree.\<close>

lemma py_chars_length:
  "(\<forall>c cs. s = c # cs \<longrightarrow> \<not> continuation c) \<Longrightarrow> length (py_chars s) = py_len s"
proof (induction s rule: py_chars.induct)
  case (2 c cs)
  have "\<forall>d ds. dropWhile continuation cs = d # ds \<longrightarrow> \<not> continuation d"
    by (metis dropWhile_eq_Cons_conv)
  moreover have "py_len cs = py_len (dropWhile continuation cs)"
    unfolding py_len_def by (induction cs) auto
  ultimately show ?case using 2 by (simp add: py_len_def)
qed (simp add: py_len_def)

section \<open>Printing integers\<close>

definition digit_char :: "nat \<Rightarrow> char" where
  "digit_char d = char_of (48 + d)"

fun nat_str :: "nat \<Rightarrow> string" where
  "nat_str n = (if n < 10 then [digit_char n] else nat_str (n div 10) @ [digit_char (n mod 10)])"

declare nat_str.simps [simp del]

definition py_str :: "int \<Rightarrow> string" where
  "py_str i = (if i < 0 then CHR ''-'' # nat_str (nat (- i)) else nat_str (nat i))"

section \<open>Parsing integers\<close>

definition is_digit :: "char \<Rightarrow> bool" where
  "is_digit c \<longleftrightarrow> (48::nat) \<le> of_char c \<and> of_char c \<le> (57::nat)"

definition digit_val :: "char \<Rightarrow> nat" where
  "digit_val c = of_char c - 48"

definition is_space :: "char \<Rightarrow> bool" where
  "is_space c \<longleftrightarrow> (let n = (of_char c :: nat) in n = 32 \<or> (9 \<le> n \<and> n \<le> 13) \<or> (28 \<le> n \<and> n \<le> 31))"

definition strip :: "string \<Rightarrow> string" where
  "strip s = rev (dropWhile is_space (rev (dropWhile is_space s)))"

fun digits_val :: "nat \<Rightarrow> string \<Rightarrow> nat option" where
  "digits_val acc [] = Some acc"
| "digits_val acc (c # cs) =
     (if is_digit c then digits_val (10 * acc + digit_val c) cs
      else if c = CHR ''_'' then
        (case cs of [] \<Rightarrow> None | d # _ \<Rightarrow> if is_digit d then digits_val acc cs else None)
      else None)"

fun parse_nat :: "string \<Rightarrow> nat option" where
  "parse_nat [] = None"
| "parse_nat (c # cs) = (if is_digit c then digits_val 0 (c # cs) else None)"

definition py_int :: "string \<Rightarrow> int option" where
  "py_int s = (case strip s of [] \<Rightarrow> None
     | c # cs \<Rightarrow>
        if c = CHR ''-'' then map_option (\<lambda>n. - int n) (parse_nat cs)
        else if c = CHR ''+'' then map_option int (parse_nat cs)
        else map_option int (parse_nat (c # cs)))"

section \<open>Splitting and joining\<close>

fun split_on :: "char \<Rightarrow> string \<Rightarrow> string list" where
  "split_on d [] = [[]]"
| "split_on d (c # cs) =
     (if c = d then [] # split_on d cs
      else case split_on d cs of [] \<Rightarrow> [[c]] | w # ws \<Rightarrow> (c # w) # ws)"

fun join_with :: "string \<Rightarrow> string list \<Rightarrow> string" where
  "join_with sep [] = []"
| "join_with sep [x] = x"
| "join_with sep (x # y # ys) = x @ sep @ join_with sep (y # ys)"

section \<open>Digits\<close>

lemma of_char_digit_char: "d < 10 \<Longrightarrow> (of_char (digit_char d) :: nat) = 48 + d"
  by (simp add: digit_char_def)

lemma digit_char_simps [simp]:
  assumes "d < 10"
  shows "is_digit (digit_char d)" "digit_val (digit_char d) = d"
    "\<not> is_space (digit_char d)"
  using of_char_digit_char [OF assms] assms
  by (auto simp: is_digit_def digit_val_def is_space_def)

lemma is_digit_distinct:
  assumes "is_digit c"
  shows "c \<noteq> CHR '':''" "c \<noteq> CHR ''-''" "c \<noteq> CHR ''+''" "c \<noteq> CHR ''_''" "\<not> is_space c"
  using assms by (auto simp: is_digit_def is_space_def)

lemma nat_str_digits: "c \<in> set (nat_str n) \<Longrightarrow> is_digit c"
proof (induction n rule: nat_str.induct)
  case (1 n)
  then show ?case by (auto simp: nat_str.simps [of n] split: if_splits)
qed

lemma nat_str_nonempty: "nat_str n \<noteq> []"
  by (subst nat_str.simps) simp

lemma digits_val_digits:
  "(\<And>c. c \<in> set xs \<Longrightarrow> is_digit c) \<Longrightarrow>
   digits_val acc xs = Some (foldl (\<lambda>a c. 10 * a + digit_val c) acc xs)"
  by (induction xs arbitrary: acc) auto

lemma foldl_nat_str: "foldl (\<lambda>a c. 10 * a + digit_val c) 0 (nat_str n) = n"
proof (induction n rule: nat_str.induct)
  case (1 n)
  then show ?case by (auto simp: nat_str.simps [of n])
qed

lemma parse_nat_str [text_simps]: "parse_nat (nat_str n) = Some n"
proof -
  obtain c cs where eq: "nat_str n = c # cs" and "is_digit c"
    using nat_str_nonempty [of n] nat_str_digits [of _ n] by (cases "nat_str n") auto
  then have "parse_nat (nat_str n) = digits_val 0 (nat_str n)" by simp
  also have "\<dots> = Some n"
    by (simp add: digits_val_digits nat_str_digits foldl_nat_str)
  finally show ?thesis .
qed

section \<open>Round trips\<close>

lemma strip_no_space: "(\<And>c. c \<in> set s \<Longrightarrow> \<not> is_space c) \<Longrightarrow> strip s = s"
proof -
  assume a: "\<And>c. c \<in> set s \<Longrightarrow> \<not> is_space c"
  have fr: "dropWhile is_space s = s"
    using a by (cases s) auto
  have bk: "dropWhile is_space (rev s) = rev s"
    using a by (metis dropWhile_eq_self_iff hd_in_set set_rev)
  show ?thesis by (simp add: strip_def fr bk)
qed

lemma py_str_chars: "c \<in> set (py_str i) \<Longrightarrow> is_digit c \<or> c = CHR ''-''"
  by (auto simp: py_str_def nat_str_digits split: if_splits)

lemma py_str_nonempty [simp]: "py_str i \<noteq> []"
  by (simp add: py_str_def nat_str_nonempty)

lemma py_str_no_space: "c \<in> set (py_str i) \<Longrightarrow> \<not> is_space c"
  using py_str_chars [of c i] is_digit_distinct(5) [of c] by (auto simp: is_space_def)

lemma py_str_no_colon [simp]: "CHR '':'' \<notin> set (py_str i)"
  using py_str_chars [of "CHR '':''" i] is_digit_distinct(1) [of "CHR '':''"] by auto

lemma py_int_py_str [simp, text_simps]: "py_int (py_str i) = Some i"
proof -
  have st: "strip (py_str i) = py_str i"
    by (rule strip_no_space) (rule py_str_no_space)
  show ?thesis
  proof (cases "i < 0")
    case True
    then show ?thesis
      using st by (simp add: py_int_def py_str_def parse_nat_str)
  next
    case False
    obtain c cs where eq: "nat_str (nat i) = c # cs" and d: "is_digit c"
      using nat_str_nonempty [of "nat i"] nat_str_digits [of _ "nat i"]
      by (cases "nat_str (nat i)") auto
    have "parse_nat (c # cs) = Some (nat i)" using parse_nat_str [of "nat i"] eq by simp
    then show ?thesis
      using False st eq is_digit_distinct [OF d] by (simp add: py_int_def py_str_def)
  qed
qed

lemma py_str_inject [simp]: "py_str i = py_str j \<longleftrightarrow> i = j"
  by (metis option.inject py_int_py_str)

lemma split_on_nonempty [simp]: "split_on d s \<noteq> []"
  by (cases s) (auto split: list.splits)

lemma split_on_none [text_simps]: "d \<notin> set s \<Longrightarrow> split_on d s = [s]"
  by (induction s) auto

lemma split_on_append [text_simps]:
  "d \<notin> set w \<Longrightarrow> split_on d (w @ d # s) = w # split_on d s"
  by (induction w) auto

lemma split_join [text_simps]:
  "xs \<noteq> [] \<Longrightarrow> (\<And>x. x \<in> set xs \<Longrightarrow> d \<notin> set x) \<Longrightarrow> split_on d (join_with [d] xs) = xs"
proof (induction "[d]" xs rule: join_with.induct)
  case (3 x y ys)
  then show ?case using split_on_append [of d x "join_with [d] (y # ys)"] by simp
qed (auto simp: split_on_none)

lemma join_Cons: "ys \<noteq> [] \<Longrightarrow> join_with sep (x # ys) = x @ sep @ join_with sep ys"
  by (cases ys) auto

lemma join_split [text_simps]: "join_with [d] (split_on d s) = s"
proof (induction s)
  case (Cons c cs)
  obtain w ws where w: "split_on d cs = w # ws"
    by (cases "split_on d cs") auto
  show ?case
  proof (cases "c = d")
    case True
    then show ?thesis using Cons w by (simp add: join_Cons)
  next
    case False
    then show ?thesis using Cons w by (cases ws) auto
  qed
qed simp

lemma split_on_parts: "w \<in> set (split_on d s) \<Longrightarrow> d \<notin> set w"
  by (induction s arbitrary: w) (auto split: list.splits if_splits)

lemma join_with_empty_iff:
  "(\<And>x. x \<in> set xs \<Longrightarrow> x \<noteq> []) \<Longrightarrow> join_with sep xs = [] \<longleftrightarrow> xs = []"
  by (induction sep xs rule: join_with.induct) auto

end
