(* ===== verification/UTXO_Amounts.thy ===== *)
theory UTXO_Amounts
  imports PyText
begin

text \<open>
  \<open>sovtoken/types.py\<close> and the class \<open>UTXOAmounts\<close> of \<open>sovtoken/utxo_cache.py\<close>: one address's
  unspent outputs, kept as the list of strings \<open>[seqNo, amount, seqNo, amount, \<dots>]\<close> that is
  stored as \<open>seqNo:amount:seqNo:amount:\<dots>\<close>.

  The lemmas relate the list of strings to the list of pairs it stands for (\<open>encode\<close>): printing
  and parsing are inverse, adding appends a pair, removing deletes the pair of a sequence number
  and summing adds the amounts of a set of sequence numbers, each with its error cases.
\<close>

section \<open>Outputs\<close>

record Output =
  address :: string
  seqNo :: int
  amount :: "int option"

definition less_than :: "Output \<Rightarrow> Output \<Rightarrow> bool" where
  "less_than self other \<longleftrightarrow> seqNo self < seqNo other"

definition Output_eq :: "Output \<Rightarrow> Output \<Rightarrow> bool" where
  "Output_eq self other \<longleftrightarrow>
     address self = address other \<and> seqNo self = seqNo other \<and> amount self = amount other"

text \<open>\<open>__hash__\<close>: the built-in hashes of the fields are arguments; Python adds them.\<close>

definition Output_hash :: "(string \<Rightarrow> int) \<Rightarrow> (int \<Rightarrow> int) \<Rightarrow> (int option \<Rightarrow> int) \<Rightarrow> Output \<Rightarrow> int" where
  "Output_hash hash_str hash_int hash_amount self =
     hash_str (address self) + hash_int (seqNo self) + hash_amount (amount self)"

abbreviation mk_output :: "string \<Rightarrow> int \<Rightarrow> int option \<Rightarrow> Output" where
  "mk_output a n v \<equiv> \<lparr>address = a, seqNo = n, amount = v\<rparr>"

lemma Output_eq_iff: "Output_eq x y \<longleftrightarrow> x = y"
  by (cases x; cases y) (auto simp: Output_eq_def)

section \<open>The class UTXOAmounts\<close>

text \<open>What a key-value store may hand back: a \<open>str\<close>, \<open>bytes\<close> or \<open>bytearray\<close> of UTF-8 text,
  \<open>None\<close>, or a true value of some other type.\<close>

datatype stored = SStr string | SBytes string | SNone | SOther

record UTXOAmounts =
  am_address :: string
  am_data :: "string list"

definition DELIMITER :: char where
  "DELIMITER = CHR '':''"

fun parse_text :: "string \<Rightarrow> string \<Rightarrow> exn + UTXOAmounts" where
  "parse_text addr text =
     (if text = [] then Inr \<lparr>am_address = addr, am_data = []\<rparr>
      else let split = split_on DELIMITER text in
        if \<not> (length split mod 2 = 0) then Inl UTXOError
        else Inr \<lparr>am_address = addr, am_data = split\<rparr>)"

fun UTXOAmounts_init :: "string \<Rightarrow> stored \<Rightarrow> exn + UTXOAmounts" where
  "UTXOAmounts_init addr (SStr s) = parse_text addr s"
| "UTXOAmounts_init addr (SBytes b) = parse_text addr b"
| "UTXOAmounts_init addr SNone = Inr \<lparr>am_address = addr, am_data = []\<rparr>"
| "UTXOAmounts_init addr SOther = Inl UTXOError"

definition add_amount :: "UTXOAmounts \<Rightarrow> int \<Rightarrow> int option \<Rightarrow> exn + UTXOAmounts" where
  "add_amount self seq_no amt =
     (case amt of None \<Rightarrow> Inl UTXOError
      | Some v \<Rightarrow> Inr (self\<lparr>am_data := am_data self @ [py_str seq_no] @ [py_str v]\<rparr>))"

text \<open>The loop \<open>for i in range(0, len(data), 2)\<close> of \<open>remove_seq_no\<close>: the first even index that
  holds the sequence number.\<close>

fun find_seq_no :: "nat \<Rightarrow> string list \<Rightarrow> string \<Rightarrow> nat option" where
  "find_seq_no i [] s = None"
| "find_seq_no i (x # rest) s = (if x = s then Some i else find_seq_no (i + 2) (tl rest) s)"

definition pop :: "nat \<Rightarrow> 'a list \<Rightarrow> 'a list" where
  "pop i xs = take i xs @ drop (Suc i) xs"

definition remove_seq_no :: "UTXOAmounts \<Rightarrow> int \<Rightarrow> exn + UTXOAmounts" where
  "remove_seq_no self seq_no =
     (let seq_no_str = py_str seq_no; d = am_data self in
      case find_seq_no 0 d seq_no_str of
        None \<Rightarrow> Inl UTXONotFound
      | Some i \<Rightarrow>
          if i < length d \<and> i + 1 < length d
          then Inr (self\<lparr>am_data := pop i (pop i d)\<rparr>)
          else Inl UTXOError)"

text \<open>The loop of \<open>sum_amounts\<close>; the result is the total and the sequence numbers not met.\<close>

fun sum_loop :: "string list \<Rightarrow> int set \<Rightarrow> int \<Rightarrow> exn + (int \<times> int set)" where
  "sum_loop [] seq_nos t = Inr (t, seq_nos)"
| "sum_loop (x # rest) seq_nos t =
     (case py_int x of
        None \<Rightarrow> Inl ValueError
      | Some n \<Rightarrow>
          if n \<in> seq_nos then
            (case rest of
               [] \<Rightarrow> Inl IndexError
             | y # rest' \<Rightarrow>
                 (case py_int y of
                    None \<Rightarrow> Inl ValueError
                  | Some v \<Rightarrow>
                      (let seq_nos' = seq_nos - {n} in
                       if seq_nos' = {} then Inr (t + v, seq_nos')
                       else sum_loop rest' seq_nos' (t + v))))
          else sum_loop (tl rest) seq_nos t)"

definition sum_amounts :: "UTXOAmounts \<Rightarrow> int set \<Rightarrow> exn + int" where
  "sum_amounts self seq_nos =
     ebind (sum_loop (am_data self) seq_nos 0)
       (\<lambda>(t, left). if left \<noteq> {} then Inl UTXONotFound else Inr t)"

fun output_loop :: "string \<Rightarrow> string list \<Rightarrow> exn + Output list" where
  "output_loop addr (x # y # rest) =
     (case (py_int x, py_int y) of
        (Some n, Some v) \<Rightarrow> ebind (output_loop addr rest) (\<lambda>os. Inr (mk_output addr n (Some v) # os))
      | _ \<Rightarrow> Inl UTXOError)"
| "output_loop addr _ = Inr []"

definition as_output_list :: "UTXOAmounts \<Rightarrow> exn + Output list" where
  "as_output_list self =
     (if length (am_data self) mod 2 \<noteq> 0 then Inl UTXOError
      else output_loop (am_address self) (am_data self))"

definition as_str :: "UTXOAmounts \<Rightarrow> exn + string" where
  "as_str self =
     (if length (am_data self) mod 2 \<noteq> 0 then Inl UTXOError
      else Inr (join_with [DELIMITER] (am_data self)))"

section \<open>Printing and parsing\<close>

lemma parse_as_str:
  assumes "length d mod 2 = 0" and "\<And>x. x \<in> set d \<Longrightarrow> DELIMITER \<notin> set x"
  shows "parse_text addr (join_with [DELIMITER] d) = Inr \<lparr>am_address = addr, am_data = d\<rparr>"
proof (cases "d = []")
  case False
  with assms(1) obtain x y ys where d: "d = x # y # ys"
    by (cases d; cases "tl d") auto
  have "split_on DELIMITER (join_with [DELIMITER] d) = d"
    using False assms(2) by (rule split_join)
  then show ?thesis using assms(1) d by (simp add: Let_def)
qed simp

lemma as_str_parse:
  "parse_text addr text = Inr am \<Longrightarrow> as_str am = Inr text \<and> am_address am = addr"
  by (auto simp: as_str_def Let_def join_split split: if_splits)

section \<open>The pairs a list of strings stands for\<close>

definition encode :: "(int \<times> int) list \<Rightarrow> string list" where
  "encode ps = concat (map (\<lambda>(n, v). [py_str n, py_str v]) ps)"

definition encode_str :: "(int \<times> int) list \<Rightarrow> string" where
  "encode_str ps = join_with [DELIMITER] (encode ps)"

lemma encode_simps [simp]:
  "encode [] = []" "encode (p # ps) = py_str (fst p) # py_str (snd p) # encode ps"
  "encode (ps @ qs) = encode ps @ encode qs"
  by (auto simp: encode_def split: prod.splits)

lemma length_encode [simp]: "length (encode ps) = 2 * length ps"
  by (induction ps) auto

lemma encode_inject [simp]: "encode ps = encode qs \<longleftrightarrow> ps = qs"
proof (induction ps arbitrary: qs)
  case Nil
  then show ?case by (cases qs) auto
next
  case (Cons p ps)
  then show ?case by (cases qs) (auto simp: prod_eq_iff)
qed

lemma encode_no_colon: "x \<in> set (encode ps) \<Longrightarrow> DELIMITER \<notin> set x"
  by (induction ps) (auto simp: DELIMITER_def)

lemma parse_encode_str [simp]:
  "parse_text addr (encode_str ps) = Inr \<lparr>am_address = addr, am_data = encode ps\<rparr>"
  unfolding encode_str_def by (rule parse_as_str) (auto dest: encode_no_colon)

lemma encode_str_inject [simp]: "encode_str ps = encode_str qs \<longleftrightarrow> ps = qs"
proof
  assume "encode_str ps = encode_str qs"
  then have "parse_text [] (encode_str ps) = parse_text [] (encode_str qs)" by simp
  then show "ps = qs" by (simp del: parse_text.simps)
qed simp

lemma as_str_encode [simp]: "am_data am = encode ps \<Longrightarrow> as_str am = Inr (encode_str ps)"
  by (simp add: as_str_def encode_str_def)

lemma add_amount_encode:
  "am_data am = encode ps \<Longrightarrow>
   add_amount am n (Some v) = Inr (am\<lparr>am_data := encode (ps @ [(n, v)])\<rparr>)"
  by (simp add: add_amount_def)

lemma find_seq_no_shift:
  "find_seq_no (i + k) xs s = map_option (\<lambda>j. j + k) (find_seq_no i xs s)"
proof (induction i xs s arbitrary: k rule: find_seq_no.induct)
  case (2 i x rest s)
  then show ?case
    using "2.IH" [of k] by (simp add: add.commute add.left_commute)
qed simp

lemma find_seq_no_encode:
  "find_seq_no 0 (encode ps) (py_str n) =
     (if n \<in> fst ` set ps then Some (2 * length (takeWhile (\<lambda>p. fst p \<noteq> n) ps)) else None)"
proof (induction ps)
  case (Cons p ps)
  then show ?case
    using find_seq_no_shift [of 0 2 "encode ps" "py_str n"] by auto
qed simp

lemma pop_append [simp]: "length xs = i \<Longrightarrow> pop i (xs @ y # ys) = xs @ ys"
  by (simp add: pop_def)

lemma del_key_split:
  "n \<in> fst ` set ps \<Longrightarrow>
   \<exists>v qs. ps = takeWhile (\<lambda>p. fst p \<noteq> n) ps @ (n, v) # qs \<and>
     del_key n ps = takeWhile (\<lambda>p. fst p \<noteq> n) ps @ qs"
proof (induction ps)
  case (Cons p ps)
  then show ?case by (cases p) auto
qed simp

lemma remove_seq_no_encode:
  assumes "am_data am = encode ps"
  shows "remove_seq_no am n =
    (if n \<in> fst ` set ps then Inr (am\<lparr>am_data := encode (del_key n ps)\<rparr>) else Inl UTXONotFound)"
proof (cases "n \<in> fst ` set ps")
  case True
  let ?pre = "takeWhile (\<lambda>p. fst p \<noteq> n) ps"
  obtain v qs where ps: "ps = ?pre @ (n, v) # qs" and del: "del_key n ps = ?pre @ qs"
    using del_key_split [OF True] by blast
  have enc: "encode ps = encode ?pre @ py_str n # py_str v # encode qs"
    by (subst ps) simp
  have "find_seq_no 0 (encode ps) (py_str n) = Some (length (encode ?pre))"
    using True by (simp add: find_seq_no_encode)
  then show ?thesis
    using True assms enc del by (simp add: remove_seq_no_def Let_def)
qed (use assms in \<open>simp add: remove_seq_no_def find_seq_no_encode\<close>)

lemma output_loop_encode:
  "output_loop addr (encode ps) = Inr (map (\<lambda>p. mk_output addr (fst p) (Some (snd p))) ps)"
  by (induction ps) auto

lemma as_output_list_encode:
  "am_data am = encode ps \<Longrightarrow>
   as_output_list am = Inr (map (\<lambda>p. mk_output (am_address am) (fst p) (Some (snd p))) ps)"
  by (simp add: as_output_list_def output_loop_encode)

section \<open>Sums\<close>

definition amount_at :: "(int \<times> int) list \<Rightarrow> int \<Rightarrow> int" where
  "amount_at ps n = the (map_of ps n)"

lemma sum_loop_encode:
  "distinct (map fst ps) \<Longrightarrow>
   sum_loop (encode ps) S t = Inr (t + sum (amount_at ps) (S \<inter> fst ` set ps), S - fst ` set ps)"
proof (induction ps arbitrary: S t)
  case (Cons p ps)
  let ?n = "fst p" and ?K = "fst ` set ps"
  from Cons.prems have new: "?n \<notin> ?K" and dist: "distinct (map fst ps)" by auto
  have same: "sum (amount_at (p # ps)) (T \<inter> ?K) = sum (amount_at ps) (T \<inter> ?K)" for T
    using new by (intro sum.cong) (auto simp: amount_at_def image_iff)
  show ?case
  proof (cases "?n \<in> S")
    case True
    then have S: "S \<inter> insert ?n ?K = insert ?n ((S - {?n}) \<inter> ?K)" by blast
    have "sum (amount_at (p # ps)) (S \<inter> insert ?n ?K) = snd p + sum (amount_at ps) ((S - {?n}) \<inter> ?K)"
      unfolding S using new same [of "S - {?n}"] by (simp add: amount_at_def)
    moreover have "S - insert ?n ?K = (S - {?n}) - ?K" by blast
    ultimately show ?thesis
      using True Cons.IH [OF dist, of "S - {?n}" "t + snd p"]
      by (cases "S - {?n} = {}") (auto simp: Let_def)
  next
    case False
    then have "S \<inter> insert ?n ?K = S \<inter> ?K" and "S - insert ?n ?K = S - ?K" by auto
    then show ?thesis using False Cons.IH [OF dist, of S t] same [of S] by simp
  qed
qed simp

lemma sum_amounts_encode:
  assumes "am_data am = encode ps" and "distinct (map fst ps)"
  shows "sum_amounts am S =
    (if S \<subseteq> fst ` set ps then Inr (sum (amount_at ps) S) else Inl UTXONotFound)"
  using assms by (auto simp: sum_amounts_def sum_loop_encode Int_absorb2 Int_commute)

section \<open>Properties\<close>

text \<open>C39: Parsing and printing of an entry are inverse: the constructor accepts a text as an object
  exactly when that object prints to the text and none of its items contains the delimiter; in
  particular nothing is lost between \<open>as_str\<close> and the next read, the empty list included.\<close>

theorem amounts_parse_print:
  "UTXOAmounts_init a (SStr text) = Inr am \<longleftrightarrow>
     am_address am = a \<and> as_str am = Inr text \<and> (\<forall>x\<in>set (am_data am). DELIMITER \<notin> set x)"
proof
  assume p: "UTXOAmounts_init a (SStr text) = Inr am"
  then have "\<forall>x\<in>set (am_data am). DELIMITER \<notin> set x"
    by (auto simp: Let_def dest: split_on_parts split: if_splits)
  with p show "am_address am = a \<and> as_str am = Inr text \<and> (\<forall>x\<in>set (am_data am). DELIMITER \<notin> set x)"
    using as_str_parse [of a "text" am] by simp
next
  assume r: "am_address am = a \<and> as_str am = Inr text \<and> (\<forall>x\<in>set (am_data am). DELIMITER \<notin> set x)"
  then have "parse_text a (join_with [DELIMITER] (am_data am)) =
      Inr \<lparr>am_address = a, am_data = am_data am\<rparr>"
    by (intro parse_as_str) (auto simp: as_str_def split: if_splits)
  with r show "UTXOAmounts_init a (SStr text) = Inr am"
    by (auto simp: as_str_def simp del: parse_text.simps split: if_splits)
qed

theorem amounts_parse_print_witness:
  "UTXOAmounts_init ''A'' (SStr ''10:11:12:5'') =
     Inr \<lparr>am_address = ''A'', am_data = [''10'', ''11'', ''12'', ''5'']\<rparr>"
  unfolding amounts_parse_print by code_simp

text \<open>On the text form of a list of (sequence number, amount) pairs the operations of
  \<open>UTXOAmounts\<close> are those of the list: adding appends a pair, removing deletes the first pair of
  the sequence number and raises \<open>UTXONotFound\<close> when there is none, and reading lists the pairs
  as outputs of the address.\<close>

theorem amounts_operations:
  assumes "am_data am = encode ps"
  shows "add_amount am n (Some v) = Inr (am\<lparr>am_data := encode (ps @ [(n, v)])\<rparr>) \<and>
    add_amount am n None = Inl UTXOError \<and>
    remove_seq_no am n = (if n \<in> fst ` set ps then Inr (am\<lparr>am_data := encode (del_key n ps)\<rparr>)
      else Inl UTXONotFound) \<and>
    as_output_list am = Inr (map (\<lambda>p. mk_output (am_address am) (fst p) (Some (snd p))) ps)"
  using assms add_amount_encode [OF assms] remove_seq_no_encode [OF assms] as_output_list_encode [OF assms]
  by (simp add: add_amount_def)

theorem amounts_operations_witness:
  "remove_seq_no \<lparr>am_address = ''A'', am_data = encode [(3, 30), (30, 40)]\<rparr> 30 =
     Inr \<lparr>am_address = ''A'', am_data = encode [(3, 30)]\<rparr>"
  using amounts_operations [of "\<lparr>am_address = ''A'', am_data = encode [(3, 30), (30, 40)]\<rparr>" "[(3, 30), (30, 40)]" 30]
  by simp

text \<open>\<open>sum_amounts\<close> over distinct sequence numbers adds exactly the amounts of the requested set,
  and raises \<open>UTXONotFound\<close> exactly when one of them is not there.\<close>

theorem sum_amounts_exact:
  assumes "am_data am = encode ps" "distinct (map fst ps)"
  shows "sum_amounts am S =
    (if S \<subseteq> fst ` set ps then Inr (\<Sum>n\<in>S. the (map_of ps n)) else Inl UTXONotFound)"
  using sum_amounts_encode [OF assms, of S] by (simp add: amount_at_def)

theorem sum_amounts_exact_witness:
  "sum_amounts \<lparr>am_address = ''A'', am_data = encode [(2, 20), (3, 30), (30, 40)]\<rparr> {2, 30} = Inr 60"
  using sum_amounts_exact [of "\<lparr>am_address = ''A'', am_data = encode [(2, 20), (3, 30), (30, 40)]\<rparr>"
      "[(2, 20), (3, 30), (30, 40)]" "{2, 30}"] by simp

end
