(* ===== verification/KV_Store.thy ===== *)
theory KV_Store
  imports UTXO_Amounts
begin

text \<open>
  The interface of plenum's \<open>OptimisticKVStore\<close>, the base class of \<open>UTXOCache\<close>. Its code is not
  part of the repository, so its methods are the fields of a record that every definition over
  the cache takes as an argument, and what the plugins rely on are the assumptions of two
  locales:
  \<^item> \<open>kv_text_store\<close>: under one value of \<open>is_committed\<close>, what was set is what is read back;
  \<^item> \<open>kv_batch_store\<close>: the store is a committed map, a queue of uncommitted batches (each a
    map with the root it was created for) and the changes of the current batch; batches are
    created from the current changes, committed from the front and rejected from the back. The
    repository's tests check these views (\<open>un_committed\<close>, \<open>current_batch_ops\<close>).

  \<open>okv_store\<close> is a concrete store that satisfies the assumptions; it is the instance at which
  the witnesses of the development evaluate.
\<close>

section \<open>The methods\<close>

text \<open>A state root is \<open>bytes\<close> or its base58 text.\<close>

datatype state_root = RootBytes string | RootStr string

text \<open>\<open>kv_get\<close> is \<open>None\<close> where the method raises \<open>KeyError\<close>. \<open>kv_reject_batch\<close> also returns the
  number the method reports. \<open>kv_first_batch_idr\<close> reads the property \<open>first_batch_idr\<close>, the root of the
  oldest uncommitted batch; where there is none it gives no root, by \<open>None\<close> or by raising.\<close>

record 'c kv_store =
  kv_get :: "'c \<Rightarrow> string \<Rightarrow> bool \<Rightarrow> stored option"
  kv_set :: "'c \<Rightarrow> string \<Rightarrow> string \<Rightarrow> bool \<Rightarrow> 'c"
  kv_create_batch_from_current :: "'c \<Rightarrow> state_root \<Rightarrow> 'c"
  kv_commit_batch :: "'c \<Rightarrow> exn + 'c"
  kv_reject_batch :: "'c \<Rightarrow> exn + (nat \<times> 'c)"
  kv_first_batch_idr :: "'c \<Rightarrow> exn + state_root option"

fun text_of :: "stored \<Rightarrow> string option" where
  "text_of (SStr s) = Some s"
| "text_of (SBytes b) = Some b"
| "text_of SNone = None"
| "text_of SOther = None"

lemma UTXOAmounts_init_text:
  "text_of v = Some s \<Longrightarrow> UTXOAmounts_init a v = parse_text a s"
  by (cases v) auto

section \<open>Reading back what was set\<close>

locale kv_text_store =
  fixes kv :: "'c kv_store"
    and ic :: bool
  assumes get_set: "\<exists>v. kv_get kv (kv_set kv c k s ic) k ic = Some v \<and> text_of v = Some s"
    and get_set_other: "k' \<noteq> k \<Longrightarrow> kv_get kv (kv_set kv c k s ic) k' ic = kv_get kv c k' ic"

section \<open>Batches\<close>

definition visible :: "(string \<rightharpoonup> string) \<Rightarrow> (state_root \<times> (string \<rightharpoonup> string)) list
    \<Rightarrow> (string \<rightharpoonup> string) \<Rightarrow> (string \<rightharpoonup> string)" where
  "visible com unc cur = foldl (++) com (map snd unc) ++ cur"

lemma visible_create [simp]: "visible com (unc @ [(r, cur)]) Map.empty = visible com unc cur"
  by (simp add: visible_def)

lemma visible_commit [simp]: "visible (com ++ b) unc cur = visible com ((r, b) # unc) cur"
  by (simp add: visible_def)

lemma visible_set: "visible com unc (cur(k \<mapsto> s)) = (visible com unc cur)(k \<mapsto> s)"
  by (simp add: visible_def)

locale kv_batch_store =
  fixes kv :: "'c kv_store"
    and com :: "'c \<Rightarrow> (string \<rightharpoonup> string)"
    and unc :: "'c \<Rightarrow> (state_root \<times> (string \<rightharpoonup> string)) list"
    and cur :: "'c \<Rightarrow> (string \<rightharpoonup> string)"
    and rd :: "string \<Rightarrow> stored"
    and rd_new :: "string \<Rightarrow> stored"
  assumes rd_text: "text_of (rd s) = Some s" "text_of (rd_new s) = Some s"
    and get_committed: "kv_get kv c k True = map_option rd (com c k)"
    and get_uncommitted: "kv_get kv c k False =
      (case visible Map.empty (unc c) (cur c) k of
         Some s \<Rightarrow> Some (rd_new s) | None \<Rightarrow> map_option rd (com c k))"
    and set_committed: "com (kv_set kv c k s True) = (com c)(k \<mapsto> s)"
      "unc (kv_set kv c k s True) = unc c" "cur (kv_set kv c k s True) = cur c"
    and set_uncommitted: "com (kv_set kv c k s False) = com c"
      "unc (kv_set kv c k s False) = unc c" "cur (kv_set kv c k s False) = (cur c)(k \<mapsto> s)"
    and create: "com (kv_create_batch_from_current kv c r) = com c"
      "unc (kv_create_batch_from_current kv c r) = unc c @ [(r, cur c)]"
      "cur (kv_create_batch_from_current kv c r) = Map.empty"
    and commit: "unc c = (r, b) # bs \<Longrightarrow>
      \<exists>c'. kv_commit_batch kv c = Inr c' \<and> com c' = com c ++ b \<and> unc c' = bs \<and> cur c' = cur c"
    and reject: "unc c = bs @ [(r, b)] \<Longrightarrow> cur c = Map.empty \<Longrightarrow>
      \<exists>n c'. kv_reject_batch kv c = Inr (n, c') \<and> com c' = com c \<and> unc c' = bs \<and>
        cur c' = Map.empty"
    and first: "unc c = (r, b) # bs \<Longrightarrow> kv_first_batch_idr kv c = Inr (Some r)"
    and first_empty: "unc c = [] \<Longrightarrow> kv_first_batch_idr kv c \<noteq> Inr (Some r)"
begin

text \<open>The text stored for a key, as the uncommitted readers see it.\<close>

abbreviation seen :: "'c \<Rightarrow> (string \<rightharpoonup> string)" where
  "seen c \<equiv> visible (com c) (unc c) (cur c)"

lemma foldl_add_com: "foldl (++) m bs k = (case foldl (++) Map.empty bs k of
    Some s \<Rightarrow> Some s | None \<Rightarrow> m k)"
proof (induction bs rule: rev_induct)
  case (snoc b bs)
  then show ?case by (auto simp: map_add_def split: option.splits)
qed simp

lemma get_text:
  "(case kv_get kv c k False of None \<Rightarrow> None | Some v \<Rightarrow> text_of v) = seen c k"
  "kv_get kv c k False = None \<longleftrightarrow> seen c k = None"
  using foldl_add_com [of "com c" "map snd (unc c)" k]
  by (auto simp: get_uncommitted visible_def map_add_def rd_text split: option.splits)

text \<open>After a commit the uncommitted readers see what they saw before.\<close>

lemma commit_seen:
  assumes "unc c = (r, b) # bs"
  shows "\<exists>c'. kv_commit_batch kv c = Inr c' \<and> seen c' = seen c \<and> unc c' = bs \<and>
    cur c' = cur c \<and> com c' = com c ++ b"
  using commit [OF assms] assms by auto

end

sublocale kv_batch_store \<subseteq> committed: kv_text_store kv True
  by unfold_locales (auto simp: get_committed set_committed rd_text)

sublocale kv_batch_store \<subseteq> uncommitted: kv_text_store kv False
  by unfold_locales
    (auto simp: get_uncommitted set_uncommitted visible_set rd_text split: option.splits)

section \<open>A store that satisfies the assumptions\<close>

record okv =
  okv_com :: "string \<rightharpoonup> string"
  okv_unc :: "(state_root \<times> (string \<rightharpoonup> string)) list"
  okv_cur :: "string \<rightharpoonup> string"

definition okv_empty :: okv where
  "okv_empty = \<lparr>okv_com = Map.empty, okv_unc = [], okv_cur = Map.empty\<rparr>"

definition okv_get :: "okv \<Rightarrow> string \<Rightarrow> bool \<Rightarrow> stored option" where
  "okv_get c k is_committed =
     (if is_committed then map_option SBytes (okv_com c k)
      else case visible Map.empty (okv_unc c) (okv_cur c) k of
        Some s \<Rightarrow> Some (SStr s) | None \<Rightarrow> map_option SBytes (okv_com c k))"

definition okv_set :: "okv \<Rightarrow> string \<Rightarrow> string \<Rightarrow> bool \<Rightarrow> okv" where
  "okv_set c k s is_committed =
     (if is_committed then c\<lparr>okv_com := (okv_com c)(k \<mapsto> s)\<rparr>
      else c\<lparr>okv_cur := (okv_cur c)(k \<mapsto> s)\<rparr>)"

definition okv_create :: "okv \<Rightarrow> state_root \<Rightarrow> okv" where
  "okv_create c r = c\<lparr>okv_unc := okv_unc c @ [(r, okv_cur c)], okv_cur := Map.empty\<rparr>"

definition okv_commit :: "okv \<Rightarrow> exn + okv" where
  "okv_commit c = (case okv_unc c of [] \<Rightarrow> Inl ValueError
     | (r, b) # bs \<Rightarrow> Inr (c\<lparr>okv_com := okv_com c ++ b, okv_unc := bs\<rparr>))"

definition okv_reject :: "okv \<Rightarrow> exn + (nat \<times> okv)" where
  "okv_reject c = (case rev (okv_unc c) of [] \<Rightarrow> Inl ValueError
     | (r, b) # bs \<Rightarrow> Inr (1, c\<lparr>okv_unc := rev bs, okv_cur := Map.empty\<rparr>))"

definition okv_first :: "okv \<Rightarrow> exn + state_root option" where
  "okv_first c = (case okv_unc c of [] \<Rightarrow> Inr None | (r, b) # bs \<Rightarrow> Inr (Some r))"

definition okv_store :: "okv kv_store" where
  "okv_store = \<lparr>kv_get = okv_get, kv_set = okv_set, kv_create_batch_from_current = okv_create,
     kv_commit_batch = okv_commit, kv_reject_batch = okv_reject, kv_first_batch_idr = okv_first\<rparr>"

lemmas okv_defs = okv_store_def okv_get_def okv_set_def okv_create_def okv_commit_def
  okv_reject_def okv_first_def okv_empty_def

interpretation okv: kv_batch_store okv_store okv_com okv_unc okv_cur SBytes SStr
  by unfold_locales (auto simp: okv_defs split: option.splits)

end
