(* ===== verification/UTXO_Contract.thy ===== *)
theory UTXO_Contract
  imports UTXO_Amounts
begin

text \<open>
  The contract of a store of unspent outputs, as the handlers rely on it: every address has a
  list of unspent (sequence number, amount) pairs; \<open>spend\<close> deletes one pair and raises a
  \<open>UTXOError\<close> without changing the unspent outputs when it is not there; \<open>add\<close> appends a pair.

  The locale \<open>utxo_store\<close> states the contract and proves, once, what the loops over inputs and
  outputs of the handlers do to the unspent outputs and to the supply of tokens. It is
  interpreted for the cache alone (theory \<open>UTXO_Cache\<close>) and for the pair of ledger state and
  cache that the transaction handlers write (theory \<open>Token_Utils\<close>).
\<close>

section \<open>Unspent outputs\<close>

type_synonym utxos = "string \<Rightarrow> (int \<times> int) list"

text \<open>An input names an output by address and sequence number; an output to be created is an
  address and an amount. These are the dictionaries \<open>{"address", "seqNo"}\<close> and
  \<open>{"address", "amount"}\<close> of a validated request.\<close>

record input =
  inp_address :: string
  inp_seqNo :: int

record payout =
  pay_address :: string
  pay_amount :: int

definition unspent :: "utxos \<Rightarrow> input \<Rightarrow> bool" where
  "unspent U i \<longleftrightarrow> inp_seqNo i \<in> fst ` set (U (inp_address i))"

definition spend_one :: "input \<Rightarrow> utxos \<Rightarrow> utxos" where
  "spend_one i U = U(inp_address i := del_key (inp_seqNo i) (U (inp_address i)))"

definition add_one :: "int \<Rightarrow> payout \<Rightarrow> utxos \<Rightarrow> utxos" where
  "add_one n p U = U(pay_address p := U (pay_address p) @ [(n, pay_amount p)])"

definition input_amount :: "utxos \<Rightarrow> input \<Rightarrow> int" where
  "input_amount U i = amount_at (U (inp_address i)) (inp_seqNo i)"

definition inputs_total :: "utxos \<Rightarrow> input list \<Rightarrow> int" where
  "inputs_total U ins = sum_list (map (input_amount U) ins)"

definition payouts_total :: "payout list \<Rightarrow> int" where
  "payouts_total outs = sum_list (map pay_amount outs)"

definition utxos_wf :: "utxos \<Rightarrow> bool" where
  "utxos_wf U \<longleftrightarrow> (\<forall>a. distinct (map fst (U a)))"

text \<open>The tokens held by a finite set of addresses.\<close>

definition token_supply :: "string set \<Rightarrow> utxos \<Rightarrow> int" where
  "token_supply A U = (\<Sum>a\<in>A. total_amount (U a))"

text \<open>What a payment does: the inputs leave, the outputs enter under one sequence number.\<close>

definition spend_all :: "input list \<Rightarrow> utxos \<Rightarrow> utxos" where
  "spend_all ins U = fold spend_one ins U"

definition add_all :: "int \<Rightarrow> payout list \<Rightarrow> utxos \<Rightarrow> utxos" where
  "add_all n outs U = fold (add_one n) outs U"

section \<open>Properties of the abstract operations\<close>

lemma utxos_wf_spend_one: "utxos_wf U \<Longrightarrow> utxos_wf (spend_one i U)"
  by (auto simp: utxos_wf_def spend_one_def distinct_del_key)

lemma unspent_spend_one:
  "utxos_wf U \<Longrightarrow> unspent (spend_one i U) j \<longleftrightarrow> unspent U j \<and> j \<noteq> i"
  by (cases i; cases j) (auto simp: unspent_def spend_one_def keys_del_key utxos_wf_def)

lemma map_of_spend_one:
  assumes "utxos_wf U" and "j \<noteq> i"
  shows "map_of (spend_one i U (inp_address j)) (inp_seqNo j) = map_of (U (inp_address j)) (inp_seqNo j)"
  using assms by (cases i; cases j) (auto simp: spend_one_def utxos_wf_def map_of_del_key)

lemma input_amount_spend_one:
  "utxos_wf U \<Longrightarrow> j \<noteq> i \<Longrightarrow> input_amount (spend_one i U) j = input_amount U j"
  by (simp add: input_amount_def amount_at_def map_of_spend_one)

lemma supply_update:
  assumes "finite A" and "a \<in> A"
  shows "token_supply A (U(a := ps)) = token_supply A U - total_amount (U a) + total_amount ps"
  using sum.remove [OF assms, of "\<lambda>b. total_amount ((U(a := ps)) b)"]
    sum.remove [OF assms, of "\<lambda>b. total_amount (U b)"]
  by (simp add: token_supply_def)

lemma supply_spend_one:
  assumes "finite A" "inp_address i \<in> A" "unspent U i"
  shows "token_supply A (spend_one i U) = token_supply A U - input_amount U i"
proof -
  obtain v where "map_of (U (inp_address i)) (inp_seqNo i) = Some v"
    using assms(3) by (cases "map_of (U (inp_address i)) (inp_seqNo i)")
      (auto simp: unspent_def map_of_eq_None_iff)
  then show ?thesis
    using supply_update [OF assms(1,2)]
    by (simp add: spend_one_def total_del_key input_amount_def amount_at_def)
qed

lemma supply_add_one:
  "finite A \<Longrightarrow> pay_address p \<in> A \<Longrightarrow> token_supply A (add_one n p U) = token_supply A U + pay_amount p"
  by (simp add: add_one_def supply_update)

lemma supply_spend_all:
  assumes "finite A" "inp_address ` set ins \<subseteq> A" "utxos_wf U" "distinct ins"
    and "\<And>i. i \<in> set ins \<Longrightarrow> unspent U i"
  shows "token_supply A (spend_all ins U) = token_supply A U - inputs_total U ins"
  using assms
proof (induction ins arbitrary: U)
  case (Cons i ins)
  have "token_supply A (spend_all ins (spend_one i U)) =
      token_supply A (spend_one i U) - inputs_total (spend_one i U) ins"
    using Cons.prems by (intro Cons.IH) (auto simp: utxos_wf_spend_one unspent_spend_one)
  moreover have "inputs_total (spend_one i U) ins = inputs_total U ins"
    unfolding inputs_total_def using Cons.prems(3,4)
    by (intro arg_cong [of _ _ sum_list] map_cong) (auto intro: input_amount_spend_one)
  moreover have "token_supply A (spend_one i U) = token_supply A U - input_amount U i"
    using Cons.prems by (intro supply_spend_one) auto
  ultimately show ?case by (simp add: spend_all_def inputs_total_def)
qed (simp add: spend_all_def inputs_total_def)

lemma supply_add_all:
  "finite A \<Longrightarrow> pay_address ` set outs \<subseteq> A \<Longrightarrow>
   token_supply A (add_all n outs U) = token_supply A U + payouts_total outs"
proof (induction outs arbitrary: U)
  case (Cons p outs)
  then show ?case using supply_add_one [of A p n U]
    by (simp add: add_all_def payouts_total_def)
qed (simp add: add_all_def payouts_total_def)

lemma spend_all_subset: "set (spend_all ins U a) \<subseteq> set (U a)"
proof (induction ins arbitrary: U)
  case (Cons i ins)
  have "set (spend_one i U a) \<subseteq> set (U a)"
    using set_del_key_subset [of "inp_seqNo i" "U a"] by (auto simp: spend_one_def)
  then show ?case using Cons [of "spend_one i U"] by (auto simp: spend_all_def)
qed (simp add: spend_all_def)

lemma spend_all_wf: "utxos_wf U \<Longrightarrow> utxos_wf (spend_all ins U)"
  by (induction ins arbitrary: U) (simp_all add: spend_all_def utxos_wf_spend_one)

lemma spend_all_gone:
  "utxos_wf U \<Longrightarrow> unspent (spend_all ins U) j \<longleftrightarrow> unspent U j \<and> j \<notin> set ins"
  by (induction ins arbitrary: U)
    (auto simp: spend_all_def utxos_wf_spend_one unspent_spend_one)

text \<open>Outputs to distinct addresses under a fresh sequence number.\<close>

definition fresh :: "int \<Rightarrow> payout list \<Rightarrow> utxos \<Rightarrow> bool" where
  "fresh n outs U \<longleftrightarrow>
     distinct (map pay_address outs) \<and> (\<forall>p\<in>set outs. n \<notin> fst ` set (U (pay_address p)))"

lemma fresh_Cons:
  "fresh n (p # outs) U \<Longrightarrow> n \<notin> fst ` set (U (pay_address p)) \<and> fresh n outs (add_one n p U)"
  by (auto simp: fresh_def add_one_def image_iff)

lemma fresh_spend_all: "fresh n outs U \<Longrightarrow> fresh n outs (spend_all ins U)"
  using spend_all_subset [of ins U] by (fastforce simp: fresh_def)

lemma unspent_add_all:
  "unspent (add_all n outs U) j \<longleftrightarrow>
   unspent U j \<or> (inp_seqNo j = n \<and> inp_address j \<in> pay_address ` set outs)"
proof (induction outs arbitrary: U)
  case (Cons p outs)
  have "unspent (add_one n p U) j \<longleftrightarrow> unspent U j \<or> (inp_seqNo j = n \<and> inp_address j = pay_address p)"
    by (auto simp: unspent_def add_one_def)
  then show ?case using Cons [of "add_one n p U"] by (auto simp: add_all_def)
qed (simp add: add_all_def)

lemma utxos_wf_add_one:
  "utxos_wf U \<Longrightarrow> n \<notin> fst ` set (U (pay_address p)) \<Longrightarrow> utxos_wf (add_one n p U)"
  by (auto simp: utxos_wf_def add_one_def)

section \<open>The contract\<close>

locale utxo_store =
  fixes wf :: "'s \<Rightarrow> bool"
    and abs :: "'s \<Rightarrow> utxos"
    and spend :: "input \<Rightarrow> ('s, unit) proc"
    and add :: "Output \<Rightarrow> ('s, unit) proc"
  assumes wf_abs: "wf s \<Longrightarrow> utxos_wf (abs s)"
    and spend_ok: "wf s \<Longrightarrow> unspent (abs s) i \<Longrightarrow>
      \<exists>s'. spend i s = (Inr (), s') \<and> wf s' \<and> abs s' = spend_one i (abs s)"
    and spend_missing: "wf s \<Longrightarrow> \<not> unspent (abs s) i \<Longrightarrow>
      \<exists>e s'. spend i s = (Inl e, s') \<and> is_UTXOError e \<and> wf s' \<and> abs s' = abs s"
    and add_ok: "wf s \<Longrightarrow> n \<notin> fst ` set (abs s (pay_address p)) \<Longrightarrow>
      \<exists>s'. add (mk_output (pay_address p) n (Some (pay_amount p))) s = (Inr (), s') \<and>
        wf s' \<and> abs s' = add_one n p (abs s)"
begin

text \<open>The loops of the handlers.\<close>

abbreviation spend_loop :: "input list \<Rightarrow> ('s, unit) proc" where
  "spend_loop ins \<equiv> for_each spend ins"

abbreviation add_loop :: "int \<Rightarrow> payout list \<Rightarrow> ('s, unit) proc" where
  "add_loop n outs \<equiv>
     for_each (\<lambda>p. add (mk_output (pay_address p) n (Some (pay_amount p)))) outs"

lemma spend_loop_ok:
  assumes "wf s" "distinct ins" "\<And>i. i \<in> set ins \<Longrightarrow> unspent (abs s) i"
  shows "\<exists>s'. spend_loop ins s = (Inr (), s') \<and> wf s' \<and> abs s' = spend_all ins (abs s)"
  using assms
proof (induction ins arbitrary: s)
  case (Cons i ins)
  obtain s1 where s1: "spend i s = (Inr (), s1)" "wf s1" "abs s1 = spend_one i (abs s)"
    using spend_ok Cons.prems by (meson list.set_intros(1))
  have "\<exists>s'. spend_loop ins s1 = (Inr (), s') \<and> wf s' \<and> abs s' = spend_all ins (abs s1)"
    using Cons.prems s1 by (intro Cons.IH) (auto simp: unspent_spend_one wf_abs)
  then show ?case using s1 by (auto simp: spend_all_def)
qed (simp add: spend_all_def)

text \<open>An input that is not unspent, or is named twice, makes the loop raise a \<open>UTXOError\<close>; the
  unspent outputs are then those left after the inputs before it.\<close>

lemma spend_loop_fails:
  assumes "wf s" "\<not> (distinct ins \<and> (\<forall>i\<in>set ins. unspent (abs s) i))"
  shows "\<exists>e s'. spend_loop ins s = (Inl e, s') \<and> is_UTXOError e \<and> wf s' \<and>
    (\<exists>k < length ins. abs s' = spend_all (take k ins) (abs s))"
  using assms
proof (induction ins arbitrary: s)
  case (Cons i ins)
  show ?case
  proof (cases "unspent (abs s) i")
    case False
    then obtain e s' where "spend i s = (Inl e, s')" "is_UTXOError e" "wf s'" "abs s' = abs s"
      using spend_missing Cons.prems(1) by blast
    then show ?thesis by (force simp: spend_all_def)
  next
    case True
    then obtain s1 where s1: "spend i s = (Inr (), s1)" "wf s1" "abs s1 = spend_one i (abs s)"
      using spend_ok Cons.prems(1) by blast
    have "\<not> (distinct ins \<and> (\<forall>j\<in>set ins. unspent (abs s1) j))"
      using Cons.prems True s1 by (auto simp: unspent_spend_one wf_abs)
    from Cons.IH [OF s1(2) this] obtain e s' k where r: "spend_loop ins s1 = (Inl e, s')"
      "is_UTXOError e" "wf s'" "k < length ins" "abs s' = spend_all (take k ins) (abs s1)" by blast
    then have "abs s' = spend_all (take (Suc k) (i # ins)) (abs s)"
      using s1 by (simp add: spend_all_def)
    moreover have "spend_loop (i # ins) s = (Inl e, s')" using s1 r by simp
    moreover have "Suc k < length (i # ins)" using r by simp
    ultimately show ?thesis using r by blast
  qed
qed simp

lemma add_loop_ok:
  assumes "wf s" "fresh n outs (abs s)"
  shows "\<exists>s'. add_loop n outs s = (Inr (), s') \<and> wf s' \<and> abs s' = add_all n outs (abs s)"
  using assms
proof (induction outs arbitrary: s)
  case (Cons p outs)
  obtain s1 where s1: "add (mk_output (pay_address p) n (Some (pay_amount p))) s = (Inr (), s1)"
    "wf s1" "abs s1 = add_one n p (abs s)"
    using add_ok fresh_Cons Cons.prems by meson
  have "\<exists>s'. add_loop n outs s1 = (Inr (), s') \<and> wf s' \<and> abs s' = add_all n outs (abs s1)"
    using s1 fresh_Cons [OF Cons.prems(2)] by (intro Cons.IH) auto
  then show ?case using s1 by (auto simp: add_all_def)
qed (simp add: add_all_def)

text \<open>A payment: all inputs are spent, then the outputs are added.\<close>

lemma pay_ok:
  assumes "wf s" "distinct ins" "\<And>i. i \<in> set ins \<Longrightarrow> unspent (abs s) i" "fresh n outs (abs s)"
  shows "\<exists>s'. pseq (spend_loop ins) (add_loop n outs) s = (Inr (), s') \<and> wf s' \<and>
    abs s' = add_all n outs (spend_all ins (abs s))"
proof -
  obtain s1 where s1: "spend_loop ins s = (Inr (), s1)" "wf s1" "abs s1 = spend_all ins (abs s)"
    using spend_loop_ok assms by blast
  moreover have "fresh n outs (abs s1)" using s1 assms(4) by (simp add: fresh_spend_all)
  ultimately show ?thesis using add_loop_ok [of s1 n outs] by auto
qed

lemma pay_fails:
  assumes "wf s" "\<not> (distinct ins \<and> (\<forall>i\<in>set ins. unspent (abs s) i))"
  shows "\<exists>e s'. pseq (spend_loop ins) (add_loop n outs) s = (Inl e, s') \<and> is_UTXOError e \<and> wf s'"
  using spend_loop_fails [OF assms] by auto

lemma pay_supply:
  assumes "wf s" "distinct ins" "\<And>i. i \<in> set ins \<Longrightarrow> unspent (abs s) i" "fresh n outs (abs s)"
    and "finite A" "inp_address ` set ins \<union> pay_address ` set outs \<subseteq> A"
    and "pseq (spend_loop ins) (add_loop n outs) s = (Inr (), s')"
  shows "token_supply A (abs s') = token_supply A (abs s) - inputs_total (abs s) ins + payouts_total outs"
proof -
  have "abs s' = add_all n outs (spend_all ins (abs s))"
    using pay_ok [OF assms(1-4)] assms(7) by auto
  then show ?thesis
    using assms by (simp add: supply_add_all supply_spend_all wf_abs)
qed

end

end
