(* ===== verification/UTXO_Cache.thy ===== *)
theory UTXO_Cache
  imports KV_Store UTXO_Contract
begin

text \<open>
  The class \<open>UTXOCache\<close> of \<open>sovtoken/utxo_cache.py\<close>: \<open>add_output\<close>, \<open>spend_output\<close>,
  \<open>get_unspent_outputs\<close> and \<open>sum_inputs\<close> over a key-value store, with \<open>UTXOAmounts.get_amounts\<close>.

  A cache is well formed (\<open>cache_wf\<close>) when every entry is the text of a list of pairs with
  distinct sequence numbers; \<open>cache_utxos\<close> reads these pairs back. Over every store that
  satisfies \<open>kv_text_store\<close> the cache meets the contract \<open>utxo_store\<close>, and \<open>sum_inputs\<close> is the
  sum of the named unspent outputs, each counted once.
\<close>

section \<open>Operations\<close>

definition get_amounts :: "'c kv_store \<Rightarrow> string \<Rightarrow> 'c \<Rightarrow> bool \<Rightarrow> bool \<Rightarrow> exn + UTXOAmounts" where
  "get_amounts kv addr cache make_new is_committed =
     (case kv_get kv cache addr is_committed of
        Some data \<Rightarrow> UTXOAmounts_init addr data
      | None \<Rightarrow> if make_new then UTXOAmounts_init addr SNone else Inl UTXOAddressNotFound)"

definition add_output :: "'c kv_store \<Rightarrow> Output \<Rightarrow> bool \<Rightarrow> 'c \<Rightarrow> exn + 'c" where
  "add_output kv output is_committed self =
     ebind (get_amounts kv (address output) self True is_committed) (\<lambda>seq_nos_amounts.
     ebind (add_amount seq_nos_amounts (seqNo output) (amount output)) (\<lambda>seq_nos_amounts.
     ebind (as_str seq_nos_amounts) (\<lambda>text.
     Inr (kv_set kv self (address output) text is_committed))))"

definition spend_output :: "'c kv_store \<Rightarrow> Output \<Rightarrow> bool \<Rightarrow> 'c \<Rightarrow> exn + 'c" where
  "spend_output kv output is_committed self =
     ebind (get_amounts kv (address output) self False is_committed) (\<lambda>seq_nos_amounts.
     ebind (remove_seq_no seq_nos_amounts (seqNo output)) (\<lambda>seq_nos_amounts.
     ebind (as_str seq_nos_amounts) (\<lambda>text.
     Inr (kv_set kv self (address output) text is_committed))))"

definition get_unspent_outputs :: "'c kv_store \<Rightarrow> string \<Rightarrow> bool \<Rightarrow> 'c \<Rightarrow> exn + Output list" where
  "get_unspent_outputs kv addr is_committed self =
     ebind (get_amounts kv addr self True is_committed) as_output_list"

text \<open>\<open>addresses = defaultdict(set)\<close>: a dictionary in insertion order.\<close>

fun group_add :: "string \<Rightarrow> int \<Rightarrow> (string \<times> int set) list \<Rightarrow> (string \<times> int set) list" where
  "group_add a n [] = [(a, {n})]"
| "group_add a n ((b, S) # G) = (if b = a then (b, insert n S) # G else (b, S) # group_add a n G)"

definition group_inputs :: "input list \<Rightarrow> (string \<times> int set) list" where
  "group_inputs inputs =
     fold (\<lambda>inp. group_add (inp_address inp) (inp_seqNo inp)) inputs []"

fun sum_groups :: "'c kv_store \<Rightarrow> bool \<Rightarrow> 'c \<Rightarrow> (string \<times> int set) list \<Rightarrow> int \<Rightarrow> exn + int" where
  "sum_groups kv is_committed self [] output_val = Inr output_val"
| "sum_groups kv is_committed self ((addr, seq_nos) # rest) output_val =
     ebind (get_amounts kv addr self False is_committed) (\<lambda>seq_nos_amounts.
     ebind (sum_amounts seq_nos_amounts seq_nos) (\<lambda>t.
     sum_groups kv is_committed self rest (output_val + t)))"

definition sum_inputs :: "'c kv_store \<Rightarrow> input list \<Rightarrow> bool \<Rightarrow> 'c \<Rightarrow> exn + int" where
  "sum_inputs kv inputs is_committed self =
     sum_groups kv is_committed self (group_inputs inputs) 0"

section \<open>Well-formed caches and what they hold\<close>

definition holds_pairs :: "'c kv_store \<Rightarrow> bool \<Rightarrow> 'c \<Rightarrow> string \<Rightarrow> (int \<times> int) list \<Rightarrow> bool" where
  "holds_pairs kv is_committed c a ps \<longleftrightarrow>
     (case kv_get kv c a is_committed of
        None \<Rightarrow> ps = [] | Some v \<Rightarrow> text_of v = Some (encode_str ps))"

definition cache_wf :: "'c kv_store \<Rightarrow> bool \<Rightarrow> 'c \<Rightarrow> bool" where
  "cache_wf kv is_committed c \<longleftrightarrow>
     (\<forall>a. \<exists>ps. holds_pairs kv is_committed c a ps \<and> distinct (map fst ps))"

definition cache_utxos :: "'c kv_store \<Rightarrow> bool \<Rightarrow> 'c \<Rightarrow> utxos" where
  "cache_utxos kv is_committed c a =
     (case get_unspent_outputs kv a is_committed c of
        Inr os \<Rightarrow> map (\<lambda>o'. (seqNo o', the (amount o'))) os | Inl _ \<Rightarrow> [])"

lemma get_amounts_holds:
  assumes "holds_pairs kv b c a ps"
  shows "get_amounts kv a c True b = Inr \<lparr>am_address = a, am_data = encode ps\<rparr>"
    and "get_amounts kv a c False b =
      (if kv_get kv c a b = None then Inl UTXOAddressNotFound
       else Inr \<lparr>am_address = a, am_data = encode ps\<rparr>)"
  using assms
  by (auto simp: get_amounts_def holds_pairs_def UTXOAmounts_init_text
      simp del: parse_text.simps split: option.splits)

lemma cache_utxos_holds:
  assumes "holds_pairs kv b c a ps"
  shows "cache_utxos kv b c a = ps"
    and "get_unspent_outputs kv a b c = Inr (map (\<lambda>p. mk_output a (fst p) (Some (snd p))) ps)"
  using get_amounts_holds(1) [OF assms]
  by (simp_all add: cache_utxos_def get_unspent_outputs_def as_output_list_encode comp_def)

lemma cache_wf_holds:
  assumes "cache_wf kv b c"
  shows "holds_pairs kv b c a (cache_utxos kv b c a)" "distinct (map fst (cache_utxos kv b c a))"
  using assms cache_utxos_holds(1) [of kv b c a] unfolding cache_wf_def by metis+

lemma cache_wf_utxos: "cache_wf kv b c \<Longrightarrow> utxos_wf (cache_utxos kv b c)"
  by (simp add: utxos_wf_def cache_wf_holds)

lemma empty_entry: "holds_pairs kv b c a ps \<Longrightarrow> kv_get kv c a b = None \<Longrightarrow> ps = []"
  by (simp add: holds_pairs_def)

section \<open>The cache meets the contract\<close>

context kv_text_store
begin

text \<open>Writing the text of a list of pairs changes the entry of one address.\<close>

lemma set_pairs:
  assumes "cache_wf kv ic c" and "distinct (map fst ps)"
  shows "cache_wf kv ic (kv_set kv c a (encode_str ps) ic)"
    and "cache_utxos kv ic (kv_set kv c a (encode_str ps) ic) = (cache_utxos kv ic c)(a := ps)"
proof -
  let ?c = "kv_set kv c a (encode_str ps) ic" and ?U = "(cache_utxos kv ic c)(a := ps)"
  have holds: "holds_pairs kv ic ?c b (?U b)" for b
    using get_set [of c a "encode_str ps"] get_set_other [of b a c "encode_str ps"]
      cache_wf_holds(1) [OF assms(1), of b]
    by (auto simp: holds_pairs_def)
  then show "cache_wf kv ic ?c"
    using assms cache_wf_holds(2) [OF assms(1)] unfolding cache_wf_def
    by (metis fun_upd_apply)
  show "cache_utxos kv ic ?c = ?U"
    using cache_utxos_holds(1) [OF holds] by blast
qed

lemma add_output_cache:
  assumes "cache_wf kv ic c"
  shows "add_output kv (mk_output a n (Some v)) ic c =
    Inr (kv_set kv c a (encode_str (cache_utxos kv ic c a @ [(n, v)])) ic)"
  using get_amounts_holds(1) [OF cache_wf_holds(1) [OF assms, of a]]
  by (simp add: add_output_def add_amount_def as_str_def encode_str_def)

lemma spend_output_cache:
  assumes "cache_wf kv ic c"
  shows "spend_output kv (mk_output a n v) ic c =
    (if n \<in> fst ` set (cache_utxos kv ic c a)
     then Inr (kv_set kv c a (encode_str (del_key n (cache_utxos kv ic c a))) ic)
     else if kv_get kv c a ic = None then Inl UTXOAddressNotFound else Inl UTXONotFound)"
  using get_amounts_holds(2) [OF cache_wf_holds(1) [OF assms, of a]]
    empty_entry [OF cache_wf_holds(1) [OF assms, of a]]
  by (auto simp: spend_output_def remove_seq_no_encode)

end

sublocale kv_text_store \<subseteq> cache: utxo_store
  "cache_wf kv ic" "cache_utxos kv ic"
  "\<lambda>i. pupdate (spend_output kv (mk_output (inp_address i) (inp_seqNo i) None) ic)"
  "\<lambda>o'. pupdate (add_output kv o' ic)"
proof (unfold_locales, goal_cases)
  case (1 c)
  then show ?case by (rule cache_wf_utxos)
next
  case (2 c i)
  then show ?case
    by (auto simp: pupdate_def spend_output_cache unspent_def spend_one_def set_pairs
        distinct_del_key cache_wf_holds)
next
  case (3 c i)
  then show ?case
    by (auto simp: pupdate_def spend_output_cache unspent_def)
next
  case (4 c n p)
  then show ?case
    by (auto simp: pupdate_def add_output_cache add_one_def set_pairs cache_wf_holds)
qed

section \<open>Sums of inputs\<close>

definition in_groups :: "string \<Rightarrow> int \<Rightarrow> (string \<times> int set) list \<Rightarrow> bool" where
  "in_groups a n G \<longleftrightarrow> (\<exists>S. (a, S) \<in> set G \<and> n \<in> S)"

definition groups_total :: "utxos \<Rightarrow> (string \<times> int set) list \<Rightarrow> int" where
  "groups_total U G = sum_list (map (\<lambda>(a, S). sum (amount_at (U a)) S) G)"

definition groups_ok :: "(string \<times> int set) list \<Rightarrow> bool" where
  "groups_ok G \<longleftrightarrow> distinct (map fst G) \<and> (\<forall>(a, S)\<in>set G. finite S \<and> S \<noteq> {})"

lemma group_add_keys: "fst ` set (group_add a n G) = insert a (fst ` set G)"
  by (induction G rule: group_add.induct) auto

lemma groups_ok_add: "groups_ok G \<Longrightarrow> groups_ok (group_add a n G)"
proof (induction a n G rule: group_add.induct)
  case (2 a n b S G)
  then show ?case using group_add_keys [of a n G]
    by (auto simp: groups_ok_def)
qed (simp add: groups_ok_def)

lemma in_groups_add:
  "in_groups b m (group_add a n G) \<longleftrightarrow> in_groups b m G \<or> (b = a \<and> m = n)"
  by (induction a n G rule: group_add.induct) (auto simp: in_groups_def)

lemma groups_total_add:
  "groups_ok G \<Longrightarrow> groups_total U (group_add a n G) =
    groups_total U G + (if in_groups a n G then 0 else amount_at (U a) n)"
proof (induction a n G rule: group_add.induct)
  case (2 a n b S G)
  have ok: "groups_ok G" "finite S" "b \<notin> fst ` set G"
    using "2.prems" by (auto simp: groups_ok_def)
  show ?case
  proof (cases "b = a")
    case True
    then have "in_groups a n ((b, S) # G) \<longleftrightarrow> n \<in> S"
      using ok(3) by (force simp: in_groups_def)
    then show ?thesis using True ok(2) by (simp add: groups_total_def insert_absorb)
  next
    case False
    then have "in_groups a n ((b, S) # G) \<longleftrightarrow> in_groups a n G"
      by (auto simp: in_groups_def)
    then show ?thesis using False "2.IH" [OF False ok(1)] by (simp add: groups_total_def)
  qed
qed (simp add: groups_total_def in_groups_def)

lemma group_inputs_snoc:
  "group_inputs (ins @ [i]) = group_add (inp_address i) (inp_seqNo i) (group_inputs ins)"
  by (simp add: group_inputs_def)

lemma group_inputs_spec:
  "groups_ok (group_inputs ins) \<and>
   (\<forall>a n. in_groups a n (group_inputs ins) \<longleftrightarrow> \<lparr>inp_address = a, inp_seqNo = n\<rparr> \<in> set ins) \<and>
   groups_total U (group_inputs ins) = sum (input_amount U) (set ins)"
proof (induction ins rule: rev_induct)
  case Nil
  then show ?case
    by (simp add: group_inputs_def groups_ok_def in_groups_def groups_total_def)
next
  case (snoc i ins)
  have "in_groups (inp_address i) (inp_seqNo i) (group_inputs ins) \<longleftrightarrow> i \<in> set ins"
    using snoc by (cases i) simp
  then have "groups_total U (group_inputs (ins @ [i])) = sum (input_amount U) (set (ins @ [i]))"
    using snoc by (simp add: group_inputs_snoc groups_total_add insert_absorb)
      (simp add: input_amount_def)
  moreover have "\<forall>a n. in_groups a n (group_inputs (ins @ [i])) \<longleftrightarrow>
      \<lparr>inp_address = a, inp_seqNo = n\<rparr> \<in> set (ins @ [i])"
    using snoc by (cases i) (auto simp: group_inputs_snoc in_groups_add)
  ultimately show ?case using snoc by (simp add: group_inputs_snoc groups_ok_add)
qed

lemma sum_groups_spec:
  assumes "cache_wf kv b c" and "groups_ok G"
  shows "sum_groups kv b c G t =
      Inr (t + groups_total (cache_utxos kv b c) G) \<and>
      (\<forall>(a, S)\<in>set G. S \<subseteq> fst ` set (cache_utxos kv b c a)) \<or>
    (\<exists>e. sum_groups kv b c G t = Inl e \<and> is_UTXOError e \<and>
      \<not> (\<forall>(a, S)\<in>set G. S \<subseteq> fst ` set (cache_utxos kv b c a)))"
  using assms(2)
proof (induction G arbitrary: t)
  case (Cons g G)
  obtain a S where g: "g = (a, S)" by (cases g)
  let ?ps = "cache_utxos kv b c a"
  have S: "S \<noteq> {}" and G: "groups_ok G" using Cons.prems g by (auto simp: groups_ok_def)
  note am = get_amounts_holds(2) [OF cache_wf_holds(1) [OF assms(1), of a]]
  note sums = sum_amounts_encode [of "\<lparr>am_address = a, am_data = encode ?ps\<rparr>" ?ps S,
      OF _ cache_wf_holds(2) [OF assms(1)]]
  show ?case
  proof (cases "S \<subseteq> fst ` set ?ps")
    case True
    then have "kv_get kv c a b \<noteq> None"
      using S empty_entry [OF cache_wf_holds(1) [OF assms(1), of a]] by auto
    then show ?thesis
      using True g am sums Cons.IH [OF G, of "t + sum (amount_at ?ps) S"]
      by (auto simp: groups_total_def add.assoc)
  next
    case False
    then show ?thesis using g am sums by auto
  qed
qed (simp add: groups_total_def)

lemma unspent_all_iff:
  "(\<forall>i\<in>set ins. unspent U i) \<longleftrightarrow>
   (\<forall>a n. \<lparr>inp_address = a, inp_seqNo = n\<rparr> \<in> set ins \<longrightarrow> n \<in> fst ` set (U a))"
  (is "?L \<longleftrightarrow> ?R")
proof
  assume ?L
  then show ?R by (fastforce simp: unspent_def)
next
  assume r: ?R
  show ?L
  proof
    fix i
    assume "i \<in> set ins"
    with r show "unspent U i" by (cases i) (auto simp: unspent_def)
  qed
qed

text \<open>\<open>sum_inputs\<close>: the total of the named outputs, each counted once, when all of them are
  unspent; otherwise a \<open>UTXOError\<close>.\<close>

lemma sum_inputs_spec:
  assumes "cache_wf kv b c"
  shows "(\<forall>i\<in>set ins. unspent (cache_utxos kv b c) i) \<Longrightarrow>
      sum_inputs kv ins b c = Inr (sum (input_amount (cache_utxos kv b c)) (set ins))"
    and "\<not> (\<forall>i\<in>set ins. unspent (cache_utxos kv b c) i) \<Longrightarrow>
      \<exists>e. sum_inputs kv ins b c = Inl e \<and> is_UTXOError e"
proof -
  let ?U = "cache_utxos kv b c" and ?G = "group_inputs ins"
  note g = group_inputs_spec [of ins ?U]
  have "(\<forall>i\<in>set ins. unspent ?U i) \<longleftrightarrow>
      (\<forall>a n. \<lparr>inp_address = a, inp_seqNo = n\<rparr> \<in> set ins \<longrightarrow> n \<in> fst ` set (?U a))"
    by (rule unspent_all_iff)
  also have "\<dots> \<longleftrightarrow> (\<forall>a n. in_groups a n ?G \<longrightarrow> n \<in> fst ` set (?U a))"
    using g by simp
  also have "\<dots> \<longleftrightarrow> (\<forall>(a, S)\<in>set ?G. S \<subseteq> fst ` set (?U a))"
    unfolding in_groups_def by blast
  finally have iff: "(\<forall>i\<in>set ins. unspent ?U i) \<longleftrightarrow> (\<forall>(a, S)\<in>set ?G. S \<subseteq> fst ` set (?U a))" .
  show "(\<forall>i\<in>set ins. unspent ?U i) \<Longrightarrow> sum_inputs kv ins b c = Inr (sum (input_amount ?U) (set ins))"
    and "\<not> (\<forall>i\<in>set ins. unspent ?U i) \<Longrightarrow> \<exists>e. sum_inputs kv ins b c = Inl e \<and> is_UTXOError e"
    using sum_groups_spec [OF assms, of ?G 0] g iff by (auto simp: sum_inputs_def)
qed

lemma sum_inputs_distinct:
  assumes "cache_wf kv b c" "distinct ins" "\<forall>i\<in>set ins. unspent (cache_utxos kv b c) i"
  shows "sum_inputs kv ins b c = Inr (inputs_total (cache_utxos kv b c) ins)"
  using sum_inputs_spec(1) [OF assms(1,3)] assms(2)
  by (simp add: inputs_total_def sum_list_distinct_conv_sum_set)

lemma sum_inputs_Inr:
  assumes "cache_wf kv b c" "sum_inputs kv ins b c = Inr t"
  shows "\<forall>i\<in>set ins. unspent (cache_utxos kv b c) i"
    and "t = sum (input_amount (cache_utxos kv b c)) (set ins)"
  using sum_inputs_spec [OF assms(1), of ins] assms(2) by auto

lemma sum_inputs_error:
  "cache_wf kv b c \<Longrightarrow> sum_inputs kv ins b c = Inl e \<Longrightarrow> is_UTXOError e"
  using sum_inputs_spec [of kv b c ins] by auto

section \<open>Properties\<close>

lemma okv_empty_wf: "cache_wf okv_store b okv_empty"
  unfolding cache_wf_def holds_pairs_def by (auto simp: okv_defs visible_def intro: exI [of _ "[]"])

lemma okv_get_empty [simp]: "kv_get okv_store okv_empty a b = None"
  by (simp add: okv_defs visible_def)

lemma okv_empty_utxos [simp]: "cache_utxos okv_store b okv_empty a = []"
  by (rule cache_utxos_holds(1)) (simp add: holds_pairs_def okv_defs visible_def)

text \<open>Adding a fresh output and spending it again both succeed, every address then has the
  unspent outputs it had before, and in between exactly the new output is listed in addition.\<close>

theorem cache_add_then_spend:
  assumes "kv_text_store kv b" "cache_wf kv b c" "n \<notin> fst ` set (cache_utxos kv b c a)"
  shows "\<exists>c1 c2. add_output kv (mk_output a n (Some v)) b c = Inr c1 \<and>
    get_unspent_outputs kv a b c1 =
      Inr (map (\<lambda>p. mk_output a (fst p) (Some (snd p))) (cache_utxos kv b c a @ [(n, v)])) \<and>
    spend_output kv (mk_output a n None) b c1 = Inr c2 \<and>
    cache_utxos kv b c2 = cache_utxos kv b c"
proof -
  let ?U = "cache_utxos kv b c"
  note add = kv_text_store.add_output_cache [OF assms(1,2), of a n v]
  let ?c1 = "kv_set kv c a (encode_str (?U a @ [(n, v)])) b"
  have d: "distinct (map fst (?U a @ [(n, v)]))" using cache_wf_holds(2) [OF assms(2)] assms(3) by simp
  note c1 = kv_text_store.set_pairs [OF assms(1,2) d, of a]
  have del: "del_key n (?U a @ [(n, v)]) = ?U a"
    using assms(3) by (rule del_key_snoc)
  note sp = kv_text_store.spend_output_cache [OF assms(1) c1(1), of a n None]
  have d2: "distinct (map fst (?U a))" using cache_wf_holds(2) [OF assms(2)] .
  note c2 = kv_text_store.set_pairs(2) [OF assms(1) c1(1) d2, of a]
  show ?thesis
    using add c1 sp c2 del cache_utxos_holds(2) [OF cache_wf_holds(1) [OF c1(1), of a]]
    by (simp add: image_Un)
qed

theorem cache_add_then_spend_witness:
  "\<exists>c1 c2. add_output okv_store (mk_output ''A'' 5 (Some 10)) False okv_empty = Inr c1 \<and>
    spend_output okv_store (mk_output ''A'' 5 None) False c1 = Inr c2 \<and>
    cache_utxos okv_store False c2 = cache_utxos okv_store False okv_empty"
  using cache_add_then_spend [OF okv.uncommitted.kv_text_store_axioms okv_empty_wf, of 5 "''A''" 10]
  by auto

text \<open>\<open>spend_output\<close> of an output that is not unspent changes nothing and raises
  \<open>UTXOAddressNotFound\<close> when the address has no entry and \<open>UTXONotFound\<close> when it has one.\<close>

theorem cache_spend_missing:
  assumes "kv_text_store kv b" "cache_wf kv b c" "n \<notin> fst ` set (cache_utxos kv b c a)"
  shows "spend_output kv (mk_output a n v) b c =
    Inl (if kv_get kv c a b = None then UTXOAddressNotFound else UTXONotFound)"
  using kv_text_store.spend_output_cache [OF assms(1,2)] assms(3) by simp

theorem cache_spend_missing_witness:
  "spend_output okv_store (mk_output ''A'' 5 None) True okv_empty = Inl UTXOAddressNotFound"
  using cache_spend_missing [OF okv.committed.kv_text_store_axioms okv_empty_wf, of 5 "''A''" None]
  by simp

text \<open>C40: On a cache with well-formed entries \<open>sum_inputs\<close> returns the total of the named outputs when all of them are unspent, each
  counted once however often it is named, and otherwise raises a \<open>UTXOError\<close>.\<close>

theorem sum_inputs_counts_once:
  assumes "cache_wf kv b c"
  shows "if \<forall>i\<in>set ins. unspent (cache_utxos kv b c) i
    then sum_inputs kv ins b c = Inr (\<Sum>i\<in>set ins. input_amount (cache_utxos kv b c) i)
    else \<exists>e. sum_inputs kv ins b c = Inl e \<and> is_UTXOError e"
  using sum_inputs_spec [OF assms] by simp

theorem sum_inputs_counts_once_witness:
  "\<exists>e. sum_inputs okv_store [\<lparr>inp_address = ''A'', inp_seqNo = 1\<rparr>] False okv_empty = Inl e \<and> is_UTXOError e"
  using sum_inputs_counts_once [OF okv_empty_wf, of "[\<lparr>inp_address = ''A'', inp_seqNo = 1\<rparr>]"]
  by (simp add: unspent_def)

end
