(* ===== verification/State_Store.thy ===== *)
theory State_Store
  imports Prelude "HOL-Library.AList"
begin

text \<open>
  The interface of plenum's \<open>PruningState\<close>, the Merkle-Patricia state of a ledger. Its code is
  not part of the repository: its methods are the fields of a record that the definitions take
  as an argument, and what the plugins rely on are the assumptions of the locales below.
  \<^item> \<open>state_map_store\<close>: the uncommitted head is a map under \<open>set\<close> and \<open>remove\<close>.
  \<^item> \<open>state_head_store\<close>: in addition the head hash names the contents of the head, and
    \<open>revertToHead\<close> of an earlier head brings these contents back; \<open>commit\<close> makes a head the
    committed one.
\<close>

record 's state_store =
  st_get :: "'s \<Rightarrow> string \<Rightarrow> bool \<Rightarrow> string option"
  st_set :: "'s \<Rightarrow> string \<Rightarrow> string \<Rightarrow> 's"
  st_remove :: "'s \<Rightarrow> string \<Rightarrow> 's"
  st_headHash :: "'s \<Rightarrow> string"
  st_committedHeadHash :: "'s \<Rightarrow> string"
  st_revertToHead :: "'s \<Rightarrow> string \<Rightarrow> 's"

locale state_map_store =
  fixes st :: "'s state_store"
  assumes st_get_set: "st_get st (st_set st s k v) k' False =
      (if k' = k then Some v else st_get st s k' False)"
    and st_get_remove: "st_get st (st_remove st s k) k' False =
      (if k' = k then None else st_get st s k' False)"

text \<open>\<open>known s r\<close>: the head with hash \<open>r\<close> is in the trie behind \<open>s\<close>, as every earlier head of the
  same state object is.\<close>

locale state_head_store = state_map_store st for st :: "'s state_store" +
  fixes known :: "'s \<Rightarrow> string \<Rightarrow> bool"
  assumes known_head: "known s (st_headHash st s)"
    and known_set: "known s r \<Longrightarrow> known (st_set st s k v) r"
    and known_remove: "known s r \<Longrightarrow> known (st_remove st s k) r"
    and head_contents: "st_headHash st s = st_headHash st t \<Longrightarrow>
      st_get st s k False = st_get st t k False"
    and revert_head: "known s r \<Longrightarrow> st_headHash st (st_revertToHead st s r) = r"
    and known_revert: "known s r \<Longrightarrow> known s r' \<Longrightarrow> known (st_revertToHead st s r) r'"
begin

text \<open>Reverting to an earlier head restores every value that head had.\<close>

lemma revert_get:
  "known t (st_headHash st s) \<Longrightarrow>
   st_get st (st_revertToHead st t (st_headHash st s)) k False = st_get st s k False"
  by (rule head_contents) (simp add: revert_head)

end

section \<open>A state that satisfies the assumptions\<close>

text \<open>\<open>ms_store\<close> is the instance at which the witnesses of the development evaluate: the head is an
  association list, the state remembers the heads it has had, and a head's hash is an injective
  rendering of its bindings as one string.\<close>

record ms =
  ms_head :: "(string \<times> string) list"
  ms_committed :: "(string \<times> string) list"
  ms_heads :: "(string \<times> string) list list"

definition ms_empty :: ms where
  "ms_empty = \<lparr>ms_head = [], ms_committed = [], ms_heads = []\<rparr>"

definition enc_text :: "string \<Rightarrow> string" where
  "enc_text s = concat (map (\<lambda>c. [CHR ''+'', c]) s) @ ''.''"

definition enc_head :: "(string \<times> string) list \<Rightarrow> string" where
  "enc_head kvs = concat (map (\<lambda>(k, v). enc_text k @ enc_text v) kvs)"

definition ms_move :: "ms \<Rightarrow> (string \<times> string) list \<Rightarrow> ms" where
  "ms_move s h = s\<lparr>ms_head := h, ms_heads := ms_head s # ms_heads s\<rparr>"

definition ms_store :: "ms state_store" where
  "ms_store = \<lparr>st_get = (\<lambda>s k is_committed. map_of (if is_committed then ms_committed s else ms_head s) k),
     st_set = (\<lambda>s k v. ms_move s (AList.update k v (ms_head s))),
     st_remove = (\<lambda>s k. ms_move s (AList.delete k (ms_head s))),
     st_headHash = (\<lambda>s. enc_head (ms_head s)),
     st_committedHeadHash = (\<lambda>s. enc_head (ms_committed s)),
     st_revertToHead = (\<lambda>s r. case find (\<lambda>h. enc_head h = r) (ms_head s # ms_heads s) of
        None \<Rightarrow> s | Some h \<Rightarrow> ms_move s h)\<rparr>"

definition ms_known :: "ms \<Rightarrow> string \<Rightarrow> bool" where
  "ms_known s r \<longleftrightarrow> (\<exists>h\<in>set (ms_head s # ms_heads s). enc_head h = r)"

lemma enc_text_append: "enc_text s @ x = enc_text t @ y \<longleftrightarrow> s = t \<and> x = y"
proof (induction s arbitrary: t)
  case Nil
  then show ?case by (cases t) (auto simp: enc_text_def)
next
  case (Cons c s)
  then show ?case by (cases t) (auto simp: enc_text_def)
qed

lemma enc_head_inject: "enc_head h = enc_head h' \<longleftrightarrow> h = h'"
proof (induction h arbitrary: h')
  case Nil
  then show ?case by (cases h') (auto simp: enc_head_def enc_text_def)
next
  case (Cons p h)
  show ?case
  proof (cases h')
    case Nil
    then show ?thesis by (cases p) (simp add: enc_head_def enc_text_def)
  next
    case (Cons q g)
    have "enc_head (p # h) = enc_text (fst p) @ enc_text (snd p) @ enc_head h"
      "enc_head (q # g) = enc_text (fst q) @ enc_text (snd q) @ enc_head g"
      by (simp_all add: enc_head_def case_prod_beta)
    then show ?thesis using Cons Cons.IH [of g] by (auto simp: enc_text_append prod_eq_iff)
  qed
qed

lemma ms_revert_found:
  assumes "ms_known s r"
  shows "\<exists>h. find (\<lambda>h. enc_head h = r) (ms_head s # ms_heads s) = Some h \<and> enc_head h = r"
proof (cases "find (\<lambda>h. enc_head h = r) (ms_head s # ms_heads s)")
  case None
  then show ?thesis using assms unfolding find_None_iff ms_known_def by blast
next
  case (Some h)
  then show ?thesis unfolding find_Some_iff by blast
qed

interpretation ms: state_head_store ms_store ms_known
proof (unfold_locales, goal_cases)
  case (1 s k v k')
  then show ?case by (simp add: ms_store_def ms_move_def update_conv')
next
  case (2 s k k')
  then show ?case by (simp add: ms_store_def ms_move_def delete_conv')
next
  case (7 s r)
  then obtain h where "find (\<lambda>h. enc_head h = r) (ms_head s # ms_heads s) = Some h" "enc_head h = r"
    using ms_revert_found by blast
  then show ?case by (simp add: ms_store_def ms_move_def)
next
  case (8 s r r')
  then obtain h where "find (\<lambda>h. enc_head h = r) (ms_head s # ms_heads s) = Some h"
    using ms_revert_found by blast
  then show ?case using 8(2) by (auto simp: ms_store_def ms_move_def ms_known_def)
qed (auto simp: ms_store_def ms_move_def ms_known_def enc_head_inject)

end
