(* ===== verification/Token_Utils.thy ===== *)
theory Token_Utils
  imports UTXO_Cache State_Store
begin

text \<open>
  \<open>TokenStaticHelper\<close> (\<open>sovtoken/request_handlers/token_utils.py\<close>): the operations the write
  handlers of both plugins use on the token ledger's state and on the UTXO cache, and the checks
  on the sums of inputs and outputs.

  The state holds one key \<open>address:seqNo\<close> per unspent output with its amount; the cache holds one
  entry per address. \<open>token_wf\<close> says that the two agree. \<open>spend_input\<close> and \<open>add_new_output\<close>
  together meet the contract \<open>utxo_store\<close>: they keep the agreement on success and on every error.
\<close>

section \<open>Requests\<close>

text \<open>The operation of a client request: a key that is missing from the dictionary is \<open>None\<close>.\<close>

record operation =
  op_type :: string
  op_inputs :: "input list option"
  op_outputs :: "payout list option"
  op_signatures :: "string list option"

text \<open>The attribute \<open>fees\<close> of a request: absent, \<open>None\<close>, or a list of one to three items.\<close>

datatype fees_attr =
    FeesAbsent | FeesNone
  | Fees1 "input list" | Fees2 "input list" "payout list"
  | Fees3 "input list" "payout list" "string list"

record request =
  req_identifier :: string
  req_reqId :: int
  req_operation :: operation
  req_fees :: fees_attr

definition dict_get :: "'a option \<Rightarrow> exn + 'a" where
  "dict_get v = (case v of None \<Rightarrow> Inl KeyError | Some x \<Rightarrow> Inr x)"

section \<open>State and cache\<close>

record ('s, 'c) token_db =
  tk_state :: 's
  tk_cache :: 'c

definition create_state_key :: "string \<Rightarrow> int \<Rightarrow> string" where
  "create_state_key addr seq_no = join_with '':'' [addr, py_str seq_no]"

definition parse_state_key :: "string \<Rightarrow> string list" where
  "parse_state_key key = split_on (CHR '':'') key"

text \<open>\<open>str(amount)\<close> for an amount that may be \<open>None\<close>.\<close>

definition str_amount :: "int option \<Rightarrow> string" where
  "str_amount v = (case v of None \<Rightarrow> ''None'' | Some n \<Rightarrow> py_str n)"

text \<open>An operation on the cache inside the database.\<close>

definition on_cache :: "('c \<Rightarrow> exn + 'c) \<Rightarrow> (('s, 'c, 'z) token_db_scheme, unit) proc" where
  "on_cache f db = (case f (tk_cache db) of
     Inl e \<Rightarrow> (Inl e, db) | Inr c \<Rightarrow> (Inr (), db\<lparr>tk_cache := c\<rparr>))"

definition spend_input :: "'s state_store \<Rightarrow> 'c kv_store \<Rightarrow> string \<Rightarrow> int \<Rightarrow> bool \<Rightarrow> bool
    \<Rightarrow> (('s, 'c, 'z) token_db_scheme, unit) proc" where
  "spend_input st kv addr seq_no is_committed remove_spent db =
     (let state_key = create_state_key addr seq_no;
          state' = (if remove_spent then st_remove st (tk_state db) state_key
                    else st_set st (tk_state db) state_key [])
      in on_cache (spend_output kv (mk_output addr seq_no None) is_committed)
           (db\<lparr>tk_state := state'\<rparr>))"

definition add_new_output :: "'s state_store \<Rightarrow> 'c kv_store \<Rightarrow> Output \<Rightarrow> bool
    \<Rightarrow> (('s, 'c, 'z) token_db_scheme, unit) proc" where
  "add_new_output st kv output is_committed db =
     (let state_key = create_state_key (address output) (seqNo output);
          state' = st_set st (tk_state db) state_key (str_amount (amount output))
      in on_cache (add_output kv output is_committed) (db\<lparr>tk_state := state'\<rparr>))"

definition helper_sum_inputs :: "'c kv_store \<Rightarrow> request \<Rightarrow> bool \<Rightarrow> 'c \<Rightarrow> exn + int" where
  "helper_sum_inputs kv req is_committed cache =
     (case ebind (dict_get (op_inputs (req_operation req)))
             (\<lambda>inputs. sum_inputs kv inputs is_committed cache) of
        Inl e \<Rightarrow> Inl (if is_UTXOError e then InvalidFundsError else e)
      | Inr t \<Rightarrow> Inr t)"

definition sum_outputs :: "request \<Rightarrow> exn + int" where
  "sum_outputs req =
     ebind (dict_get (op_outputs (req_operation req))) (\<lambda>outs. Inr (sum_list (map pay_amount outs)))"

text \<open>The sum of the outputs only appears in the messages.\<close>

definition validate_given_inputs_outputs :: "int \<Rightarrow> int \<Rightarrow> int \<Rightarrow> exn + unit" where
  "validate_given_inputs_outputs inputs_sum outputs_sum required_amount =
     (if inputs_sum = required_amount then Inr ()
      else if inputs_sum > required_amount then Inl ExtraFundsError
      else if inputs_sum < required_amount then Inl InsufficientFundsError
      else Inl InvalidClientMessageException)"

text \<open>\<open>base58.b58decode\<close> is an argument; \<open>None\<close> is its \<open>ValueError\<close>.\<close>

definition commit_to_utxo_cache :: "(string \<Rightarrow> string option) \<Rightarrow> 'c kv_store \<Rightarrow> state_root
    \<Rightarrow> 'c \<Rightarrow> exn + 'c" where
  "commit_to_utxo_cache b58decode kv root cache =
     ebind (case root of
              RootStr s \<Rightarrow> (case b58decode s of None \<Rightarrow> Inl ValueError | Some b \<Rightarrow> Inr (RootBytes b))
            | RootBytes b \<Rightarrow> Inr (RootBytes b)) (\<lambda>root'.
     ebind (kv_first_batch_idr kv cache) (\<lambda>idr.
     if idr \<noteq> Some root' then Inl TokenValueError else kv_commit_batch kv cache))"

section \<open>Keys\<close>

lemma create_state_key_eq: "create_state_key a n = a @ CHR '':'' # py_str n"
  by (simp add: create_state_key_def)

lemma last_sep:
  assumes "d \<notin> set x" "d \<notin> set y" "a @ d # x = b @ d # y"
  shows "a = b \<and> x = y"
proof -
  have tw: "d \<notin> set z \<Longrightarrow> takeWhile (\<lambda>c. c \<noteq> d) (rev (e @ d # z)) = rev z"
    for e z by (simp, subst takeWhile_append2) auto
  have "rev x = rev y"
    using tw [OF assms(1), of a] tw [OF assms(2), of b] assms(3) by simp
  then have "x = y" by simp
  then show ?thesis using assms(3) by simp
qed

text \<open>Keys of different outputs differ, whatever characters the address has.\<close>

lemma create_state_key_inject [simp, key_simps]:
  "create_state_key a n = create_state_key b m \<longleftrightarrow> a = b \<and> n = m"
  using last_sep [OF py_str_no_colon py_str_no_colon]
  by (auto simp: create_state_key_eq)

lemma parse_create_state_key [key_simps]:
  "CHR '':'' \<notin> set a \<Longrightarrow> parse_state_key (create_state_key a n) = [a, py_str n]"
  by (simp add: parse_state_key_def create_state_key_eq split_on_append split_on_none)

section \<open>Agreement of state and cache\<close>

text \<open>A spent output has no key, or the empty value that version 1.0.0 left behind.\<close>

definition live :: "string option \<Rightarrow> string option" where
  "live v = (if v = Some [] then None else v)"

lemma live_simps [simp]: "live None = None" "live (Some []) = None"
  "s \<noteq> [] \<Longrightarrow> live (Some s) = Some s"
  by (simp_all add: live_def)

definition state_agrees :: "'s state_store \<Rightarrow> 's \<Rightarrow> utxos \<Rightarrow> bool" where
  "state_agrees st s U \<longleftrightarrow>
     (\<forall>a n. live (st_get st s (create_state_key a n) False) = map_option py_str (map_of (U a) n))"

definition token_utxos :: "'c kv_store \<Rightarrow> bool \<Rightarrow> ('s, 'c, 'z) token_db_scheme \<Rightarrow> utxos" where
  "token_utxos kv is_committed db = cache_utxos kv is_committed (tk_cache db)"

definition token_wf :: "'s state_store \<Rightarrow> 'c kv_store \<Rightarrow> bool \<Rightarrow> ('s, 'c, 'z) token_db_scheme \<Rightarrow> bool" where
  "token_wf st kv is_committed db \<longleftrightarrow>
     cache_wf kv is_committed (tk_cache db) \<and>
     state_agrees st (tk_state db) (token_utxos kv is_committed db)"

locale token_stores = state_map_store st + kv_text_store kv ic
  for st :: "'s state_store" and kv :: "'c kv_store" and ic :: bool +
  fixes remove_spent :: bool
begin

lemma agrees_spend:
  assumes "state_agrees st s U" "utxos_wf U"
    and "s' = (if remove_spent then st_remove st s (create_state_key (inp_address i) (inp_seqNo i))
      else st_set st s (create_state_key (inp_address i) (inp_seqNo i)) [])"
  shows "state_agrees st s' (spend_one i U)"
  using assms
  by (auto simp: state_agrees_def spend_one_def utxos_wf_def map_of_del_key st_get_set st_get_remove)

lemma agrees_absent:
  assumes "state_agrees st s U" "\<not> unspent U i"
    and "s' = (if remove_spent then st_remove st s (create_state_key (inp_address i) (inp_seqNo i))
      else st_set st s (create_state_key (inp_address i) (inp_seqNo i)) [])"
  shows "state_agrees st s' U"
  using assms
  by (auto simp: state_agrees_def unspent_def st_get_set st_get_remove map_of_eq_None_iff)

lemma agrees_add:
  assumes "state_agrees st s U" "n \<notin> fst ` set (U (pay_address p))"
  shows "state_agrees st (st_set st s (create_state_key (pay_address p) n) (py_str (pay_amount p)))
    (add_one n p U)"
proof -
  have "map_of (U (pay_address p)) n = None" using assms(2) by (simp add: map_of_eq_None_iff)
  then show ?thesis
    using assms(1) by (auto simp: state_agrees_def add_one_def st_get_set map_add_def
        split: option.splits)
qed

end

sublocale token_stores \<subseteq> token: utxo_store
  "token_wf st kv ic" "token_utxos kv ic"
  "\<lambda>i. spend_input st kv (inp_address i) (inp_seqNo i) ic remove_spent"
  "\<lambda>o'. add_new_output st kv o' ic"
proof (unfold_locales, goal_cases)
  case (1 db)
  then show ?case by (simp add: token_wf_def token_utxos_def cache_wf_utxos)
next
  case (2 db i)
  then obtain c where c: "spend_output kv (mk_output (inp_address i) (inp_seqNo i) None) ic (tk_cache db) = Inr c"
    "cache_wf kv ic c" "cache_utxos kv ic c = spend_one i (token_utxos kv ic db)"
    using cache.spend_ok [of "tk_cache db" i]
    by (auto simp: token_wf_def token_utxos_def pupdate_def split: sum.splits)
  from 2 show ?case
    using c agrees_spend [OF _ cache_wf_utxos refl, of "tk_state db" kv ic "tk_cache db" i]
    by (simp add: spend_input_def on_cache_def Let_def token_wf_def token_utxos_def)
next
  case (3 db i)
  then obtain e where e: "spend_output kv (mk_output (inp_address i) (inp_seqNo i) None) ic (tk_cache db) = Inl e"
    "is_UTXOError e"
    using cache.spend_missing [of "tk_cache db" i]
    by (auto simp: token_wf_def token_utxos_def pupdate_def split: sum.splits)
  from 3 show ?case
    using e agrees_absent [OF _ _ refl, of "tk_state db" "token_utxos kv ic db" i]
    by (simp add: spend_input_def on_cache_def Let_def token_wf_def token_utxos_def)
next
  case (4 db n p)
  then obtain c where c: "add_output kv (mk_output (pay_address p) n (Some (pay_amount p))) ic (tk_cache db) = Inr c"
    "cache_wf kv ic c" "cache_utxos kv ic c = add_one n p (token_utxos kv ic db)"
    using cache.add_ok [of "tk_cache db" n p]
    by (auto simp: token_wf_def token_utxos_def pupdate_def split: sum.splits)
  from 4 show ?case
    using c agrees_add [of "tk_state db" "token_utxos kv ic db" n p]
    by (simp add: add_new_output_def on_cache_def Let_def token_wf_def token_utxos_def str_amount_def)
qed

context token_stores
begin

lemmas token_laws = token.spend_ok token.spend_missing token.add_ok

end

text \<open>The instance over the concrete stores, for the uncommitted view.\<close>

interpretation ref: token_stores ms_store okv_store False True
  by unfold_locales

section \<open>Checks on sums\<close>

lemma validate_given_cases:
  "validate_given_inputs_outputs i out r =
    (if i = r then Inr () else if r < i then Inl ExtraFundsError else Inl InsufficientFundsError)"
  by (simp add: validate_given_inputs_outputs_def)

lemma helper_sum_inputs_Inr:
  assumes "cache_wf kv b c" "helper_sum_inputs kv req b c = Inr t"
  shows "\<exists>ins. op_inputs (req_operation req) = Some ins \<and>
    (\<forall>i\<in>set ins. unspent (cache_utxos kv b c) i) \<and>
    t = sum (input_amount (cache_utxos kv b c)) (set ins)"
  using assms sum_inputs_Inr [OF assms(1)]
  by (auto simp: helper_sum_inputs_def dict_get_def ebind_Inr_iff
      split: sum.splits option.splits if_splits)

section \<open>Properties\<close>

text \<open>The state key of an output determines it, whatever characters the address has, and for an
  address without a colon the key is parsed back into the address and the printed sequence
  number.\<close>

theorem state_key_faithful:
  "(create_state_key a n = create_state_key b m \<longleftrightarrow> a = b \<and> n = m) \<and>
   (CHR '':'' \<notin> set a \<longrightarrow> parse_state_key (create_state_key a n) = [a, py_str n] \<and>
     py_int (parse_state_key (create_state_key a n) ! 1) = Some n)"
  by (simp add: parse_create_state_key)

theorem state_key_faithful_witness:
  "parse_state_key (create_state_key ''abc'' 42) = [''abc'', ''42'']"
  using state_key_faithful [of "''abc''" 42 "''abc''" 42] by (simp add: py_str_def) code_simp

text \<open>C24: \<open>spend_input\<close> (with either treatment of the spent key) and \<open>add_new_output\<close> keep the state
  and the cache in agreement on every path: spending an unspent output removes exactly it,
  spending anything else raises a \<open>UTXOError\<close> and removes nothing, and adding a fresh output adds
  exactly it.\<close>

theorem token_ops_keep_agreement:
  assumes "state_map_store st" "kv_text_store kv b" "token_wf st kv b db"
  shows "(unspent (token_utxos kv b db) i \<longrightarrow>
      (\<exists>db'. spend_input st kv (inp_address i) (inp_seqNo i) b rs db = (Inr (), db') \<and>
        token_wf st kv b db' \<and> token_utxos kv b db' = spend_one i (token_utxos kv b db))) \<and>
    (\<not> unspent (token_utxos kv b db) i \<longrightarrow>
      (\<exists>e db'. spend_input st kv (inp_address i) (inp_seqNo i) b rs db = (Inl e, db') \<and>
        is_UTXOError e \<and> token_wf st kv b db' \<and> token_utxos kv b db' = token_utxos kv b db)) \<and>
    (n \<notin> fst ` set (token_utxos kv b db (pay_address p)) \<longrightarrow>
      (\<exists>db'. add_new_output st kv (mk_output (pay_address p) n (Some (pay_amount p))) b db = (Inr (), db') \<and>
        token_wf st kv b db' \<and> token_utxos kv b db' = add_one n p (token_utxos kv b db)))"
proof -
  have ts: "token_stores st kv b" using assms(1,2) by (simp add: token_stores_def)
  show ?thesis
    using token_stores.token_laws [OF ts assms(3)] by blast
qed

theorem token_ops_keep_agreement_witness:
  "\<exists>e db'. spend_input ms_store okv_store ''A'' 1 False True \<lparr>tk_state = ms_empty, tk_cache = okv_empty\<rparr> =
      (Inl e, db') \<and> is_UTXOError e"
proof -
  have "token_wf ms_store okv_store False \<lparr>tk_state = ms_empty, tk_cache = okv_empty\<rparr>"
    by (simp add: token_wf_def okv_empty_wf state_agrees_def token_utxos_def ms_store_def ms_empty_def)
  from token_ops_keep_agreement [OF ms.state_map_store_axioms okv.uncommitted.kv_text_store_axioms this,
      of "\<lparr>inp_address = ''A'', inp_seqNo = 1\<rparr>" True 0 "\<lparr>pay_address = [], pay_amount = 0\<rparr>"]
  show ?thesis by (auto simp: token_utxos_def unspent_def)
qed

text \<open>The check on the sums accepts exactly equality, reports an excess as \<open>ExtraFundsError\<close> and
  a lack as \<open>InsufficientFundsError\<close>; the final \<open>raise\<close> of the function is never reached.\<close>

theorem validate_given_trichotomy:
  "(validate_given_inputs_outputs i out r = Inr () \<longleftrightarrow> i = r) \<and>
   (validate_given_inputs_outputs i out r = Inl ExtraFundsError \<longleftrightarrow> r < i) \<and>
   (validate_given_inputs_outputs i out r = Inl InsufficientFundsError \<longleftrightarrow> i < r) \<and>
   validate_given_inputs_outputs i out r \<noteq> Inl InvalidClientMessageException"
  by (auto simp: validate_given_inputs_outputs_def)

end
