(* ===== verification/Token_Handlers.thy ===== *)
theory Token_Handlers
  imports Token_Utils
begin

text \<open>
  The write handlers of the token plugin: \<open>MintHandler\<close>, \<open>XferHandler\<close> and \<open>XferHandler100\<close>
  (\<open>sovtoken/request_handlers/write_request_handler\<close>), with the transaction types of
  \<open>sovtoken/transactions.py\<close> and the authorisation rules of \<open>sovtoken/sovtoken_auth_map.py\<close>.

  The write request validator of indy-node, the base class's \<open>_req_to_txn\<close> and plenum's
  \<open>add_sigs_to_txn\<close> are arguments. The properties: a validated transfer is applied without error,
  moves exactly the tokens it names and creates none; a failing one leaves state and cache in
  agreement; an output is spent at most once; minting adds exactly the minted amounts.
\<close>

section \<open>Transaction types and authorisation rules\<close>

definition TOKEN_PREFIX :: string where "TOKEN_PREFIX = ''1000''"
definition MINT_PUBLIC :: string where "MINT_PUBLIC = TOKEN_PREFIX @ ''0''"
definition XFER_PUBLIC :: string where "XFER_PUBLIC = TOKEN_PREFIX @ ''1''"
definition GET_UTXO :: string where "GET_UTXO = TOKEN_PREFIX @ ''2''"

definition TOKEN_LEDGER_ID :: int where "TOKEN_LEDGER_ID = 1001"
definition UTXO_LIMIT :: nat where "UTXO_LIMIT = 1000"

definition ACCEPTABLE_TXN_TYPES :: "string list" where
  "ACCEPTABLE_TXN_TYPES = [MINT_PUBLIC, XFER_PUBLIC, GET_UTXO]"
definition ACCEPTABLE_WRITE_TYPES :: "string set" where
  "ACCEPTABLE_WRITE_TYPES = {MINT_PUBLIC, XFER_PUBLIC}"
definition ACCEPTABLE_QUERY_TYPES :: "string set" where
  "ACCEPTABLE_QUERY_TYPES = {GET_UTXO}"

lemmas txn_type_defs = TOKEN_PREFIX_def MINT_PUBLIC_def XFER_PUBLIC_def GET_UTXO_def

text \<open>The actions of indy-node's authorisation: adding, or editing an old to a new value.\<close>

datatype auth_action =
    AuthActionAdd (action_type: string) string string
  | AuthActionEdit (action_type: string) string string string

text \<open>A role constraint: a role and a number of signatures.\<close>

record role_constraint =
  rc_role :: string
  rc_sig_count :: nat

definition add_mint :: auth_action where "add_mint = AuthActionAdd MINT_PUBLIC ''*'' ''*''"
definition add_xfer :: auth_action where "add_xfer = AuthActionAdd XFER_PUBLIC ''*'' ''*''"

text \<open>\<open>TRUSTEE\<close> is plenum's constant for the role.\<close>

definition sovtoken_auth_map :: "string \<Rightarrow> (auth_action \<times> role_constraint) list" where
  "sovtoken_auth_map TRUSTEE =
     [(add_mint, \<lparr>rc_role = TRUSTEE, rc_sig_count = 3\<rparr>),
      (add_xfer, \<lparr>rc_role = ''*'', rc_sig_count = 0\<rparr>)]"

section \<open>Transactions\<close>

text \<open>The parts of a ledger transaction the handlers read and write.\<close>

record txn =
  tx_type :: string
  tx_inputs :: "input list option"
  tx_outputs :: "payout list option"
  tx_seqNo :: int
  tx_sig_type :: "string option"
  tx_sig_values :: "(string \<times> string) list option"

text \<open>\<open>sovtoken/txn_util.py\<close>: a missing or false type or list is filled in, then the pairs are
  appended.\<close>

definition add_sigs_to_txn :: "txn \<Rightarrow> (string \<times> string) list \<Rightarrow> string \<Rightarrow> txn" where
  "add_sigs_to_txn t sigs sig_type =
     (let t1 = (if tx_sig_type t = None \<or> tx_sig_type t = Some [] then t\<lparr>tx_sig_type := Some sig_type\<rparr> else t);
          vs = (case tx_sig_values t1 of None \<Rightarrow> [] | Some l \<Rightarrow> l)
      in t1\<lparr>tx_sig_values := Some (vs @ sigs)\<rparr>)"

section \<open>MintHandler\<close>

definition mint_dynamic_validation :: "(request \<Rightarrow> auth_action \<Rightarrow> exn + unit) \<Rightarrow> request \<Rightarrow> exn + unit" where
  "mint_dynamic_validation validate req = validate req (AuthActionAdd MINT_PUBLIC ''*'' ''*'')"

definition add_outputs :: "'s state_store \<Rightarrow> 'c kv_store \<Rightarrow> txn \<Rightarrow> bool
    \<Rightarrow> (('s, 'c, 'z) token_db_scheme, unit) proc" where
  "add_outputs st kv t is_committed =
     pbind (plift (dict_get (tx_outputs t))) (\<lambda>outs.
       for_each (\<lambda>out. add_new_output st kv
         (mk_output (pay_address out) (tx_seqNo t) (Some (pay_amount out))) is_committed) outs)"

definition mint_update_state :: "'s state_store \<Rightarrow> 'c kv_store \<Rightarrow> txn \<Rightarrow> bool
    \<Rightarrow> (('s, 'c, 'z) token_db_scheme, unit) proc" where
  "mint_update_state st kv t is_committed =
     pcatch is_UTXOError (\<lambda>_. OperationError) (add_outputs st kv t is_committed)"

section \<open>XferHandler and XferHandler100\<close>

definition do_validate_inputs_ouputs :: "'c kv_store \<Rightarrow> request \<Rightarrow> 'c \<Rightarrow> exn + unit" where
  "do_validate_inputs_ouputs kv req cache =
     (case ebind (helper_sum_inputs kv req False cache) (\<lambda>sum_in.
            ebind (sum_outputs req) (\<lambda>sum_out. Inr (sum_in, sum_out))) of
        Inl ex \<Rightarrow> Inl (if is_InvalidClientMessage ex then ex else InvalidClientMessageException)
      | Inr (sum_in, sum_out) \<Rightarrow> validate_given_inputs_outputs sum_in sum_out sum_out)"

definition xfer_dynamic_validation :: "'c kv_store \<Rightarrow> (request \<Rightarrow> auth_action \<Rightarrow> exn + unit)
    \<Rightarrow> request \<Rightarrow> 'c \<Rightarrow> exn + unit" where
  "xfer_dynamic_validation kv validate req cache =
     ebind (do_validate_inputs_ouputs kv req cache)
       (\<lambda>_. validate req (AuthActionAdd XFER_PUBLIC ''*'' ''*''))"

definition spend_inputs :: "'s state_store \<Rightarrow> 'c kv_store \<Rightarrow> bool \<Rightarrow> txn \<Rightarrow> bool
    \<Rightarrow> (('s, 'c, 'z) token_db_scheme, unit) proc" where
  "spend_inputs st kv remove_spent t is_committed =
     pbind (plift (dict_get (tx_inputs t))) (\<lambda>ins.
       for_each (\<lambda>inp. spend_input st kv (inp_address inp) (inp_seqNo inp) is_committed remove_spent) ins)"

definition xfer_update_state :: "'s state_store \<Rightarrow> 'c kv_store \<Rightarrow> txn \<Rightarrow> bool
    \<Rightarrow> (('s, 'c, 'z) token_db_scheme, unit) proc" where
  "xfer_update_state st kv t is_committed =
     pcatch is_UTXOError (\<lambda>_. OperationError)
       (pseq (spend_inputs st kv True t is_committed) (add_outputs st kv t is_committed))"

definition xfer100_update_state :: "'s state_store \<Rightarrow> 'c kv_store \<Rightarrow> txn \<Rightarrow> bool
    \<Rightarrow> (('s, 'c, 'z) token_db_scheme, unit) proc" where
  "xfer100_update_state st kv t is_committed =
     pcatch is_UTXOError (\<lambda>_. OperationError)
       (pseq (spend_inputs st kv False t is_committed) (add_outputs st kv t is_committed))"

text \<open>\<open>_req_to_txn\<close> as a computation on the request: the signatures are taken out of the
  operation while the base class builds the transaction, and put back.\<close>

definition xfer_req_to_txn :: "(request \<Rightarrow> exn + txn) \<Rightarrow> (txn \<Rightarrow> (string \<times> string) list \<Rightarrow> string \<Rightarrow> txn)
    \<Rightarrow> (request, txn) proc" where
  "xfer_req_to_txn base_req_to_txn plenum_add_sigs req =
     (case op_signatures (req_operation req) of
        None \<Rightarrow> (Inl KeyError, req)
      | Some sigs \<Rightarrow>
          (let req1 = req\<lparr>req_operation := (req_operation req)\<lparr>op_signatures := None\<rparr>\<rparr> in
           case base_req_to_txn req1 of
             Inl e \<Rightarrow> (Inl e, req1)
           | Inr t \<Rightarrow>
               (let req2 = req1\<lparr>req_operation := (req_operation req1)\<lparr>op_signatures := Some sigs\<rparr>\<rparr> in
                case op_inputs (req_operation req2) of
                  None \<Rightarrow> (Inl KeyError, req2)
                | Some ins \<Rightarrow>
                    (Inr (plenum_add_sigs t (map (\<lambda>(i, s). (inp_address i, s)) (zip ins sigs)) ''ED25519''),
                     req2))))"

section \<open>Shared lemmas\<close>

definition payment_txn :: "input list \<Rightarrow> payout list \<Rightarrow> int \<Rightarrow> txn \<Rightarrow> bool" where
  "payment_txn ins outs n t \<longleftrightarrow> tx_inputs t = Some ins \<and> tx_outputs t = Some outs \<and> tx_seqNo t = n"

text \<open>The effect of a payment on the unspent outputs and on what the addresses of a finite set
  hold.\<close>

definition paid :: "input list \<Rightarrow> payout list \<Rightarrow> int \<Rightarrow> utxos \<Rightarrow> utxos" where
  "paid ins outs n U = add_all n outs (spend_all ins U)"

lemma supply_paid:
  assumes "finite A" "inp_address ` set ins \<union> pay_address ` set outs \<subseteq> A"
    and "utxos_wf U" "distinct ins" "\<forall>i\<in>set ins. unspent U i"
  shows "token_supply A (paid ins outs n U) = token_supply A U - inputs_total U ins + payouts_total outs"
  using assms by (simp add: paid_def supply_add_all supply_spend_all)

lemma paid_spent:
  assumes "utxos_wf U" "fresh n outs U" "unspent U i" "i \<in> set ins"
  shows "\<not> unspent (paid ins outs n U) i"
proof -
  have "\<not> (inp_seqNo i = n \<and> inp_address i \<in> pay_address ` set outs)"
    using assms(2,3) by (fastforce simp: fresh_def unspent_def)
  then show ?thesis using assms(1,4) by (simp add: paid_def unspent_add_all spend_all_gone)
qed

context token_stores
begin

text \<open>A payment by any of the handlers: the loops of \<open>spend_inputs\<close> and \<open>add_outputs\<close>.\<close>

lemma payment_ok:
  assumes "token_wf st kv ic db" "payment_txn ins outs n t"
    and "distinct ins" "\<forall>i\<in>set ins. unspent (token_utxos kv ic db) i"
    and "fresh n outs (token_utxos kv ic db)"
  shows "\<exists>db'. pseq (spend_inputs st kv remove_spent t ic) (add_outputs st kv t ic) db = (Inr (), db') \<and>
    token_wf st kv ic db' \<and> token_utxos kv ic db' = paid ins outs n (token_utxos kv ic db)"
  using token.pay_ok [OF assms(1,3) _ assms(5)] assms(2,4)
  by (simp add: payment_txn_def spend_inputs_def add_outputs_def dict_get_def paid_def)

lemma payment_fails:
  assumes "token_wf st kv ic db" "payment_txn ins outs n t"
    and "\<not> (distinct ins \<and> (\<forall>i\<in>set ins. unspent (token_utxos kv ic db) i))"
  shows "\<exists>e db'. pseq (spend_inputs st kv remove_spent t ic) (add_outputs st kv t ic) db = (Inl e, db') \<and>
    is_UTXOError e \<and> token_wf st kv ic db'"
  using token.pay_fails [OF assms(1,3)] assms(2)
  by (simp add: payment_txn_def spend_inputs_def add_outputs_def dict_get_def)

lemma adding_ok:
  assumes "token_wf st kv ic db" "tx_outputs t = Some outs" "tx_seqNo t = n"
    and "fresh n outs (token_utxos kv ic db)"
  shows "\<exists>db'. add_outputs st kv t ic db = (Inr (), db') \<and> token_wf st kv ic db' \<and>
    token_utxos kv ic db' = add_all n outs (token_utxos kv ic db)"
  using token.add_loop_ok [OF assms(1,4)] assms(2,3) by (simp add: add_outputs_def dict_get_def)

end

text \<open>The decision of the transfer's own validation.\<close>

lemma do_validate_spec:
  assumes "cache_wf kv False c" "op_inputs (req_operation req) = Some ins"
    "op_outputs (req_operation req) = Some outs"
  shows "do_validate_inputs_ouputs kv req c =
    (if \<forall>i\<in>set ins. unspent (cache_utxos kv False c) i then
       validate_given_inputs_outputs (sum (input_amount (cache_utxos kv False c)) (set ins))
         (payouts_total outs) (payouts_total outs)
     else Inl InvalidFundsError)"
proof (cases "\<forall>i\<in>set ins. unspent (cache_utxos kv False c) i")
  case True
  then show ?thesis
    using assms sum_inputs_spec(1) [OF assms(1) True]
    by (simp add: do_validate_inputs_ouputs_def helper_sum_inputs_def sum_outputs_def dict_get_def
        payouts_total_def)
next
  case False
  then obtain e where "sum_inputs kv ins False c = Inl e" "is_UTXOError e"
    using sum_inputs_spec(2) [OF assms(1)] by blast
  then show ?thesis
    using assms(2) False by (auto simp: do_validate_inputs_ouputs_def helper_sum_inputs_def dict_get_def)
qed

lemma xfer_validated:
  assumes "cache_wf kv False c" "op_inputs (req_operation req) = Some ins"
    "op_outputs (req_operation req) = Some outs" "distinct ins"
    "xfer_dynamic_validation kv validate req c = Inr ()"
  shows "\<forall>i\<in>set ins. unspent (cache_utxos kv False c) i"
    and "inputs_total (cache_utxos kv False c) ins = payouts_total outs"
  using assms do_validate_spec [OF assms(1-3)]
  by (auto simp: xfer_dynamic_validation_def ebind_Inr_iff validate_given_cases inputs_total_def
      sum_list_distinct_conv_sum_set split: if_splits)

section \<open>An example database\<close>

text \<open>An address that holds ten tokens from transaction 1, in the concrete stores.\<close>

definition one_output_db :: "string \<Rightarrow> (ms, okv) token_db" where
  "one_output_db addr = \<lparr>tk_state = ms_empty\<lparr>ms_head := [(create_state_key addr 1, py_str 10)]\<rparr>,
     tk_cache = okv_empty\<lparr>okv_cur := [addr \<mapsto> encode_str [(1, 10)]]\<rparr>\<rparr>"

definition one_output :: "string \<Rightarrow> utxos" where
  "one_output addr = (\<lambda>_. [])(addr := [(1, 10)])"

lemma one_output_holds: "holds_pairs okv_store False (tk_cache (one_output_db addr)) a (one_output addr a)"
  by (simp add: holds_pairs_def one_output_db_def one_output_def okv_defs visible_def)

lemma one_output_utxos [simp]: "token_utxos okv_store False (one_output_db addr) = one_output addr"
  using cache_utxos_holds(1) [OF one_output_holds] by (simp add: token_utxos_def fun_eq_iff)

lemma one_output_wf [simp]: "token_wf ms_store okv_store False (one_output_db addr)"
proof -
  have "distinct (map fst (one_output addr a))" for a by (simp add: one_output_def)
  then have "cache_wf okv_store False (tk_cache (one_output_db addr))"
    unfolding cache_wf_def using one_output_holds by blast
  moreover have "state_agrees ms_store (tk_state (one_output_db addr)) (one_output addr)"
    by (simp add: state_agrees_def one_output_db_def ms_store_def ms_empty_def one_output_def)
  ultimately show ?thesis by (simp add: token_wf_def)
qed

text \<open>Address \<open>A\<close>.\<close>

definition ex_db :: "(ms, okv) token_db" where
  "ex_db = one_output_db ''A''"

definition ex_utxos :: utxos where
  "ex_utxos = (\<lambda>_. [])(''A'' := [(1, 10)])"

lemma ex_db_utxos [simp]: "token_utxos okv_store False ex_db = ex_utxos"
  by (simp add: ex_db_def ex_utxos_def one_output_def)

lemma ex_db_wf [simp]: "token_wf ms_store okv_store False ex_db"
  by (simp add: ex_db_def)

abbreviation ex_input :: input where
  "ex_input \<equiv> \<lparr>inp_address = ''A'', inp_seqNo = 1\<rparr>"

abbreviation ex_payout :: payout where
  "ex_payout \<equiv> \<lparr>pay_address = ''B'', pay_amount = 10\<rparr>"

definition ex_txn :: txn where
  "ex_txn = \<lparr>tx_type = XFER_PUBLIC, tx_inputs = Some [ex_input], tx_outputs = Some [ex_payout],
     tx_seqNo = 2, tx_sig_type = None, tx_sig_values = None\<rparr>"

definition ex_request :: request where
  "ex_request = \<lparr>req_identifier = ''A'', req_reqId = 7,
     req_operation = \<lparr>op_type = XFER_PUBLIC, op_inputs = Some [ex_input],
       op_outputs = Some [ex_payout], op_signatures = Some [''sig'']\<rparr>,
     req_fees = FeesAbsent\<rparr>"

lemma ex_facts [simp]:
  "payment_txn [ex_input] [ex_payout] 2 ex_txn"
  "unspent ex_utxos ex_input" "fresh 2 [ex_payout] ex_utxos"
  "input_amount ex_utxos ex_input = 10"
  "op_inputs (req_operation ex_request) = Some [ex_input]"
  "op_outputs (req_operation ex_request) = Some [ex_payout]"
  by (simp_all add: payment_txn_def ex_txn_def unspent_def ex_utxos_def fresh_def ex_request_def
      input_amount_def amount_at_def)

section \<open>Properties\<close>

lemmas ref_stores = ms.state_map_store_axioms okv.uncommitted.kv_text_store_axioms

lemma token_storesI:
  "state_map_store st \<Longrightarrow> kv_text_store kv ic \<Longrightarrow> token_stores st kv ic"
  by (simp add: token_stores_def)

lemma xfer_applied:
  assumes "state_map_store st" "kv_text_store kv False" "token_wf st kv False db"
    and "op_inputs (req_operation req) = Some ins" "op_outputs (req_operation req) = Some outs"
    and "xfer_dynamic_validation kv validate req (tk_cache db) = Inr ()"
    and "distinct ins" "fresh n outs (token_utxos kv False db)" "payment_txn ins outs n t"
  shows "\<exists>db'. xfer_update_state st kv t False db = (Inr (), db') \<and> token_wf st kv False db' \<and>
    token_utxos kv False db' = paid ins outs n (token_utxos kv False db) \<and>
    (\<forall>A. finite A \<longrightarrow> inp_address ` set ins \<union> pay_address ` set outs \<subseteq> A \<longrightarrow>
      token_supply A (token_utxos kv False db') = token_supply A (token_utxos kv False db))"
proof -
  have c: "cache_wf kv False (tk_cache db)" using assms(3) by (simp add: token_wf_def)
  note v = xfer_validated [OF c assms(4,5,7,6)]
  have U: "utxos_wf (token_utxos kv False db)" using cache_wf_utxos [OF c] by (simp add: token_utxos_def)
  obtain db' where db': "pseq (spend_inputs st kv True t False) (add_outputs st kv t False) db = (Inr (), db')"
    "token_wf st kv False db'" "token_utxos kv False db' = paid ins outs n (token_utxos kv False db)"
    using token_stores.payment_ok [OF token_storesI [OF assms(1,2)] assms(3,9,7) _ assms(8), of True] v(1)
    by (auto simp: token_utxos_def)
  then show ?thesis
    using v U assms(7) by (auto simp: xfer_update_state_def supply_paid token_utxos_def)
qed

text \<open>C7: A transfer that passed dynamic validation, with distinct inputs and outputs under a
  fresh sequence number, is applied by \<open>XferHandler.update_state\<close> without error: state and cache
  still agree, exactly the inputs are gone and exactly the outputs are added, and no finite set
  of addresses that contains the involved ones holds more or fewer tokens than before.\<close>

theorem xfer_applies_and_conserves:
  assumes "state_map_store st" "kv_text_store kv False" "token_wf st kv False db"
    and "op_inputs (req_operation req) = Some ins" "op_outputs (req_operation req) = Some outs"
    and "xfer_dynamic_validation kv validate req (tk_cache db) = Inr ()"
    and "distinct ins" "fresh n outs (token_utxos kv False db)" "payment_txn ins outs n t"
  shows "\<exists>db'. xfer_update_state st kv t False db = (Inr (), db') \<and> token_wf st kv False db' \<and>
    token_utxos kv False db' = paid ins outs n (token_utxos kv False db) \<and>
    (\<forall>A. finite A \<longrightarrow> inp_address ` set ins \<union> pay_address ` set outs \<subseteq> A \<longrightarrow>
      token_supply A (token_utxos kv False db') = token_supply A (token_utxos kv False db))"
  using assms by (rule xfer_applied)

theorem xfer_applies_and_conserves_witness:
  "\<exists>db'. xfer_update_state ms_store okv_store ex_txn False ex_db = (Inr (), db') \<and>
    token_utxos okv_store False db' = paid [ex_input] [ex_payout] 2 ex_utxos"
proof -
  have "do_validate_inputs_ouputs okv_store ex_request (tk_cache ex_db) = Inr ()"
    using do_validate_spec [of okv_store "tk_cache ex_db" ex_request "[ex_input]" "[ex_payout]"] ex_db_wf
      ex_db_utxos by (simp add: token_wf_def token_utxos_def validate_given_cases payouts_total_def)
  then have "xfer_dynamic_validation okv_store (\<lambda>_ _. Inr ()) ex_request (tk_cache ex_db) = Inr ()"
    by (simp add: xfer_dynamic_validation_def)
  then show ?thesis
    using xfer_applies_and_conserves [OF ref_stores ex_db_wf ex_facts(5,6)] by force
qed

text \<open>C22: A transfer that names an output that is not unspent, or names one twice, is refused by
  \<open>update_state\<close> with \<open>OperationError\<close> in both handler versions, and the state and the cache
  agree afterwards although part of the inputs may already have been spent.\<close>

theorem xfer_bad_inputs_raise:
  assumes "state_map_store st" "kv_text_store kv ic" "token_wf st kv ic db"
    and "payment_txn ins outs n t"
    and "\<not> (distinct ins \<and> (\<forall>i\<in>set ins. unspent (token_utxos kv ic db) i))"
  shows "\<exists>db1 db2. xfer_update_state st kv t ic db = (Inl OperationError, db1) \<and>
    token_wf st kv ic db1 \<and>
    xfer100_update_state st kv t ic db = (Inl OperationError, db2) \<and> token_wf st kv ic db2"
  using token_stores.payment_fails [OF token_storesI [OF assms(1,2)] assms(3,4,5), of True]
    token_stores.payment_fails [OF token_storesI [OF assms(1,2)] assms(3,4,5), of False]
  by (auto simp: xfer_update_state_def xfer100_update_state_def)

theorem xfer_bad_inputs_raise_witness:
  "\<exists>db1. xfer_update_state ms_store okv_store
      (ex_txn\<lparr>tx_inputs := Some [ex_input, ex_input]\<rparr>) False ex_db = (Inl OperationError, db1)"
proof -
  have "payment_txn [ex_input, ex_input] [ex_payout] 2 (ex_txn\<lparr>tx_inputs := Some [ex_input, ex_input]\<rparr>)"
    by (simp add: payment_txn_def ex_txn_def)
  then show ?thesis
    using xfer_bad_inputs_raise [OF ref_stores ex_db_wf] by fastforce
qed

text \<open>C12: No output is spent twice: after a transfer with new outputs was applied to a store whose state
  and cache agree, the dynamic validation of every request that names one of its inputs fails
  with \<open>InvalidFundsError\<close>.\<close>

theorem xfer_no_double_spend:
  assumes "state_map_store st" "kv_text_store kv False" "token_wf st kv False db"
    and "payment_txn ins outs n t" "fresh n outs (token_utxos kv False db)"
    and "xfer_update_state st kv t False db = (Inr (), db')" "i \<in> set ins"
    and "op_inputs (req_operation req) = Some ins'" "op_outputs (req_operation req) = Some outs'"
    and "i \<in> set ins'"
  shows "xfer_dynamic_validation kv validate req (tk_cache db') = Inl InvalidFundsError"
proof -
  note ts = token_storesI [OF assms(1,2)]
  have ok: "pseq (spend_inputs st kv True t False) (add_outputs st kv t False) db = (Inr (), db')"
    using assms(6) by (simp add: xfer_update_state_def pcatch_Inr_iff)
  then have ins: "distinct ins \<and> (\<forall>i\<in>set ins. unspent (token_utxos kv False db) i)"
    using token_stores.payment_fails [OF ts assms(3,4), of True] by force
  then have wf: "token_wf st kv False db'" "token_utxos kv False db' = paid ins outs n (token_utxos kv False db)"
    using token_stores.payment_ok [OF ts assms(3,4) _ _ assms(5), of True] ok by auto
  have U: "utxos_wf (token_utxos kv False db)"
    using assms(3) by (simp add: token_wf_def token_utxos_def cache_wf_utxos)
  have "\<not> unspent (token_utxos kv False db') i"
    using paid_spent [OF U assms(5)] ins assms(7) wf(2) by simp
  then show ?thesis
    using do_validate_spec [of kv "tk_cache db'" req ins' outs'] wf(1) assms(8,9,10)
    by (auto simp: xfer_dynamic_validation_def token_wf_def token_utxos_def)
qed

theorem xfer_no_double_spend_witness:
  "\<exists>db'. xfer_update_state ms_store okv_store ex_txn False ex_db = (Inr (), db') \<and>
    xfer_dynamic_validation okv_store (\<lambda>_ _. Inr ()) ex_request (tk_cache db') = Inl InvalidFundsError"
proof -
  obtain db' where db': "xfer_update_state ms_store okv_store ex_txn False ex_db = (Inr (), db')"
    using token_stores.payment_ok [OF token_storesI [OF ref_stores] ex_db_wf ex_facts(1), of True]
    by (auto simp: xfer_update_state_def)
  then show ?thesis
    using xfer_no_double_spend [OF ref_stores ex_db_wf ex_facts(1) _ db' _ ex_facts(5,6)] by simp
qed

text \<open>C21: Minting adds exactly the minted outputs: \<open>MintHandler.update_state\<close> succeeds for outputs
  to distinct addresses under a fresh sequence number, keeps state and cache in agreement and
  raises the tokens held by the involved addresses by the sum of the minted amounts.\<close>

theorem mint_adds_exactly:
  assumes "state_map_store st" "kv_text_store kv ic" "token_wf st kv ic db"
    and "tx_outputs t = Some outs" "tx_seqNo t = n" "fresh n outs (token_utxos kv ic db)"
  shows "\<exists>db'. mint_update_state st kv t ic db = (Inr (), db') \<and> token_wf st kv ic db' \<and>
    token_utxos kv ic db' = add_all n outs (token_utxos kv ic db) \<and>
    (\<forall>A. finite A \<longrightarrow> pay_address ` set outs \<subseteq> A \<longrightarrow>
      token_supply A (token_utxos kv ic db') =
        token_supply A (token_utxos kv ic db) + payouts_total outs)"
  using token_stores.adding_ok [OF token_storesI [OF assms(1,2)] assms(3-6)]
  by (auto simp: mint_update_state_def supply_add_all)

theorem mint_adds_exactly_witness:
  "\<exists>db'. mint_update_state ms_store okv_store ex_txn False ex_db = (Inr (), db') \<and>
    token_supply {''A'', ''B''} (token_utxos okv_store False db') = 20"
proof -
  have t: "tx_outputs ex_txn = Some [ex_payout]" "tx_seqNo ex_txn = 2" by (simp_all add: ex_txn_def)
  have f: "fresh 2 [ex_payout] (token_utxos okv_store False ex_db)" by simp
  obtain db' where "mint_update_state ms_store okv_store ex_txn False ex_db = (Inr (), db')"
    "token_supply {''A'', ''B''} (token_utxos okv_store False db') =
      token_supply {''A'', ''B''} ex_utxos + payouts_total [ex_payout]"
    using mint_adds_exactly [OF ref_stores ex_db_wf t f] by auto
  then show ?thesis by (simp add: token_supply_def ex_utxos_def payouts_total_def)
qed

text \<open>The cache does not depend on what is written to the state, so the two versions of the
  transfer treat it alike.\<close>

definition same_cache :: "(exn + unit) \<times> ('s, 'c, 'z) token_db_scheme \<Rightarrow>
    (exn + unit) \<times> ('s, 'c, 'z) token_db_scheme \<Rightarrow> bool" where
  "same_cache r1 r2 \<longleftrightarrow> fst r1 = fst r2 \<and> tk_cache (snd r1) = tk_cache (snd r2)"

lemma same_cache_for_each:
  assumes "\<And>x d1 d2. tk_cache d1 = tk_cache d2 \<Longrightarrow> same_cache (f x d1) (g x d2)"
  shows "tk_cache d1 = tk_cache d2 \<Longrightarrow> same_cache (for_each f xs d1) (for_each g xs d2)"
proof (induction xs arbitrary: d1 d2)
  case (Cons x xs)
  from assms [OF Cons.prems, of x] show ?case
    using Cons.IH by (cases "f x d1"; cases "g x d2"; cases "fst (f x d1)")
      (auto simp: same_cache_def pseq_def pbind_def)
qed (simp add: same_cache_def)

lemma same_cache_pseq:
  assumes "same_cache (m1 d1) (m2 d2)"
    and "\<And>e1 e2. tk_cache e1 = tk_cache e2 \<Longrightarrow> same_cache (k1 e1) (k2 e2)"
  shows "same_cache (pseq m1 k1 d1) (pseq m2 k2 d2)"
  using assms by (cases "m1 d1"; cases "m2 d2"; cases "fst (m1 d1)")
    (auto simp: same_cache_def pseq_def pbind_def)

lemma same_cache_on_cache: "tk_cache d1 = tk_cache d2 \<Longrightarrow> same_cache (on_cache f d1) (on_cache f d2)"
  by (simp add: same_cache_def on_cache_def split: sum.splits)

lemma same_cache_spend_inputs:
  assumes "tk_cache d1 = tk_cache d2"
  shows "same_cache (spend_inputs st kv b1 t ic d1) (spend_inputs st kv b2 t ic d2)"
proof (cases "tx_inputs t")
  case None
  then show ?thesis using assms by (simp add: spend_inputs_def dict_get_def same_cache_def)
next
  case (Some ins)
  have "same_cache (spend_input st kv a n ic b1 e1) (spend_input st kv a n ic b2 e2)"
    if "tk_cache e1 = tk_cache e2" for a n e1 e2
    unfolding spend_input_def Let_def using that by (intro same_cache_on_cache) simp
  then show ?thesis
    using Some assms by (simp add: spend_inputs_def dict_get_def) (intro same_cache_for_each)
qed

lemma same_cache_add_outputs:
  assumes "tk_cache d1 = tk_cache d2"
  shows "same_cache (add_outputs st kv t ic d1) (add_outputs st kv t ic d2)"
proof (cases "tx_outputs t")
  case None
  then show ?thesis using assms by (simp add: add_outputs_def dict_get_def same_cache_def)
next
  case (Some outs)
  have "same_cache (add_new_output st kv o' ic e1) (add_new_output st kv o' ic e2)"
    if "tk_cache e1 = tk_cache e2" for o' e1 e2
    unfolding add_new_output_def Let_def using that by (intro same_cache_on_cache) simp
  then show ?thesis
    using Some assms by (simp add: add_outputs_def dict_get_def) (intro same_cache_for_each)
qed

text \<open>C23: The handler that replays transactions of version 1.0.0 (which leaves an empty value in
  the state for a spent output) raises exactly when the current one does, with the same
  exception, and leaves exactly the same UTXO cache.\<close>

theorem xfer100_same_cache:
  "fst (xfer100_update_state st kv t ic db) = fst (xfer_update_state st kv t ic db) \<and>
   tk_cache (snd (xfer100_update_state st kv t ic db)) = tk_cache (snd (xfer_update_state st kv t ic db))"
proof -
  let ?run = "\<lambda>b. pseq (spend_inputs st kv b t ic) (add_outputs st kv t ic) db"
  have "same_cache (?run False) (?run True)"
    by (rule same_cache_pseq) (simp_all add: same_cache_spend_inputs same_cache_add_outputs)
  then show ?thesis
    by (cases "?run False"; cases "?run True"; cases "fst (?run True)")
      (auto simp: same_cache_def xfer100_update_state_def xfer_update_state_def)
qed

text \<open>\<open>XferHandler._req_to_txn\<close> leaves the request as it was whenever the base class builds the
  transaction, hands the base class an operation without signatures, and attaches to the
  transaction the pairs of input address and signature in the order of the inputs.\<close>

theorem xfer_req_to_txn_restores:
  assumes "op_signatures (req_operation req) = Some sigs" "op_inputs (req_operation req) = Some ins"
    and "base (req\<lparr>req_operation := (req_operation req)\<lparr>op_signatures := None\<rparr>\<rparr>) = Inr t"
  shows "xfer_req_to_txn base add_sigs req =
    (Inr (add_sigs t (zip (map inp_address ins) sigs) ''ED25519''), req)"
proof -
  have "map (\<lambda>(i, s). (inp_address i, s)) (zip ins sigs) = zip (map inp_address ins) sigs"
    by (induction ins sigs rule: list_induct2') auto
  then show ?thesis using assms by (simp add: xfer_req_to_txn_def Let_def)
qed

theorem xfer_req_to_txn_restores_witness:
  "xfer_req_to_txn (\<lambda>_. Inr ex_txn) add_sigs_to_txn ex_request =
    (Inr (ex_txn\<lparr>tx_sig_type := Some ''ED25519'', tx_sig_values := Some [(''A'', ''sig'')]\<rparr>), ex_request)"
  using xfer_req_to_txn_restores [of ex_request "[''sig'']" "[ex_input]" "\<lambda>_. Inr ex_txn" ex_txn add_sigs_to_txn]
  by (simp add: ex_request_def add_sigs_to_txn_def ex_txn_def)

end
