(* ===== verification/PyHeap.thy ===== *)
theory PyHeap
  imports Prelude "HOL-Library.Multiset"
begin

text \<open>
  The class \<open>SortedItems\<close> of \<open>sovtoken/util.py\<close> over the functions \<open>heappush\<close> and \<open>heappop\<close> of
  Python's \<open>heapq\<close>, written as the standard library has them: a binary heap in a list, whose
  \<open>_siftdown\<close> moves an item towards the root and whose \<open>_siftup\<close> moves the hole at the root down
  to a leaf first.

  The comparison \<open><\<close> of the items is an argument \<open>lt\<close>. The locale \<open>weak_order\<close> states what the
  class relies on; inside it the heap property is shown to be kept by both operations, and
  \<open>sorted_list\<close> to return exactly the added items in ascending order.
\<close>

section \<open>heapq\<close>

definition parent :: "nat \<Rightarrow> nat" where
  "parent i = (i - 1) div 2"

lemma parent_less [simp]: "0 < i \<Longrightarrow> parent i < i"
  by (simp add: parent_def)

lemma parent_neq [simp]: "0 < i \<Longrightarrow> parent i \<noteq> i" "0 < i \<Longrightarrow> i \<noteq> parent i"
  by (auto simp: parent_def)

lemma parent_parent [simp]: "0 < i \<Longrightarrow> parent (parent i) \<noteq> i" "0 < i \<Longrightarrow> i \<noteq> parent (parent i)"
  by (auto simp: parent_def)

lemma parent_eq_iff: "0 < i \<Longrightarrow> parent i = p \<longleftrightarrow> i = 2 * p + 1 \<or> i = 2 * p + 2"
  by (auto simp: parent_def)

text \<open>The loop of \<open>_siftdown\<close> with \<open>startpos = 0\<close>, where both callers have it; \<open>newitem\<close> is the
  item that was read at the first \<open>pos\<close>.\<close>

fun siftdown :: "('a \<Rightarrow> 'a \<Rightarrow> bool) \<Rightarrow> 'a list \<Rightarrow> 'a \<Rightarrow> nat \<Rightarrow> 'a list" where
  "siftdown lt heap newitem pos =
     (if pos > 0 \<and> lt newitem (heap ! parent pos)
      then siftdown lt (heap[pos := heap ! parent pos]) newitem (parent pos)
      else heap[pos := newitem])"

declare siftdown.simps [simp del]

text \<open>The loop of \<open>_siftup\<close>: the smaller child moves up until a leaf is reached.\<close>

definition smaller_child :: "('a \<Rightarrow> 'a \<Rightarrow> bool) \<Rightarrow> 'a list \<Rightarrow> nat \<Rightarrow> nat" where
  "smaller_child lt heap pos =
     (let childpos = 2 * pos + 1; rightpos = childpos + 1 in
      if rightpos < length heap \<and> \<not> lt (heap ! childpos) (heap ! rightpos) then rightpos else childpos)"

lemma smaller_child_cases:
  "smaller_child lt heap pos = 2 * pos + 1 \<or>
   smaller_child lt heap pos = 2 * pos + 2 \<and> 2 * pos + 2 < length heap"
  by (auto simp: smaller_child_def Let_def)

function siftup :: "('a \<Rightarrow> 'a \<Rightarrow> bool) \<Rightarrow> 'a list \<Rightarrow> 'a \<Rightarrow> nat \<Rightarrow> 'a list" where
  "siftup lt heap newitem pos =
     (if 2 * pos + 1 < length heap
      then let childpos = smaller_child lt heap pos in
        siftup lt (heap[pos := heap ! childpos]) newitem childpos
      else siftdown lt (heap[pos := newitem]) newitem pos)"
  by pat_completeness auto
termination
proof (relation "measure (\<lambda>(lt, heap, newitem, pos). length heap - pos)", simp, goal_cases)
  case (1 lt heap newitem pos x)
  then show ?case using smaller_child_cases [of lt heap pos] by auto
qed

declare siftup.simps [simp del]

definition heappush :: "('a \<Rightarrow> 'a \<Rightarrow> bool) \<Rightarrow> 'a list \<Rightarrow> 'a \<Rightarrow> 'a list" where
  "heappush lt heap item = siftdown lt (heap @ [item]) item (length heap)"

text \<open>\<open>heap.pop()\<close> raises \<open>IndexError\<close> on the empty list.\<close>

definition heappop :: "('a \<Rightarrow> 'a \<Rightarrow> bool) \<Rightarrow> 'a list \<Rightarrow> exn + ('a \<times> 'a list)" where
  "heappop lt heap =
     (if heap = [] then Inl IndexError
      else let lastelt = last heap; rest = butlast heap in
        if rest = [] then Inr (lastelt, [])
        else Inr (rest ! 0, siftup lt (rest[0 := lastelt]) lastelt 0))"

section \<open>SortedItems\<close>

definition SortedItems_init :: "'a list" where
  "SortedItems_init = []"

definition SortedItems_add :: "('a \<Rightarrow> 'a \<Rightarrow> bool) \<Rightarrow> 'a list \<Rightarrow> 'a \<Rightarrow> 'a list" where
  "SortedItems_add lt heap item = heappush lt heap item"

lemma length_siftdown [simp]: "length (siftdown lt heap x pos) = length heap"
  by (induction lt heap x pos rule: siftdown.induct) (subst siftdown.simps, auto)

lemma length_siftup [simp]: "length (siftup lt heap x pos) = length heap"
  by (induction lt heap x pos rule: siftup.induct) (subst siftup.simps, auto simp: Let_def)

lemma heappop_shorter: "heappop lt heap = Inr (x, h) \<Longrightarrow> length h < length heap"
  by (auto simp: heappop_def Let_def split: if_splits)

text \<open>The property empties the heap it reads.\<close>

function sorted_list :: "('a \<Rightarrow> 'a \<Rightarrow> bool) \<Rightarrow> 'a list \<Rightarrow> 'a list" where
  "sorted_list lt heap =
     (if heap = [] then []
      else case heappop lt heap of Inl _ \<Rightarrow> [] | Inr (x, h) \<Rightarrow> x # sorted_list lt h)"
  by pat_completeness auto
termination
  by (relation "measure (length \<circ> snd)") (auto dest: heappop_shorter)

declare sorted_list.simps [simp del]

definition sorted_items :: "('a \<Rightarrow> 'a \<Rightarrow> bool) \<Rightarrow> 'a list \<Rightarrow> 'a list" where
  "sorted_items lt xs = sorted_list lt (foldl (SortedItems_add lt) SortedItems_init xs)"

section \<open>The multiset of items\<close>

lemma mset_swap_hole:
  assumes "p < length xs" "q < length xs" "p \<noteq> q"
  shows "mset ((xs[p := xs ! q])[q := x]) = mset (xs[p := x])"
proof -
  have "mset ((xs[p := x])[p := (xs[p := x]) ! q, q := (xs[p := x]) ! p]) = mset (xs[p := x])"
    using assms by (intro mset_swap) auto
  then show ?thesis using assms by simp
qed

lemma mset_siftdown:
  "pos < length heap \<Longrightarrow> mset (siftdown lt heap x pos) = mset (heap[pos := x])"
proof (induction lt heap x pos rule: siftdown.induct)
  case (1 lt heap x pos)
  show ?case
  proof (cases "pos > 0 \<and> lt x (heap ! parent pos)")
    case True
    then have p: "parent pos < pos" by simp
    then have "mset (siftdown lt heap x pos) = mset ((heap[pos := heap ! parent pos])[parent pos := x])"
      using 1(1) [OF True] less_trans [OF p 1(2)] True by (subst siftdown.simps) simp
    then show ?thesis using mset_swap_hole [of pos heap "parent pos" x] p 1(2) by auto
  qed (subst siftdown.simps, auto)
qed

lemma mset_siftup:
  "pos < length heap \<Longrightarrow> mset (siftup lt heap x pos) = mset (heap[pos := x])"
proof (induction lt heap x pos rule: siftup.induct)
  case (1 lt heap x pos)
  show ?case
  proof (cases "2 * pos + 1 < length heap")
    case True
    let ?c = "smaller_child lt heap pos"
    have c: "?c < length heap" "pos \<noteq> ?c" using smaller_child_cases [of lt heap pos] True by auto
    then have "mset (siftup lt heap x pos) = mset ((heap[pos := heap ! ?c])[?c := x])"
      using 1(1) [OF True refl] True by (subst siftup.simps) (simp add: Let_def)
    then show ?thesis using mset_swap_hole [of pos heap ?c x] c 1(2) by simp
  next
    case False
    then show ?thesis using 1(2) by (subst siftup.simps) (simp add: mset_siftdown)
  qed
qed

lemma mset_heappush: "mset (heappush lt heap x) = add_mset x (mset heap)"
  by (simp add: heappush_def mset_siftdown)

lemma heappop_nonempty:
  assumes "heap \<noteq> []"
  shows "\<exists>h. heappop lt heap = Inr (heap ! 0, h) \<and> mset heap = add_mset (heap ! 0) (mset h)"
proof (cases heap rule: rev_cases)
  case (snoc rest y)
  then show ?thesis
    by (cases rest) (auto simp: heappop_def mset_siftup)
qed (use assms in simp)

section \<open>The heap property\<close>

locale weak_order =
  fixes lt :: "'a \<Rightarrow> 'a \<Rightarrow> bool"
  assumes lt_asym: "lt x y \<Longrightarrow> \<not> lt y x"
    and not_lt_trans: "\<not> lt y x \<Longrightarrow> \<not> lt z y \<Longrightarrow> \<not> lt z x"
begin

abbreviation le :: "'a \<Rightarrow> 'a \<Rightarrow> bool" where
  "le x y \<equiv> \<not> lt y x"

definition edge :: "'a list \<Rightarrow> nat \<Rightarrow> bool" where
  "edge xs i \<longleftrightarrow> le (xs ! parent i) (xs ! i)"

definition is_heap :: "'a list \<Rightarrow> bool" where
  "is_heap xs \<longleftrightarrow> (\<forall>i. 0 < i \<and> i < length xs \<longrightarrow> edge xs i)"

text \<open>A heap with a hole at \<open>p\<close>: the edges away from the hole hold, and the hole's parent is below
  the hole's children.\<close>

definition holed :: "'a list \<Rightarrow> nat \<Rightarrow> bool" where
  "holed xs p \<longleftrightarrow> p < length xs \<and>
     (\<forall>i. 0 < i \<and> i < length xs \<and> i \<noteq> p \<and> parent i \<noteq> p \<longrightarrow> edge xs i) \<and>
     (\<forall>i. 0 < p \<and> 0 < i \<and> i < length xs \<and> parent i = p \<longrightarrow> le (xs ! parent p) (xs ! i))"

lemma le_trans: "le x y \<Longrightarrow> le y z \<Longrightarrow> le x z"
  by (rule not_lt_trans)

lemma holedI:
  assumes "p < length xs"
    and "\<And>i. 0 < i \<Longrightarrow> i < length xs \<Longrightarrow> i \<noteq> p \<Longrightarrow> parent i \<noteq> p \<Longrightarrow> le (xs ! parent i) (xs ! i)"
    and "\<And>i. 0 < p \<Longrightarrow> 0 < i \<Longrightarrow> i < length xs \<Longrightarrow> parent i = p \<Longrightarrow> le (xs ! parent p) (xs ! i)"
  shows "holed xs p"
  using assms by (simp add: holed_def edge_def)

lemma holed_edge:
  "holed xs p \<Longrightarrow> 0 < i \<Longrightarrow> i < length xs \<Longrightarrow> i \<noteq> p \<Longrightarrow> parent i \<noteq> p \<Longrightarrow> le (xs ! parent i) (xs ! i)"
  by (simp add: holed_def edge_def)

lemma holed_over:
  "holed xs p \<Longrightarrow> 0 < p \<Longrightarrow> 0 < i \<Longrightarrow> i < length xs \<Longrightarrow> parent i = p \<Longrightarrow> le (xs ! parent p) (xs ! i)"
  by (simp add: holed_def)

lemma holed_up:
  assumes h: "holed xs p" "0 < p"
  shows "holed (xs[p := xs ! parent p]) (parent p)" (is "holed ?ys ?q")
proof (rule holedI)
  have q: "?q < p" and p: "p < length xs" using h by (simp_all add: holed_def)
  then show "?q < length ?ys" by simp
  fix i
  assume i: "0 < i" "i < length ?ys"
  {
    assume "i \<noteq> ?q" "parent i \<noteq> ?q"
    then have "i \<noteq> p" by auto
    then show "le (?ys ! parent i) (?ys ! i)"
      using holed_edge [OF h(1), of i] holed_over [OF h, of i] i p by (cases "parent i = p") auto
  }
  assume "0 < ?q" "parent i = ?q"
  moreover have "le (xs ! parent ?q) (xs ! ?q)"
    using holed_edge [OF h(1), of ?q] q p h(2) \<open>0 < ?q\<close> by simp
  moreover have "i \<noteq> p \<Longrightarrow> le (xs ! ?q) (xs ! i)"
    using holed_edge [OF h(1), of i] i q \<open>parent i = ?q\<close> by simp
  ultimately show "le (?ys ! parent ?q) (?ys ! i)"
    using le_trans [of "xs ! ?q" "xs ! parent ?q" "xs ! i"] p h(2) by (cases "i = p") auto
qed

lemma holed_fill:
  assumes h: "holed xs p"
    and "\<And>i. 0 < i \<Longrightarrow> i < length xs \<Longrightarrow> parent i = p \<Longrightarrow> le x (xs ! i)"
    and "0 < p \<Longrightarrow> le (xs ! parent p) x"
  shows "is_heap (xs[p := x])"
  unfolding is_heap_def edge_def
proof (intro allI impI)
  fix i
  assume i: "0 < i \<and> i < length (xs[p := x])"
  have p: "p < length xs" using h by (simp add: holed_def)
  show "le (xs[p := x] ! parent i) (xs[p := x] ! i)"
  proof (cases "i = p")
    case True
    then show ?thesis using assms(3) i p by simp
  next
    case False
    then show ?thesis using assms(2) [of i] holed_edge [OF h, of i] i p by (cases "parent i = p") auto
  qed
qed

lemma is_heap_siftdown:
  assumes "holed xs p" "\<And>i. 0 < i \<Longrightarrow> i < length xs \<Longrightarrow> parent i = p \<Longrightarrow> le x (xs ! i)"
  shows "is_heap (siftdown lt xs x p)"
  using assms
proof (induction p arbitrary: xs rule: less_induct)
  case (less p)
  show ?case
  proof (cases "p > 0 \<and> lt x (xs ! parent p)")
    case True
    let ?ys = "xs[p := xs ! parent p]"
    have q: "parent p < p" using True by simp
    have "le x (?ys ! i)" if i: "0 < i" "i < length ?ys" "parent i = parent p" for i
    proof -
      have "le x (xs ! parent p)" using True lt_asym by blast
      moreover have "i \<noteq> p \<Longrightarrow> le (xs ! parent p) (xs ! i)"
        using holed_edge [OF less.prems(1), of i] i q by simp
      ultimately show ?thesis
        using le_trans [of "xs ! parent p" x "xs ! i"] i less.prems(1) by (cases "i = p") (auto simp: holed_def)
    qed
    then have "is_heap (siftdown lt ?ys x (parent p))"
      using less.IH [OF q holed_up [OF less.prems(1)]] True by blast
    then show ?thesis using True by (subst siftdown.simps) simp
  next
    case False
    then have "siftdown lt xs x p = xs[p := x]" by (subst siftdown.simps) auto
    moreover have "is_heap (xs[p := x])"
      by (rule holed_fill [OF less.prems(1)]) (use less.prems(2) False in blast)+
    ultimately show ?thesis by simp
  qed
qed

lemma is_heap_holed:
  assumes "is_heap xs" "p < length xs" "p = 0"
  shows "holed (xs[p := x]) p"
  by (rule holedI) (use assms in \<open>auto simp: is_heap_def edge_def\<close>)

lemma smaller_child_le:
  assumes "2 * p + 1 < length xs" "0 < i" "i < length xs" "parent i = p"
  shows "le (xs ! smaller_child lt xs p) (xs ! i)"
  using assms(1,3,4) lt_asym [of "xs ! (2 * p + 1)" "xs ! (2 * p + 2)"]
    lt_asym [of "xs ! i" "xs ! i"] unfolding parent_eq_iff [OF assms(2)]
  by (auto simp: smaller_child_def Let_def)

lemma holed_down:
  assumes h: "holed xs p" and c: "2 * p + 1 < length xs" "c = smaller_child lt xs p"
  shows "holed (xs[p := xs ! c]) c" (is "holed ?ys c")
proof (rule holedI)
  have pc: "parent c = p" "0 < c" "c < length xs" "p < c"
    using smaller_child_cases [of lt xs p] c by (auto simp: parent_def)
  then show "c < length ?ys" by simp
  fix i
  assume i: "0 < i" "i < length ?ys"
  {
    assume "i \<noteq> c" "parent i \<noteq> c"
    then show "le (?ys ! parent i) (?ys ! i)"
      using holed_edge [OF h, of i] holed_over [OF h, of c] smaller_child_le [OF c(1) i(1)]
        pc c(2) i by (cases "i = p"; cases "parent i = p") auto
  }
  assume "parent i = c"
  then have "i \<noteq> p" "parent i \<noteq> p" using pc(4) parent_less [OF i(1)] by auto
  then show "le (?ys ! parent c) (?ys ! i)"
    using holed_edge [OF h, of i] pc i \<open>parent i = c\<close> by simp
qed

lemma is_heap_siftup: "holed xs p \<Longrightarrow> is_heap (siftup lt xs x p)"
proof (induction "length xs - p" arbitrary: xs p rule: less_induct)
  case less
  let ?c = "smaller_child lt xs p"
  show ?case
  proof (cases "2 * p + 1 < length xs")
    case True
    then have "length (xs[p := xs ! ?c]) - ?c < length xs - p"
      using smaller_child_cases [of lt xs p] by auto
    then have "is_heap (siftup lt (xs[p := xs ! ?c]) x ?c)"
      using less.hyps holed_down [OF less.prems True refl] by blast
    then show ?thesis using True by (subst siftup.simps) (simp add: Let_def)
  next
    case False
    have leaf: "\<not> (0 < i \<and> i < length xs \<and> parent i = p)" for i
      using False parent_eq_iff [of i p] by auto
    then have "holed (xs[p := x]) p"
      using less.prems by (auto simp: holed_def edge_def)
    with leaf have "is_heap (siftdown lt (xs[p := x]) x p)"
      by (intro is_heap_siftdown) auto
    then show ?thesis using False by (subst siftup.simps) simp
  qed
qed

lemma is_heap_heappush:
  assumes "is_heap xs"
  shows "is_heap (heappush lt xs x)"
  unfolding heappush_def
proof (rule is_heap_siftdown)
  have no: "i < Suc (length xs) \<Longrightarrow> 0 < i \<Longrightarrow> parent i \<noteq> length xs" for i
    using parent_less [of i] by linarith
  then show "holed (xs @ [x]) (length xs)"
    using assms less_trans [OF parent_less] by (auto simp: holed_def is_heap_def edge_def nth_append less_Suc_eq)
  show "le x ((xs @ [x]) ! i)" if "0 < i" "i < length (xs @ [x])" "parent i = length xs" for i
    using no [of i] that by simp
qed

lemma is_heap_heappop:
  assumes "is_heap xs" "heappop lt xs = Inr (x, h)"
  shows "is_heap h"
proof -
  have sub: "is_heap (butlast xs)"
    using assms(1) less_trans [OF parent_less] by (auto simp: is_heap_def edge_def nth_butlast)
  show ?thesis
  proof (cases "butlast xs = []")
    case True
    then show ?thesis using assms(2) by (auto simp: heappop_def Let_def is_heap_def split: if_splits)
  next
    case False
    then have "0 < length (butlast xs)" by blast
    then show ?thesis
      using False assms(2) is_heap_siftup [OF is_heap_holed [OF sub _ refl]]
      by (auto simp: heappop_def Let_def split: if_splits)
  qed
qed

text \<open>The root is a least item.\<close>

lemma is_heap_least: "is_heap xs \<Longrightarrow> i < length xs \<Longrightarrow> le (xs ! 0) (xs ! i)"
proof (induction i rule: less_induct)
  case (less i)
  show ?case
  proof (cases "i = 0")
    case True
    then show ?thesis using lt_asym by blast
  next
    case False
    then have "parent i < i" "le (xs ! parent i) (xs ! i)"
      using less.prems by (auto simp: is_heap_def edge_def)
    then show ?thesis using less.IH [of "parent i"] less.prems le_trans by fastforce
  qed
qed

lemma sorted_list_correct:
  "is_heap xs \<Longrightarrow> mset (sorted_list lt xs) = mset xs \<and> sorted_wrt le (sorted_list lt xs)"
proof (induction "length xs" arbitrary: xs rule: less_induct)
  case less
  show ?case
  proof (cases "xs = []")
    case False
    then obtain h where h: "heappop lt xs = Inr (xs ! 0, h)" "mset xs = add_mset (xs ! 0) (mset h)"
      using heappop_nonempty by blast
    have IH: "mset (sorted_list lt h) = mset h" "sorted_wrt le (sorted_list lt h)"
      using less.hyps [OF heappop_shorter [OF h(1)] is_heap_heappop [OF less.prems h(1)]] by auto
    have "le (xs ! 0) y" if "y \<in> set (sorted_list lt h)" for y
    proof -
      have "y \<in># mset xs" using that IH(1) h(2) by (metis insert_iff set_mset_add_mset_insert set_mset_mset)
      then show ?thesis using is_heap_least [OF less.prems] by (auto simp: in_set_conv_nth)
    qed
    then show ?thesis using h IH False by (subst (1 2) sorted_list.simps) simp
  qed (subst (1 2) sorted_list.simps, simp)
qed

lemma foldl_add_correct:
  "is_heap h \<Longrightarrow> is_heap (foldl (SortedItems_add lt) h xs) \<and>
    mset (foldl (SortedItems_add lt) h xs) = mset h + mset xs"
  by (induction xs arbitrary: h)
    (simp_all add: SortedItems_add_def is_heap_heappush mset_heappush)

lemma sorted_items_correct:
  "mset (sorted_items lt xs) = mset xs" "sorted_wrt le (sorted_items lt xs)"
  using sorted_list_correct [of "foldl (SortedItems_add lt) SortedItems_init xs"]
    foldl_add_correct [of SortedItems_init xs]
  by (simp_all add: sorted_items_def SortedItems_init_def is_heap_def)

end

end
