(* ===== verification/Get_Utxo.thy ===== *)
theory Get_Utxo
  imports Token_Handlers PyHeap
begin

text \<open>
  \<open>GetUtxoHandler.get_result\<close> (\<open>sovtoken/request_handlers/read_req_handler/get_utxo_handler.py\<close>):
  the paged, sorted list of the unspent outputs of an address, with a state proof when it fits
  into a message.

  The committed state, its proofs, the BLS store, the serialisers and \<open>rlp_decode\<close> are code outside
  the repository; \<open>read_env\<close> collects what the handler reads from them. The properties describe
  a state that holds, under the prefix of the address, one key per output that was ever created
  and not removed (\<open>holds_items\<close>).
\<close>

section \<open>Requests and replies\<close>

text \<open>The values of the dictionaries involved; \<open>'m\<close> is the type of multi-signatures.\<close>

datatype 'm val = VNone | VStr string | VInt int | VOutputs "Output list" | VProof 'm string string

fun py_true :: "'m val \<Rightarrow> bool" where
  "py_true VNone = False"
| "py_true (VStr s) = (s \<noteq> [])"
| "py_true (VInt i) = (i \<noteq> 0)"
| "py_true (VOutputs us) = (us \<noteq> [])"
| "py_true (VProof m r p) = True"

record 'm read_request =
  rr_identifier :: string
  rr_reqId :: int
  rr_operation :: "string \<rightharpoonup> 'm val"

text \<open>What the handler reads: the serialised committed root, the proof and the items under a prefix,
  the stored multi-signature of a root, the serialised proof nodes, the first level of an RLP
  list, the length of the JSON text of a reply, and the limit on it.\<close>

record ('p, 'm) read_env =
  committed_root :: string
  prefix_proof :: "string \<Rightarrow> 'p \<times> (string \<times> string) list"
  bls_get :: "string \<Rightarrow> 'm option"
  ser_nodes :: "'p \<Rightarrow> string"
  rlp_decode :: "string \<Rightarrow> string list"
  json_len :: "(string \<rightharpoonup> 'm val) \<Rightarrow> nat"
  msg_limit :: nat

abbreviation OUTPUTS :: string where "OUTPUTS \<equiv> ''outputs''"
abbreviation ADDRESS :: string where "ADDRESS \<equiv> ''address''"
abbreviation NEXT_SEQNO :: string where "NEXT_SEQNO \<equiv> ''next''"
abbreviation FROM_SEQNO :: string where "FROM_SEQNO \<equiv> ''from''"
abbreviation STATE_PROOF :: string where "STATE_PROOF \<equiv> ''state_proof''"

section \<open>The handler\<close>

text \<open>The loop over the items of the state, which fills the heap.\<close>

fun collect_outputs :: "(string \<Rightarrow> string list) \<Rightarrow> (string \<times> string) list \<Rightarrow> Output list
    \<Rightarrow> exn + Output list" where
  "collect_outputs rlp [] heap = Inr heap"
| "collect_outputs rlp ((k, v) # rv) heap =
     (case parse_state_key k of
        [addr, seq_no] \<Rightarrow>
          (case rlp v of
             [] \<Rightarrow> Inl IndexError
           | amt # _ \<Rightarrow>
               if amt = [] then collect_outputs rlp rv heap
               else (case (py_int seq_no, py_int amt) of
                   (Some n, Some m) \<Rightarrow>
                     collect_outputs rlp rv (SortedItems_add less_than heap (mk_output addr n (Some m)))
                 | _ \<Rightarrow> Inl ValueError))
      | _ \<Rightarrow> Inl ValueError)"

text \<open>\<open>next((idx for utxo, idx in zip(utxos, range(len(utxos))) if utxo.seqNo >= from_seqno), None)\<close>.\<close>

fun find_from :: "Output list \<Rightarrow> int \<Rightarrow> nat option" where
  "find_from [] from_seqno = None"
| "find_from (u # us) from_seqno =
     (if seqNo u \<ge> from_seqno then Some 0 else map_option Suc (find_from us from_seqno))"

text \<open>\<open>if from_seqno: \<dots>\<close>; an index that is \<open>None\<close> or \<open>0\<close> is false. Comparing a sequence number with
  a text raises \<open>TypeError\<close>.\<close>

definition select_from :: "'m val \<Rightarrow> Output list \<Rightarrow> exn + Output list" where
  "select_from from_seqno utxos =
     (if \<not> py_true from_seqno then Inr utxos
      else case from_seqno of
        VInt n \<Rightarrow> (case find_from utxos n of
            Some idx \<Rightarrow> if idx \<noteq> 0 then Inr (drop idx utxos) else Inr []
          | None \<Rightarrow> Inr [])
      | _ \<Rightarrow> if utxos = [] then Inr [] else Inl TypeError)"

definition limit_utxos :: "Output list \<Rightarrow> int option \<times> Output list" where
  "limit_utxos utxos =
     (if length utxos > UTXO_LIMIT then (Some (seqNo (utxos ! UTXO_LIMIT)), take UTXO_LIMIT utxos)
      else (None, utxos))"

definition get_utxo_proof :: "('p, 'm) read_env \<Rightarrow> 'p \<Rightarrow> 'm val option" where
  "get_utxo_proof env proof =
     map_option (\<lambda>multi_sig. VProof multi_sig (committed_root env) (ser_nodes env proof))
       (bls_get env (committed_root env))"

definition get_utxo_result :: "('p, 'm) read_env \<Rightarrow> 'm read_request \<Rightarrow> exn + (string \<rightharpoonup> 'm val)" where
  "get_utxo_result env request =
     (case rr_operation request ADDRESS of
        Some (VStr addr) \<Rightarrow>
          (let from_seqno = (case rr_operation request FROM_SEQNO of None \<Rightarrow> VNone | Some v \<Rightarrow> v);
               proof_rv = prefix_proof env addr;
               proof = get_utxo_proof env (fst proof_rv) in
           ebind (collect_outputs (rlp_decode env) (snd proof_rv) SortedItems_init) (\<lambda>heap.
           ebind (select_from from_seqno (sorted_list less_than heap)) (\<lambda>utxos.
           let next_utxos = limit_utxos utxos;
               result = [''identifier'' \<mapsto> VStr (rr_identifier request),
                         ''reqId'' \<mapsto> VInt (rr_reqId request),
                         OUTPUTS \<mapsto> VOutputs (snd next_utxos)] ++ rr_operation request;
               result = (case fst next_utxos of
                           Some n \<Rightarrow> if n \<noteq> 0 then result(NEXT_SEQNO \<mapsto> VInt n) else result
                         | None \<Rightarrow> result)
           in case proof of
                None \<Rightarrow> Inr result
              | Some p \<Rightarrow>
                  (let res_sub = result(STATE_PROOF \<mapsto> p) in
                   if json_len env res_sub \<le> msg_limit env then Inr res_sub else Inr result))))
      | Some _ \<Rightarrow> Inl TypeError
      | None \<Rightarrow> Inl KeyError)"

section \<open>Sorting\<close>

interpretation outs: weak_order less_than
  by unfold_locales (auto simp: less_than_def)

lemma sorted_wrt_strict:
  fixes f :: "'a \<Rightarrow> int"
  shows "distinct (map f xs) \<Longrightarrow> sorted_wrt (\<lambda>x y. \<not> f y < f x) xs \<Longrightarrow> sorted_wrt (\<lambda>x y. f x < f y) xs"
  by (induction xs) (force simp: not_less le_less)+

lemma sorted_outputs_strict:
  assumes "distinct (map seqNo us)"
  shows "sorted_wrt (\<lambda>u v. seqNo u < seqNo v) (sorted_items less_than us)"
    "set (sorted_items less_than us) = set us"
proof -
  let ?ss = "sorted_items less_than us"
  have m: "mset ?ss = mset us" by (rule outs.sorted_items_correct)
  then show "set ?ss = set us" by (rule mset_eq_setD)
  have "distinct (map seqNo ?ss)"
    using assms m mset_eq_imp_distinct_iff [of "map seqNo ?ss" "map seqNo us"] by simp
  then show "sorted_wrt (\<lambda>u v. seqNo u < seqNo v) ?ss"
    using outs.sorted_items_correct(2) [of us] by (intro sorted_wrt_strict) (simp_all add: less_than_def)
qed

section \<open>What the state holds for an address\<close>

text \<open>\<open>ps\<close> lists the sequence numbers with their amounts; \<open>None\<close> is the empty value that version
  1.0.0 left for a spent output.\<close>

definition item_text :: "int option \<Rightarrow> string" where
  "item_text v = (case v of None \<Rightarrow> [] | Some m \<Rightarrow> py_str m)"

definition holds_items :: "(string \<Rightarrow> string list) \<Rightarrow> string \<Rightarrow> (int \<times> int option) list
    \<Rightarrow> (string \<times> string) list \<Rightarrow> bool" where
  "holds_items rlp a ps rv \<longleftrightarrow> CHR '':'' \<notin> set a \<and> distinct (map fst ps) \<and>
     list_all2 (\<lambda>p kv. fst kv = create_state_key a (fst p) \<and> rlp (snd kv) = [item_text (snd p)]) ps rv"

definition live_outputs :: "string \<Rightarrow> (int \<times> int option) list \<Rightarrow> Output list" where
  "live_outputs a ps = map (\<lambda>p. mk_output a (fst p) (snd p)) (filter (\<lambda>p. snd p \<noteq> None) ps)"

lemma collect_live:
  assumes "CHR '':'' \<notin> set a"
    and "list_all2 (\<lambda>p kv. fst kv = create_state_key a (fst p) \<and> rlp (snd kv) = [item_text (snd p)]) ps rv"
  shows "collect_outputs rlp rv heap = Inr (foldl (SortedItems_add less_than) heap (live_outputs a ps))"
  using assms(2)
proof (induction ps rv arbitrary: heap rule: list_all2_induct)
  case (Cons p ps kv rv)
  then show ?case
    using assms(1)
    by (cases kv; cases "snd p") (auto simp: parse_create_state_key item_text_def live_outputs_def)
qed (simp add: live_outputs_def)

definition all_utxos :: "string \<Rightarrow> (int \<times> int option) list \<Rightarrow> Output list" where
  "all_utxos a ps = sorted_items less_than (live_outputs a ps)"

lemma distinct_live: "distinct (map fst ps) \<Longrightarrow> distinct (map seqNo (live_outputs a ps))"
  by (induction ps) (auto simp: live_outputs_def)

lemma all_utxos_sorted:
  "distinct (map fst ps) \<Longrightarrow> sorted_wrt (\<lambda>u v. seqNo u < seqNo v) (all_utxos a ps)"
  "distinct (map fst ps) \<Longrightarrow> set (all_utxos a ps) = {mk_output a n (Some m) | n m. (n, Some m) \<in> set ps}"
  using sorted_outputs_strict [OF distinct_live]
  by (auto simp: all_utxos_def live_outputs_def image_iff)

section \<open>Paging\<close>

lemma find_from_sorted:
  assumes "sorted_wrt (\<lambda>u v. seqNo u < seqNo v) us"
  shows "find_from us n = (if \<exists>u\<in>set us. n \<le> seqNo u then Some (length (filter (\<lambda>u. seqNo u < n) us)) else None)"
    "drop (length (filter (\<lambda>u. seqNo u < n) us)) us = filter (\<lambda>u. n \<le> seqNo u) us"
  using assms
proof (induction us)
  case (Cons u us)
  {
    case 1
    then show ?case using Cons.IH(1)
      by (auto simp: filter_empty_conv)
  next
    case 2
    show ?case
    proof (cases "n \<le> seqNo u")
      case True
      then have "\<forall>v\<in>set us. n \<le> seqNo v" using 2 by force
      then show ?thesis using True by (simp add: filter_empty_conv filter_id_conv not_less)
    qed (use 2 Cons.IH(2) in simp)
  }
qed simp_all

text \<open>The outputs on the page that starts at \<open>from\<close>, as the code computes them.\<close>

definition page_from :: "int \<Rightarrow> Output list \<Rightarrow> Output list" where
  "page_from n us = (if us = [] \<or> n \<le> seqNo (hd us) then [] else filter (\<lambda>u. n \<le> seqNo u) us)"

lemma select_from_sorted:
  assumes "sorted_wrt (\<lambda>u v. seqNo u < seqNo v) us" "n \<noteq> 0"
  shows "select_from (VInt n) us = Inr (page_from n us)"
proof (cases us)
  case (Cons u vs)
  then show ?thesis
    using find_from_sorted [OF assms(1), of n] assms(2)
    by (auto simp: select_from_def page_from_def filter_empty_conv)
qed (simp add: select_from_def page_from_def)

lemma page_from_nth:
  assumes "sorted_wrt (\<lambda>u v. seqNo u < seqNo v) us" "k < length us" "0 < k"
  shows "page_from (seqNo (us ! k)) us = drop k us"
proof -
  have us: "us = take k us @ us ! k # drop (Suc k) us" using assms(2) by (simp add: id_take_nth_drop)
  have "sorted_wrt (\<lambda>u v. seqNo u < seqNo v) (take k us @ us ! k # drop (Suc k) us)"
    using assms(1) us by simp
  then have "\<forall>u\<in>set (take k us). seqNo u < seqNo (us ! k)" "\<forall>u\<in>set (drop (Suc k) us). seqNo (us ! k) < seqNo u"
    by (auto simp: sorted_wrt_append)
  then have "filter (\<lambda>u. seqNo (us ! k) \<le> seqNo u) (take k us @ us ! k # drop (Suc k) us) =
      us ! k # drop (Suc k) us"
    by (simp add: filter_empty_conv not_le filter_id_conv less_imp_le)
  moreover have "\<not> seqNo (us ! k) \<le> seqNo (hd us)"
    using sorted_wrt_nth_less [OF assms(1), of 0 k] assms(2,3) by (cases us) auto
  ultimately show ?thesis
    using us assms(2) by (auto simp: page_from_def Cons_nth_drop_Suc)
qed

section \<open>Replies\<close>

definition from_of :: "'m read_request \<Rightarrow> 'm val" where
  "from_of req = (case rr_operation req FROM_SEQNO of None \<Rightarrow> VNone | Some v \<Rightarrow> v)"

text \<open>A request for the outputs of \<open>a\<close> whose operation has none of the keys of the reply.\<close>

definition asks_for :: "string \<Rightarrow> 'm read_request \<Rightarrow> bool" where
  "asks_for a req \<longleftrightarrow> rr_operation req ADDRESS = Some (VStr a) \<and>
     rr_operation req OUTPUTS = None \<and> rr_operation req NEXT_SEQNO = None"

lemma limit_next:
  "fst (limit_utxos us) = Some n \<Longrightarrow> \<exists>u\<in>set us. seqNo u = n"
  by (auto simp: limit_utxos_def split: if_splits)

lemma get_utxo_result_spec:
  assumes "asks_for a req" "holds_items (rlp_decode env) a ps (snd (prefix_proof env a))"
    and "select_from (from_of req) (all_utxos a ps) = Inr us" "\<forall>u\<in>set us. seqNo u \<noteq> 0"
  shows "\<exists>m. get_utxo_result env req = Inr m \<and> m OUTPUTS = Some (VOutputs (snd (limit_utxos us))) \<and>
    m NEXT_SEQNO = map_option VInt (fst (limit_utxos us))"
proof -
  have c: "collect_outputs (rlp_decode env) (snd (prefix_proof env a)) SortedItems_init =
      Inr (foldl (SortedItems_add less_than) SortedItems_init (live_outputs a ps))"
    using assms(2) by (intro collect_live) (auto simp: holds_items_def)
  have s: "select_from (case rr_operation req FROM_SEQNO of None \<Rightarrow> VNone | Some v \<Rightarrow> v)
      (sorted_list less_than (foldl (SortedItems_add less_than) SortedItems_init (live_outputs a ps))) = Inr us"
    using assms(3) by (simp add: from_of_def all_utxos_def sorted_items_def)
  have n: "fst (limit_utxos us) = Some k \<Longrightarrow> k \<noteq> 0" for k
    using limit_next [of us k] assms(4) by auto
  show ?thesis
    using assms(1) n
    by (simp add: get_utxo_result_def asks_for_def c s Let_def map_add_def split: option.splits)
qed

text \<open>A client that follows \<open>next\<close> from page to page, at most \<open>k\<close> times.\<close>

fun fetch_pages :: "nat \<Rightarrow> ('p, 'm) read_env \<Rightarrow> 'm read_request \<Rightarrow> (exn + Output list) option" where
  "fetch_pages 0 env req = None"
| "fetch_pages (Suc k) env req =
     (case get_utxo_result env req of
        Inl e \<Rightarrow> Some (Inl e)
      | Inr m \<Rightarrow>
          (case (m OUTPUTS, m NEXT_SEQNO) of
             (Some (VOutputs us), Some (VInt n)) \<Rightarrow>
               map_option (\<lambda>r. ebind r (\<lambda>rest. Inr (us @ rest)))
                 (fetch_pages k env (req\<lparr>rr_operation := (rr_operation req)(FROM_SEQNO \<mapsto> VInt n)\<rparr>))
           | (Some (VOutputs us), _) \<Rightarrow> Some (Inr us)
           | _ \<Rightarrow> Some (Inl PlainException)))"

lemma limit_utxos_cases:
  "length us \<le> UTXO_LIMIT \<Longrightarrow> limit_utxos us = (None, us)"
  "UTXO_LIMIT < length us \<Longrightarrow> limit_utxos us = (Some (seqNo (us ! UTXO_LIMIT)), take UTXO_LIMIT us)"
  by (simp_all add: limit_utxos_def)

lemma fetch_step:
  assumes "asks_for a req" "holds_items (rlp_decode env) a ps (snd (prefix_proof env a))"
    and "select_from (from_of req) (all_utxos a ps) = Inr us" "\<forall>u\<in>set us. seqNo u \<noteq> 0"
  shows "fetch_pages (Suc k) env req =
    (if length us \<le> UTXO_LIMIT then Some (Inr us)
     else map_option (\<lambda>r. ebind r (\<lambda>rest. Inr (take UTXO_LIMIT us @ rest)))
       (fetch_pages k env (req\<lparr>rr_operation := (rr_operation req)(FROM_SEQNO \<mapsto> VInt (seqNo (us ! UTXO_LIMIT)))\<rparr>)))"
  using get_utxo_result_spec [OF assms] by (auto simp: limit_utxos_cases not_le)

lemma asks_for_from [simp]:
  "asks_for a (req\<lparr>rr_operation := (rr_operation req)(FROM_SEQNO \<mapsto> v)\<rparr>) = asks_for a req"
  "from_of (req\<lparr>rr_operation := (rr_operation req)(FROM_SEQNO \<mapsto> v)\<rparr>) = v"
  by (simp_all add: asks_for_def from_of_def)

lemma fetch_pages_drop:
  assumes "asks_for a req" "holds_items (rlp_decode env) a ps (snd (prefix_proof env a))"
    and "select_from (from_of req) (all_utxos a ps) = Inr (drop i (all_utxos a ps))"
    and "\<forall>u\<in>set (all_utxos a ps). seqNo u \<noteq> 0" "length (all_utxos a ps) - i < k"
  shows "fetch_pages k env req = Some (Inr (drop i (all_utxos a ps)))"
  using assms(1,3,5)
proof (induction k arbitrary: i req)
  case (Suc k)
  let ?S = "all_utxos a ps" and ?j = "UTXO_LIMIT + i"
  let ?n = "seqNo (drop i ?S ! UTXO_LIMIT)"
  have nz: "\<forall>u\<in>set (drop i ?S). seqNo u \<noteq> 0" using assms(4) by (auto dest: in_set_dropD)
  note step = fetch_step [OF Suc.prems(1) assms(2) Suc.prems(2) nz, of k]
  show ?case
  proof (cases "length (drop i ?S) \<le> UTXO_LIMIT")
    case False
    then have j: "?j < length ?S" "0 < ?j" "?n = seqNo (?S ! ?j)" by (auto simp: UTXO_LIMIT_def add.commute)
    have sorted: "sorted_wrt (\<lambda>u v. seqNo u < seqNo v) ?S"
      using assms(2) by (intro all_utxos_sorted) (simp add: holds_items_def)
    have "?n \<noteq> 0" using assms(4) j by simp
    then have "select_from (VInt ?n) ?S = Inr (drop ?j ?S)"
      using page_from_nth [OF sorted j(1,2)] j(3) by (simp add: select_from_sorted [OF sorted])
    then have "fetch_pages k env (req\<lparr>rr_operation := (rr_operation req)(FROM_SEQNO \<mapsto> VInt ?n)\<rparr>) =
        Some (Inr (drop ?j ?S))"
      using Suc.prems(1,3) j by (intro Suc.IH) (simp_all add: UTXO_LIMIT_def)
    then show ?thesis
      using step False by (simp add: append_take_drop_id [of UTXO_LIMIT "drop i ?S", unfolded drop_drop])
  qed (use step in simp)
qed simp

section \<open>Properties\<close>

text \<open>\<open>SortedItems\<close> (the class over \<open>heapq\<close>) returns exactly the added outputs, in ascending order
  of their sequence numbers.\<close>

theorem sorted_items_sorts:
  "mset (sorted_items less_than us) = mset us \<and>
   sorted_wrt (\<lambda>u v. seqNo u \<le> seqNo v) (sorted_items less_than us)"
  using outs.sorted_items_correct [of us] by (simp add: less_than_def not_less)

lemma fetch_all:
  assumes "asks_for a req" "rr_operation req FROM_SEQNO = None"
    and "holds_items (rlp_decode env) a ps (snd (prefix_proof env a))" "\<And>m. (0, Some m) \<notin> set ps"
  shows "fetch_pages (Suc (length ps)) env req = Some (Inr (all_utxos a ps))"
    "sorted_wrt (\<lambda>u v. seqNo u < seqNo v) (all_utxos a ps)"
    "set (all_utxos a ps) = {mk_output a n (Some m) | n m. (n, Some m) \<in> set ps}"
proof -
  have d: "distinct (map fst ps)" using assms(3) by (simp add: holds_items_def)
  note S = all_utxos_sorted [OF d, of a]
  show "sorted_wrt (\<lambda>u v. seqNo u < seqNo v) (all_utxos a ps)"
    "set (all_utxos a ps) = {mk_output a n (Some m) | n m. (n, Some m) \<in> set ps}" by (rule S)+
  have nz: "\<forall>u\<in>set (all_utxos a ps). seqNo u \<noteq> 0" using S(2) assms(4) by force
  have "length (all_utxos a ps) = length (live_outputs a ps)"
    using outs.sorted_items_correct(1) [of "live_outputs a ps"] by (metis all_utxos_def size_mset)
  then have len: "length (all_utxos a ps) - 0 < Suc (length ps)"
    by (simp add: live_outputs_def le_imp_less_Suc)
  have "select_from (from_of req) (all_utxos a ps) = Inr (drop 0 (all_utxos a ps))"
    using assms(2) by (simp add: from_of_def select_from_def)
  from fetch_pages_drop [OF assms(1,3) this nz len]
  show "fetch_pages (Suc (length ps)) env req = Some (Inr (all_utxos a ps))" by simp
qed

text \<open>C25: For every state that holds one key per output of an address, a client that starts
  without \<open>from\<close> and follows \<open>next\<close> from page to page receives every unspent output of the
  address exactly once, in ascending order of the sequence numbers, and no spent one; the
  number of pages is at most one more than the number of outputs.\<close>

theorem get_utxo_pages_complete:
  assumes "asks_for a req" "rr_operation req FROM_SEQNO = None"
    and "holds_items (rlp_decode env) a ps (snd (prefix_proof env a))" "0 \<notin> fst ` set ps"
  shows "\<exists>us. fetch_pages (Suc (length ps)) env req = Some (Inr us) \<and>
    sorted_wrt (\<lambda>u v. seqNo u < seqNo v) us \<and>
    set us = {mk_output a n (Some m) | n m. (n, Some m) \<in> set ps}"
proof -
  have "(0, Some m) \<notin> set ps" for m using assms(4) by force
  from fetch_all [OF assms(1-3) this] show ?thesis by blast
qed

text \<open>C26: With a \<open>from\<close> above the first sequence number a page starts at the first output that is
  not below it; but with a positive \<open>from\<close> that is at most the first sequence number the
  reply is empty, although the address has unspent outputs (the index \<open>0\<close> is taken for
  \<open>None\<close>).\<close>

theorem get_utxo_from:
  assumes "asks_for a req" "rr_operation req FROM_SEQNO = Some (VInt n)" "n \<noteq> 0"
    and "holds_items (rlp_decode env) a ps (snd (prefix_proof env a))" "0 \<notin> fst ` set ps"
  shows "\<exists>m. get_utxo_result env req = Inr m \<and>
    m OUTPUTS = Some (VOutputs
      (if all_utxos a ps \<noteq> [] \<and> n \<le> seqNo (hd (all_utxos a ps)) then []
       else take UTXO_LIMIT (filter (\<lambda>u. n \<le> seqNo u) (all_utxos a ps))))"
proof -
  have d: "distinct (map fst ps)" using assms(4) by (simp add: holds_items_def)
  have s: "select_from (from_of req) (all_utxos a ps) = Inr (page_from n (all_utxos a ps))"
    using assms(2,3) all_utxos_sorted(1) [OF d, of a] by (simp add: from_of_def select_from_sorted)
  have "\<forall>u\<in>set (page_from n (all_utxos a ps)). seqNo u \<noteq> 0"
    using all_utxos_sorted(2) [OF d, of a] assms(5) by (force simp: page_from_def split: if_splits)
  from get_utxo_result_spec [OF assms(1,4) s this] show ?thesis
    by (auto simp: page_from_def limit_utxos_def not_less split: if_splits)
qed

text \<open>A state with two outputs and one spent output of version 1.0.0 at the address \<open>A\<close>.\<close>

definition ex_env :: "(unit, unit) read_env" where
  "ex_env = \<lparr>committed_root = ''r'',
     prefix_proof = (\<lambda>_. ((), [(''A:4'', ''7''), (''A:2'', ''5''), (''A:3'', '''')])),
     bls_get = (\<lambda>_. Some ()), ser_nodes = (\<lambda>_. ''p''), rlp_decode = (\<lambda>x. [x]),
     json_len = (\<lambda>_. 100), msg_limit = 200\<rparr>"

definition ex_get :: "unit read_request" where
  "ex_get = \<lparr>rr_identifier = ''I'', rr_reqId = 1, rr_operation = [ADDRESS \<mapsto> VStr ''A'']\<rparr>"

lemma ex_get_facts:
  "holds_items (rlp_decode ex_env) ''A'' [(4, Some 7), (2, Some 5), (3, None)] (snd (prefix_proof ex_env ''A''))"
  "asks_for ''A'' ex_get" "rr_operation ex_get FROM_SEQNO = None"
  by (simp add: holds_items_def ex_env_def item_text_def create_state_key_def, code_simp)
    (simp_all add: asks_for_def ex_get_def)

theorem get_utxo_pages_complete_witness:
  "\<exists>us. fetch_pages 4 ex_env ex_get = Some (Inr us) \<and> mk_output ''A'' 2 (Some 5) \<in> set us"
  using get_utxo_pages_complete [OF ex_get_facts(2,3,1)] by (fastforce simp: numeral_eq_Suc)

theorem get_utxo_from_witness:
  "\<exists>m. get_utxo_result ex_env (ex_get\<lparr>rr_operation := (rr_operation ex_get)(FROM_SEQNO \<mapsto> VInt 2)\<rparr>) = Inr m \<and>
    m OUTPUTS = Some (VOutputs [])"
proof -
  have "all_utxos ''A'' [(4, Some 7), (2, Some 5), (3, None)] =
      [mk_output ''A'' 2 (Some 5), mk_output ''A'' 4 (Some 7)]" by code_simp
  then show ?thesis
    using get_utxo_from [OF _ _ _ ex_get_facts(1), of
        "ex_get\<lparr>rr_operation := (rr_operation ex_get)(FROM_SEQNO \<mapsto> VInt 2)\<rparr>" 2] ex_get_facts(2)
    by simp
qed

end
