(* ===== verification/Fees_State.thy ===== *)
theory Fees_State
  imports Get_Utxo
begin

text \<open>
  The fees kept in the state of the config ledger: \<open>sovtokenfees/constants.py\<close>, \<open>transactions.py\<close>,
  \<open>domain.py\<close>, \<open>FeesStaticHelper\<close> of \<open>req_handlers/fees_utils.py\<close>, the handlers of SET_FEES and of
  GET_FEE and GET_FEES, and the authorisation rule of SET_FEES.

  The state has one key per alias and one key for the dictionary of all fees. \<open>fees_agree\<close> says
  that the two agree; \<open>SetFeesHandler.update_state\<close> keeps it for every alias but \<open>fees\<close>, whose key
  is the key of the dictionary.
\<close>

section \<open>Constants\<close>

definition FEES_PREFIX :: string where "FEES_PREFIX = ''2000''"
definition SET_FEES :: string where "SET_FEES = FEES_PREFIX @ ''0''"
definition GET_FEES :: string where "GET_FEES = FEES_PREFIX @ ''1''"
definition FEE_TXN :: string where "FEE_TXN = FEES_PREFIX @ ''2''"
definition GET_FEE :: string where "GET_FEE = FEES_PREFIX @ ''3''"

definition FEES_STATE_PREFIX :: string where "FEES_STATE_PREFIX = ''200''"
definition FEES_KEY_DELIMITER :: string where "FEES_KEY_DELIMITER = '':''"
definition FEES_KEY_FOR_ALL :: string where "FEES_KEY_FOR_ALL = ''fees''"
definition FEES_FIELD_NAME :: string where "FEES_FIELD_NAME = ''fees''"
definition FEES :: string where "FEES = ''fees''"
definition FEE_ALIAS_LENGTH :: nat where "FEE_ALIAS_LENGTH = 128"
definition MAX_FEE_OUTPUTS :: nat where "MAX_FEE_OUTPUTS = 1"

definition ACCEPTABLE_WRITE_TYPES_FEE :: "string set" where
  "ACCEPTABLE_WRITE_TYPES_FEE = {SET_FEES}"
definition ACCEPTABLE_QUERY_TYPES_FEE :: "string set" where
  "ACCEPTABLE_QUERY_TYPES_FEE = {GET_FEES, GET_FEE}"

lemmas fees_type_defs = FEES_PREFIX_def SET_FEES_def GET_FEES_def FEE_TXN_def GET_FEE_def

definition edit_fees :: auth_action where
  "edit_fees = AuthActionEdit SET_FEES ''*'' ''*'' ''*''"

definition three_trustee_constraint :: "string \<Rightarrow> role_constraint" where
  "three_trustee_constraint TRUSTEE = \<lparr>rc_role = TRUSTEE, rc_sig_count = 3\<rparr>"

definition sovtokenfees_auth_map :: "string \<Rightarrow> (auth_action \<times> role_constraint) list" where
  "sovtokenfees_auth_map TRUSTEE = [(edit_fees, three_trustee_constraint TRUSTEE)]"

section \<open>Keys and values\<close>

definition build_path_for_set_fees :: "string option \<Rightarrow> string" where
  "build_path_for_set_fees alias =
     (case alias of
        Some (c # cs) \<Rightarrow> join_with FEES_KEY_DELIMITER [FEES_STATE_PREFIX, c # cs]
      | _ \<Rightarrow> join_with FEES_KEY_DELIMITER [FEES_STATE_PREFIX, FEES_KEY_FOR_ALL])"

text \<open>What the state holds: the amount of one alias, or the dictionary of all of them.\<close>

type_synonym fees_dict = "(string \<times> int) list"

datatype fees_val = FeeAmount int | FeesDict fees_dict

text \<open>\<open>config_state_serializer\<close> is common code of plenum.\<close>

record fees_serializer =
  fs_serialize :: "fees_val \<Rightarrow> string"
  fs_deserialize :: "string \<Rightarrow> exn + fees_val"

text \<open>\<open>d.update(e)\<close>.\<close>

definition dict_update :: "fees_dict \<Rightarrow> fees_dict \<Rightarrow> fees_dict" where
  "dict_update d e = foldl (\<lambda>acc p. AList.update (fst p) (snd p) acc) d e"

section \<open>Reading fees\<close>

text \<open>\<open>get_fee_from_state\<close> without proof. A \<open>KeyError\<close> of the deserialiser is swallowed.\<close>

definition swallow_KeyError :: "exn + 'a option \<Rightarrow> exn + 'a option" where
  "swallow_KeyError r = (case r of Inl KeyError \<Rightarrow> Inr None | _ \<Rightarrow> r)"

definition read_fees :: "fees_serializer \<Rightarrow> string option \<Rightarrow> exn + fees_val option" where
  "read_fees fs serz =
     (case serz of
        Some (c # cs) \<Rightarrow> swallow_KeyError (ebind (fs_deserialize fs (c # cs)) (Inr \<circ> Some))
      | _ \<Rightarrow> Inr None)"

definition get_fee_from_state :: "'s state_store \<Rightarrow> fees_serializer \<Rightarrow> 's \<Rightarrow> string option \<Rightarrow> bool
    \<Rightarrow> exn + fees_val option" where
  "get_fee_from_state st fs state fees_alias is_committed =
     read_fees fs (st_get st state (build_path_for_set_fees fees_alias) is_committed)"

text \<open>With a proof: the state's proof generator, its value decoder, the serialisers and the BLS store
  are arguments. A \<open>KeyError\<close> leaves what was computed so far.\<close>

datatype ('p, 'm) fee_proof = NoProof | EmptyProof | RawProof 'p | FullProof 'm string string

record ('p, 'm) proof_env =
  pe_root :: "bool \<Rightarrow> string"
  pe_generate :: "string \<Rightarrow> string \<Rightarrow> exn + ('p \<times> string option)"
  pe_decoded :: "string \<Rightarrow> string"
  pe_encode_root :: "string \<Rightarrow> string"
  pe_bls_get :: "string \<Rightarrow> exn + 'm option"
  pe_encode_nodes :: "'p \<Rightarrow> string"

definition get_fee_with_proof :: "('p, 'm) proof_env \<Rightarrow> fees_serializer \<Rightarrow> string option \<Rightarrow> bool
    \<Rightarrow> exn + (fees_val option \<times> ('p, 'm) fee_proof)" where
  "get_fee_with_proof pe fs fees_alias is_committed =
     (let root_hash = pe_root pe is_committed in
      case pe_generate pe (build_path_for_set_fees fees_alias) root_hash of
        Inl KeyError \<Rightarrow> Inr (None, NoProof)
      | Inl e \<Rightarrow> Inl e
      | Inr (p, serz) \<Rightarrow>
          (let serz = (case serz of Some (c # cs) \<Rightarrow> Some (pe_decoded pe (c # cs)) | _ \<Rightarrow> serz) in
           case pe_bls_get pe (pe_encode_root pe root_hash) of
             Inl KeyError \<Rightarrow> Inr (None, RawProof p)
           | Inl e \<Rightarrow> Inl e
           | Inr multi_sig \<Rightarrow>
               (let proof = (case multi_sig of
                      Some m \<Rightarrow> FullProof m (pe_encode_root pe root_hash) (pe_encode_nodes pe p)
                    | None \<Rightarrow> EmptyProof) in
                ebind (read_fees fs serz) (\<lambda>fees. Inr (fees, proof)))))"

definition proof_true :: "('p, 'm) fee_proof \<Rightarrow> bool" where
  "proof_true p = (case p of NoProof \<Rightarrow> False | EmptyProof \<Rightarrow> False | _ \<Rightarrow> True)"

text \<open>The replies: the values under \<open>fee\<close> or \<open>fees\<close> and \<open>state_proof\<close>, overwritten by the entries of
  the operation.\<close>

datatype ('p, 'm) fee_item = FIText string | FIInt int | FIFees "fees_val option" | FIProof "('p, 'm) fee_proof"

record ('p, 'm) fee_request =
  fr_identifier :: string
  fr_reqId :: int
  fr_operation :: "string \<rightharpoonup> ('p, 'm) fee_item"

definition fee_reply :: "('p, 'm) fee_request \<Rightarrow> string \<Rightarrow> fees_val option \<Rightarrow> ('p, 'm) fee_proof
    \<Rightarrow> string \<rightharpoonup> ('p, 'm) fee_item" where
  "fee_reply request field fees proof =
     (let result = [''identifier'' \<mapsto> FIText (fr_identifier request),
                    ''reqId'' \<mapsto> FIInt (fr_reqId request), field \<mapsto> FIFees fees];
          result = (if proof_true proof then result(''state_proof'' \<mapsto> FIProof proof) else result)
      in result ++ fr_operation request)"

definition get_fee_result :: "('p, 'm) proof_env \<Rightarrow> fees_serializer \<Rightarrow> ('p, 'm) fee_request
    \<Rightarrow> exn + (string \<rightharpoonup> ('p, 'm) fee_item)" where
  "get_fee_result pe fs request =
     (let alias = (case fr_operation request ''alias'' of Some (FIText a) \<Rightarrow> Some a | _ \<Rightarrow> None) in
      ebind (get_fee_with_proof pe fs alias True) (\<lambda>(fee, proof).
      Inr (fee_reply request ''fee'' fee proof)))"

text \<open>\<open>GetFeesHandler.get_fees\<close>: no fees are the empty dictionary.\<close>

definition get_fees :: "'s state_store \<Rightarrow> fees_serializer \<Rightarrow> 's \<Rightarrow> bool \<Rightarrow> exn + fees_val" where
  "get_fees st fs state is_committed =
     ebind (get_fee_from_state st fs state None is_committed) (\<lambda>result.
     Inr (case result of Some fees \<Rightarrow> fees | None \<Rightarrow> FeesDict []))"

definition get_fees_with_proof :: "('p, 'm) proof_env \<Rightarrow> fees_serializer \<Rightarrow> bool
    \<Rightarrow> exn + (fees_val \<times> ('p, 'm) fee_proof)" where
  "get_fees_with_proof pe fs is_committed =
     ebind (get_fee_with_proof pe fs None is_committed) (\<lambda>(fees, proof).
     Inr (case fees of Some f \<Rightarrow> f | None \<Rightarrow> FeesDict [], proof))"

definition get_fees_result :: "('p, 'm) proof_env \<Rightarrow> fees_serializer \<Rightarrow> ('p, 'm) fee_request
    \<Rightarrow> exn + (string \<rightharpoonup> ('p, 'm) fee_item)" where
  "get_fees_result pe fs request =
     ebind (get_fees_with_proof pe fs True) (\<lambda>(fees, proof).
     Inr (fee_reply request ''fees'' (Some fees) proof))"

section \<open>Writing fees\<close>

definition set_to_state :: "'s state_store \<Rightarrow> fees_serializer \<Rightarrow> string \<Rightarrow> fees_val \<Rightarrow> 's \<Rightarrow> 's" where
  "set_to_state st fs key val state = st_set st state key (fs_serialize fs val)"

text \<open>\<open>current_fees if current_fees else {}\<close>; only a dictionary has \<open>update\<close>.\<close>

definition current_dict :: "fees_val option \<Rightarrow> exn + fees_dict" where
  "current_dict fees = (case fees of
     None \<Rightarrow> Inr [] | Some (FeesDict d) \<Rightarrow> Inr d
   | Some (FeeAmount n) \<Rightarrow> if n = 0 then Inr [] else Inl AttributeError)"

text \<open>\<open>SetFeesHandler.update_state\<close>; \<open>fees_from_req\<close> is \<open>payload[FEES]\<close>.\<close>

definition set_fees_update_state :: "'s state_store \<Rightarrow> fees_serializer \<Rightarrow> fees_dict \<Rightarrow> 's \<Rightarrow> exn + 's" where
  "set_fees_update_state st fs fees_from_req state =
     ebind (ebind (get_fee_from_state st fs state None False) current_dict) (\<lambda>current_fees.
     let current_fees = dict_update current_fees fees_from_req;
         state = foldl (\<lambda>s p. set_to_state st fs (build_path_for_set_fees (Some (fst p))) (FeeAmount (snd p)) s)
           state fees_from_req
     in Inr (set_to_state st fs (build_path_for_set_fees None) (FeesDict current_fees) state))"

text \<open>\<open>SetFeesHandler093.update_state\<close>.\<close>

definition set_fees_093_update_state :: "'s state_store \<Rightarrow> fees_serializer \<Rightarrow> fees_dict \<Rightarrow> 's \<Rightarrow> exn + 's" where
  "set_fees_093_update_state st fs fees_from_req state =
     ebind (ebind (get_fee_from_state st fs state None False) current_dict) (\<lambda>current_fees.
     Inr (set_to_state st fs ''fees'' (FeesDict (dict_update current_fees fees_from_req)) state))"

text \<open>\<open>static_validation\<close> of SET_FEES and GET_FEE: the message class is plenum's \<open>MessageBase\<close> over the
  schema of the repository; a \<open>TypeError\<close> of its constructor becomes \<open>InvalidClientRequest\<close>.\<close>

definition msg_static_validation :: "exn + unit \<Rightarrow> exn + unit" where
  "msg_static_validation build = (case build of Inl TypeError \<Rightarrow> Inl InvalidClientRequest | r \<Rightarrow> r)"

definition set_fees_dynamic_validation :: "(request \<Rightarrow> auth_action \<Rightarrow> exn + unit) \<Rightarrow> request \<Rightarrow> exn + unit" where
  "set_fees_dynamic_validation validate req = validate req (AuthActionEdit SET_FEES ''*'' ''*'' ''*'')"

section \<open>Keys\<close>

lemma build_path_eq:
  "build_path_for_set_fees None = ''200:fees''"
  "a \<noteq> [] \<Longrightarrow> build_path_for_set_fees (Some a) = ''200:'' @ a"
  by (cases a; simp add: build_path_for_set_fees_def FEES_KEY_DELIMITER_def FEES_STATE_PREFIX_def
      FEES_KEY_FOR_ALL_def)+

lemma build_path_inject [key_simps]:
  "a \<noteq> [] \<Longrightarrow> b \<noteq> [] \<Longrightarrow> build_path_for_set_fees (Some a) = build_path_for_set_fees (Some b) \<longleftrightarrow> a = b"
  "a \<noteq> [] \<Longrightarrow> build_path_for_set_fees (Some a) = build_path_for_set_fees None \<longleftrightarrow> a = ''fees''"
  by (simp_all add: build_path_eq)

lemma build_path_other [key_simps]: "build_path_for_set_fees alias \<noteq> ''fees''"
  by (cases "alias"; cases "the alias")
    (auto simp: build_path_for_set_fees_def FEES_KEY_DELIMITER_def FEES_STATE_PREFIX_def FEES_KEY_FOR_ALL_def)

lemma map_of_dict_update: "distinct (map fst e) \<Longrightarrow> map_of (dict_update d e) = map_of d ++ map_of e"
proof (induction e arbitrary: d)
  case (Cons p e)
  then have "map_of e (fst p) = None" by (auto simp: map_of_eq_None_iff)
  with Cons show ?case by (cases p) (auto simp: dict_update_def update_conv' fun_eq_iff map_add_def split: option.splits)
qed (simp add: dict_update_def)

section \<open>The store of fees\<close>

text \<open>What the serialiser promises: every value is read back, and none is the empty text.\<close>

locale fees_codec =
  fixes fs :: fees_serializer
  assumes deserialize_serialize: "fs_deserialize fs (fs_serialize fs v) = Inr v"
    and serialize_nonempty: "fs_serialize fs v \<noteq> []"
begin

lemma read_serialized [simp]: "read_fees fs (Some (fs_serialize fs v)) = Inr (Some v)"
  using serialize_nonempty [of v] deserialize_serialize [of v]
  by (cases "fs_serialize fs v") (auto simp: read_fees_def swallow_KeyError_def)

end

locale fees_store = state_map_store st + fees_codec fs
  for st :: "'s state_store" and fs :: fees_serializer
begin

lemma get_after_set:
  "get_fee_from_state st fs (set_to_state st fs k v s) alias False =
    (if build_path_for_set_fees alias = k then Inr (Some v) else get_fee_from_state st fs s alias False)"
  by (simp add: get_fee_from_state_def set_to_state_def st_get_set)

lemma get_after_sets:
  assumes "distinct (map fst F)" "[] \<notin> fst ` set F" "a \<noteq> []"
  shows "get_fee_from_state st fs
      (foldl (\<lambda>s p. set_to_state st fs (build_path_for_set_fees (Some (fst p))) (FeeAmount (snd p)) s) s F)
      (Some a) False =
    (case map_of F a of Some v \<Rightarrow> Inr (Some (FeeAmount v)) | None \<Rightarrow> get_fee_from_state st fs s (Some a) False)"
  using assms(1,2)
proof (induction F arbitrary: s)
  case (Cons p F)
  then have "map_of F (fst p) = None" by (auto simp: map_of_eq_None_iff)
  with Cons show ?case
    using assms(3) by (cases p) (auto simp: get_after_set build_path_inject split: option.splits)
qed simp

lemma set_fees_spec:
  assumes "get_fee_from_state st fs s None False = Inr fees" "current_dict fees = Inr d"
    and "distinct (map fst F)" "[] \<notin> fst ` set F"
  shows "\<exists>s'. set_fees_update_state st fs F s = Inr s' \<and>
    get_fee_from_state st fs s' None False = Inr (Some (FeesDict (dict_update d F))) \<and>
    (\<forall>a. a \<noteq> [] \<and> a \<noteq> ''fees'' \<longrightarrow> get_fee_from_state st fs s' (Some a) False =
      (case map_of F a of Some v \<Rightarrow> Inr (Some (FeeAmount v)) | None \<Rightarrow> get_fee_from_state st fs s (Some a) False))"
  using assms(1,2) get_after_sets [OF assms(3,4)]
  by (auto simp: set_fees_update_state_def get_after_set build_path_inject)

end

text \<open>A serialiser with these properties, and the store over it.\<close>

definition enc_val :: "fees_val \<Rightarrow> string" where
  "enc_val v = (case v of
     FeeAmount n \<Rightarrow> CHR ''a'' # py_str n
   | FeesDict d \<Rightarrow> CHR ''d'' # enc_head (map (\<lambda>p. (fst p, py_str (snd p))) d))"

fun dec_texts :: "string \<Rightarrow> string \<Rightarrow> string list" where
  "dec_texts acc [] = []"
| "dec_texts acc [m] = [acc]"
| "dec_texts acc (m # c # r) =
     (if m = CHR ''.'' then acc # dec_texts [] (c # r) else dec_texts (acc @ [c]) r)"

fun dec_dict :: "string list \<Rightarrow> fees_dict" where
  "dec_dict (k # v # r) = (k, case py_int v of Some n \<Rightarrow> n | None \<Rightarrow> 0) # dec_dict r"
| "dec_dict _ = []"

fun dec_val :: "string \<Rightarrow> exn + fees_val" where
  "dec_val [] = Inl ValueError"
| "dec_val (c # r) =
     (if c = CHR ''a'' then (case py_int r of Some n \<Rightarrow> Inr (FeeAmount n) | None \<Rightarrow> Inl ValueError)
      else Inr (FeesDict (dec_dict (dec_texts [] r))))"

lemma dec_texts_enc: "dec_texts acc (enc_text s @ r) = (acc @ s) # dec_texts [] r"
proof (induction s arbitrary: acc)
  case Nil
  then show ?case by (cases r) (simp_all add: enc_text_def)
qed (simp add: enc_text_def)

lemma dec_dict_enc:
  "dec_dict (dec_texts [] (enc_head (map (\<lambda>p. (fst p, py_str (snd p))) d))) = d"
proof (induction d)
  case (Cons p d)
  then show ?case by (cases p) (simp add: enc_head_def dec_texts_enc)
qed (simp add: enc_head_def)

definition ref_fs :: fees_serializer where
  "ref_fs = \<lparr>fs_serialize = enc_val, fs_deserialize = dec_val\<rparr>"

interpretation ref_fees: fees_store ms_store ref_fs
  by unfold_locales (auto simp: ref_fs_def enc_val_def dec_dict_enc split: fees_val.splits)

section \<open>Agreement of the two representations\<close>

definition fees_agree :: "'s state_store \<Rightarrow> fees_serializer \<Rightarrow> 's \<Rightarrow> fees_dict \<Rightarrow> bool" where
  "fees_agree st fs s d \<longleftrightarrow> get_fees st fs s False = Inr (FeesDict d) \<and>
     (\<forall>a. a \<noteq> [] \<and> a \<noteq> ''fees'' \<longrightarrow>
        get_fee_from_state st fs s (Some a) False = Inr (map_option FeeAmount (map_of d a)))"

lemma fees_agree_current:
  assumes "fees_agree st fs s d"
  shows "\<exists>fees. get_fee_from_state st fs s None False = Inr fees \<and> current_dict fees = Inr d"
proof -
  from assms obtain fees where fees: "get_fee_from_state st fs s None False = Inr fees"
    "(case fees of Some f \<Rightarrow> f | None \<Rightarrow> FeesDict []) = FeesDict d"
    unfolding fees_agree_def get_fees_def ebind_Inr_iff by blast
  then have "current_dict fees = Inr d" by (cases fees) (simp_all add: current_dict_def)
  with fees(1) show ?thesis by blast
qed

lemma ms_empty_fees: "fees_agree ms_store ref_fs ms_empty []"
  by (simp add: fees_agree_def get_fees_def get_fee_from_state_def read_fees_def ms_store_def ms_empty_def)

section \<open>Properties\<close>

text \<open>C28: SET_FEES keeps the two representations of the fees in agreement: it succeeds, the dictionary
  afterwards has the new amounts and the old ones of the aliases that were not set, and every
  alias other than \<open>fees\<close> reads the same from its own key as from the dictionary.\<close>

theorem set_fees_keeps_agreement:
  assumes "state_map_store st" "fees_codec fs" "fees_agree st fs s d"
    and "distinct (map fst F)" "[] \<notin> fst ` set F"
  shows "\<exists>s' d'. set_fees_update_state st fs F s = Inr s' \<and> fees_agree st fs s' d' \<and>
    map_of d' = map_of d ++ map_of F"
proof -
  obtain fees where fees: "get_fee_from_state st fs s None False = Inr fees" "current_dict fees = Inr d"
    using fees_agree_current [OF assms(3)] by blast
  have "fees_store st fs" using assms(1,2) by (simp add: fees_store_def)
  from fees_store.set_fees_spec [OF this fees assms(4,5)]
  obtain s' where s': "set_fees_update_state st fs F s = Inr s'"
    "get_fee_from_state st fs s' None False = Inr (Some (FeesDict (dict_update d F)))"
    "\<And>a. a \<noteq> [] \<Longrightarrow> a \<noteq> ''fees'' \<Longrightarrow> get_fee_from_state st fs s' (Some a) False =
      (case map_of F a of Some v \<Rightarrow> Inr (Some (FeeAmount v)) | None \<Rightarrow> get_fee_from_state st fs s (Some a) False)"
    by auto
  have "fees_agree st fs s' (dict_update d F)"
    using s'(2,3) assms(3) map_of_dict_update [OF assms(4), of d]
    by (auto simp: fees_agree_def get_fees_def map_add_def split: option.splits)
  then show ?thesis using s'(1) map_of_dict_update [OF assms(4), of d] by blast
qed

theorem set_fees_keeps_agreement_witness:
  "\<exists>s' d'. set_fees_update_state ms_store ref_fs [(''nym'', 4)] ms_empty = Inr s' \<and>
    fees_agree ms_store ref_fs s' d' \<and> map_of d' ''nym'' = Some 4"
  using set_fees_keeps_agreement [OF ms.state_map_store_axioms ref_fees.fees_codec_axioms ms_empty_fees,
      of "[(''nym'', 4)]"] by fastforce

text \<open>C29: The alias \<open>fees\<close> is lost: its key is the key of the dictionary of all fees, so that after
  SET_FEES with this alias GET_FEE reads the whole dictionary instead of the amount.\<close>

theorem set_fees_alias_collision:
  assumes "state_map_store st" "fees_codec fs" "fees_agree st fs s d"
  shows "\<exists>s'. set_fees_update_state st fs [(''fees'', v)] s = Inr s' \<and>
    get_fee_from_state st fs s' (Some ''fees'') False = Inr (Some (FeesDict (dict_update d [(''fees'', v)])))"
proof -
  obtain fees where fees: "get_fee_from_state st fs s None False = Inr fees" "current_dict fees = Inr d"
    using fees_agree_current [OF assms(3)] by blast
  have fst: "fees_store st fs" using assms(1,2) by (simp add: fees_store_def)
  have "build_path_for_set_fees (Some ''fees'') = build_path_for_set_fees None"
    by (simp add: build_path_eq)
  then show ?thesis
    using fees_store.set_fees_spec [OF fst fees, of "[(''fees'', v)]"]
    by (auto simp: get_fee_from_state_def)
qed

theorem set_fees_alias_collision_witness:
  "\<exists>s'. set_fees_update_state ms_store ref_fs [(''fees'', 4)] ms_empty = Inr s' \<and>
    get_fee_from_state ms_store ref_fs s' (Some ''fees'') False \<noteq> Inr (Some (FeeAmount 4))"
  using set_fees_alias_collision [OF ms.state_map_store_axioms ref_fees.fees_codec_axioms ms_empty_fees, of 4]
  by auto

text \<open>The handler that replays SET_FEES of version 0.9.3 writes only its own key: what the current
  version reads, for every alias and for the dictionary, is unchanged.\<close>

theorem set_fees_093_separate:
  assumes "state_map_store st" "fees_codec fs" "fees_agree st fs s d"
  shows "\<exists>s'. set_fees_093_update_state st fs F s = Inr s' \<and>
    st_get st s' ''fees'' False = Some (fs_serialize fs (FeesDict (dict_update d F))) \<and>
    (\<forall>alias. get_fee_from_state st fs s' alias False = get_fee_from_state st fs s alias False)"
proof -
  obtain fees where fees: "get_fee_from_state st fs s None False = Inr fees" "current_dict fees = Inr d"
    using fees_agree_current [OF assms(3)] by blast
  have "fees_store st fs" using assms(1,2) by (simp add: fees_store_def)
  then show ?thesis
    using fees build_path_other state_map_store.st_get_set [OF assms(1)]
    by (simp add: set_fees_093_update_state_def fees_store.get_after_set) (simp add: set_to_state_def)
qed

theorem set_fees_093_separate_witness:
  "\<exists>s'. set_fees_093_update_state ms_store ref_fs [(''nym'', 4)] ms_empty = Inr s' \<and>
    get_fee_from_state ms_store ref_fs s' (Some ''nym'') False = get_fee_from_state ms_store ref_fs ms_empty (Some ''nym'') False"
  using set_fees_093_separate [OF ms.state_map_store_axioms ref_fees.fees_codec_axioms ms_empty_fees, of "[(''nym'', 4)]"]
  by auto

end
