(* ===== verification/PyJson.thy ===== *)
theory PyJson
  imports PyText
begin

text \<open>
  The values of a client's message after JSON decoding, with the Python operations that the
  validators use on them: truth value, \<open>len\<close>, \<open>isinstance\<close>, subscription of a dictionary.
\<close>

datatype jval = JNone | JBool bool | JInt int | JStr string | JList "jval list"
  | JMap "(string \<times> jval) list"

fun j_true :: "jval \<Rightarrow> bool" where
  "j_true JNone = False"
| "j_true (JBool b) = b"
| "j_true (JInt i) = (i \<noteq> 0)"
| "j_true (JStr s) = (s \<noteq> [])"
| "j_true (JList xs) = (xs \<noteq> [])"
| "j_true (JMap m) = (m \<noteq> [])"

fun j_len :: "jval \<Rightarrow> exn + nat" where
  "j_len (JStr s) = Inr (py_len s)"
| "j_len (JList xs) = Inr (length xs)"
| "j_len (JMap m) = Inr (length m)"
| "j_len _ = Inl TypeError"

text \<open>\<open>v[k]\<close> for a text \<open>k\<close>: only dictionaries have such subscripts. A JSON object has each key once,
  the last occurrence in the text.\<close>

fun j_get :: "jval \<Rightarrow> string \<Rightarrow> exn + jval" where
  "j_get (JMap m) k = (case map_of m k of None \<Rightarrow> Inl KeyError | Some v \<Rightarrow> Inr v)"
| "j_get _ k = Inl TypeError"

text \<open>\<open>True == 1\<close> and \<open>False == 0\<close>, also as members of a set.\<close>

fun j_num :: "jval \<Rightarrow> jval" where
  "j_num (JBool b) = JInt (if b then 1 else 0)"
| "j_num v = v"

text \<open>The name of a value's class.\<close>

fun j_type :: "jval \<Rightarrow> string" where
  "j_type JNone = ''NoneType''"
| "j_type (JBool b) = ''bool''"
| "j_type (JInt i) = ''int''"
| "j_type (JStr s) = ''str''"
| "j_type (JList xs) = ''list''"
| "j_type (JMap m) = ''dict''"

lemma j_get_Inr_iff: "j_get v k = Inr x \<longleftrightarrow> (\<exists>m. v = JMap m \<and> map_of m k = Some x)"
  by (cases v) (auto split: option.splits)

lemma j_type_iff:
  "j_type v = ''int'' \<longleftrightarrow> (\<exists>i. v = JInt i)" "j_type v = ''str'' \<longleftrightarrow> (\<exists>s. v = JStr s)"
  "j_type v = ''list'' \<longleftrightarrow> (\<exists>xs. v = JList xs)" "j_type v = ''dict'' \<longleftrightarrow> (\<exists>m. v = JMap m)"
  by (cases v; simp)+

lemma j_len_Inr_iff:
  "j_len v = Inr n \<longleftrightarrow> (\<exists>s. v = JStr s \<and> n = py_len s) \<or> (\<exists>xs. v = JList xs \<and> n = length xs) \<or>
    (\<exists>m. v = JMap m \<and> n = length m)"
  by (cases v) auto

section \<open>Validation results\<close>

text \<open>A validator returns an error text or \<open>None\<close>, or raises. The callers test the truth of the
  result, so that an empty text counts as no error.\<close>

type_synonym vres = "exn + string option"

definition no_error :: "string option \<Rightarrow> bool" where
  "no_error r \<longleftrightarrow> r = None \<or> r = Some []"

definition accepts :: "vres \<Rightarrow> bool" where
  "accepts r \<longleftrightarrow> r = Inr None \<or> r = Inr (Some [])"

lemma accepts_simps [simp]:
  "accepts (Inr None)" "\<not> accepts (Inl e)" "accepts (Inr (Some s)) \<longleftrightarrow> s = []"
  by (auto simp: accepts_def)

lemma no_error_simps [simp]: "no_error None" "no_error (Some s) \<longleftrightarrow> s = []"
  by (auto simp: no_error_def)

text \<open>\<open>error = r; if error: return prefix + error\<close>, then the rest.\<close>

definition vthen :: "vres \<Rightarrow> string \<Rightarrow> vres \<Rightarrow> vres" where
  "vthen r prefix rest = ebind r (\<lambda>error. case error of
     Some (c # cs) \<Rightarrow> Inr (Some (prefix @ c # cs)) | _ \<Rightarrow> rest)"

lemma accepts_vthen [simp]: "accepts (vthen r prefix rest) \<longleftrightarrow> accepts r \<and> accepts rest"
  by (cases r) (auto simp: vthen_def accepts_def split: option.splits list.splits)

lemma accepts_ebind: "accepts (ebind r k) \<longleftrightarrow> (\<exists>a. r = Inr a \<and> accepts (k a))"
  by (cases r) auto

end
