(* ===== verification/Fees_Authorizer.thy ===== *)
theory Fees_Authorizer
  imports Fees_State PyJson
begin

text \<open>
  \<open>FeesAuthorizer\<close> (\<open>sovtokenfees/fees_authorizer.py\<close>): whether a request pays exactly the fee that the
  authorisation rule's alias has in the config state. The main lemma \<open>authorize_spec\<close> gives the decision in
  closed form; the properties follow for transfers, whose fee is part of the operation, and for
  all other requests, whose fee is the attribute \<open>fees\<close>.

  \<open>AuthRuleFeeHandler\<close> and \<open>AuthRulesFeeHandler\<close>, which refuse authorisation rules with unknown
  aliases, are at the end.
\<close>

section \<open>Fees of a request\<close>

definition has_fees :: "request \<Rightarrow> bool" where
  "has_fees req \<longleftrightarrow> req_fees req \<noteq> FeesAbsent \<and> req_fees req \<noteq> FeesNone"

text \<open>\<open>request.fees[0]\<close>.\<close>

definition fees_inputs :: "request \<Rightarrow> exn + input list" where
  "fees_inputs req = (case req_fees req of
     FeesAbsent \<Rightarrow> Inl AttributeError | FeesNone \<Rightarrow> Inl TypeError
   | Fees1 ins \<Rightarrow> Inr ins | Fees2 ins outs \<Rightarrow> Inr ins | Fees3 ins outs sigs \<Rightarrow> Inr ins)"

definition get_change_for_fees :: "request \<Rightarrow> exn + payout list" where
  "get_change_for_fees req = (case req_fees req of
     FeesAbsent \<Rightarrow> Inl AttributeError | FeesNone \<Rightarrow> Inl TypeError
   | Fees1 ins \<Rightarrow> Inr [] | Fees2 ins outs \<Rightarrow> Inr outs | Fees3 ins outs sigs \<Rightarrow> Inr outs)"

definition calculate_fees_from_req :: "'c kv_store \<Rightarrow> request \<Rightarrow> 'c \<Rightarrow> exn + int" where
  "calculate_fees_from_req kv req cache =
     (let from_fees = (req_fees req \<noteq> FeesAbsent) in
      ebind (if from_fees then fees_inputs req else dict_get (op_inputs (req_operation req))) (\<lambda>inputs.
      ebind (if from_fees then get_change_for_fees req else dict_get (op_outputs (req_operation req))) (\<lambda>outs.
      case sum_inputs kv inputs False cache of
        Inl e \<Rightarrow> Inr 0
      | Inr sum_in \<Rightarrow> Inr (sum_in - sum_list (map pay_amount outs)))))"

section \<open>The decision\<close>

definition validate_fees_can_pay :: "'c kv_store \<Rightarrow> input list \<Rightarrow> payout list \<Rightarrow> int \<Rightarrow> 'c \<Rightarrow> exn + unit" where
  "validate_fees_can_pay kv inputs outs required_fees cache =
     (case sum_inputs kv inputs False cache of
        Inl e \<Rightarrow> Inl (if is_UTXOError e then InvalidFundsError else UnauthorizedClientRequest)
      | Inr sum_in \<Rightarrow>
          (let change_amount = sum_list (map pay_amount outs);
               expected_amount = change_amount + required_fees
           in validate_given_inputs_outputs sum_in change_amount expected_amount))"

definition can_pay_fees_or_raise :: "'c kv_store \<Rightarrow> request \<Rightarrow> int \<Rightarrow> 'c \<Rightarrow> exn + unit" where
  "can_pay_fees_or_raise kv req required_fees cache =
     (if op_type (req_operation req) = XFER_PUBLIC
      then ebind (dict_get (op_inputs (req_operation req))) (\<lambda>inputs.
        ebind (dict_get (op_outputs (req_operation req))) (\<lambda>outs.
        validate_fees_can_pay kv inputs outs required_fees cache))
      else ebind (fees_inputs req) (\<lambda>inputs.
        ebind (get_change_for_fees req) (\<lambda>outs.
        validate_fees_can_pay kv inputs outs required_fees cache)))"

text \<open>\<open>str(e)\<close> is an argument.\<close>

definition can_pay_fees :: "'c kv_store \<Rightarrow> (exn \<Rightarrow> string) \<Rightarrow> request \<Rightarrow> int \<Rightarrow> 'c \<Rightarrow> exn + (bool \<times> string)" where
  "can_pay_fees kv str_ex req required_fees cache =
     (case can_pay_fees_or_raise kv req required_fees cache of
        Inl e \<Rightarrow> if is_InvalidClientMessage e \<or> e = UnauthorizedClientRequest then Inr (False, str_ex e) else Inl e
      | Inr _ \<Rightarrow> Inr (True, []))"

text \<open>The metadata of an authorisation constraint: a dictionary that may be \<open>None\<close> or empty.\<close>

type_synonym metadata = "(string \<times> string) list option"

definition get_fees_alias_from_constraint :: "metadata \<Rightarrow> string option" where
  "get_fees_alias_from_constraint md =
     (case md of None \<Rightarrow> None | Some m \<Rightarrow> if m = [] then None else map_of m FEES_FIELD_NAME)"

definition get_fees_from_state :: "'s state_store \<Rightarrow> fees_serializer \<Rightarrow> 's \<Rightarrow> exn + fees_val" where
  "get_fees_from_state st fs config_state =
     (case st_get st config_state (build_path_for_set_fees None) False of
        Some (c # cs) \<Rightarrow> fs_deserialize fs (c # cs)
      | _ \<Rightarrow> Inr (FeesDict []))"

text \<open>\<open>fees.get(alias, 0)\<close>.\<close>

definition fees_get :: "fees_val \<Rightarrow> string option \<Rightarrow> exn + int" where
  "fees_get fees alias = (case fees of
     FeesDict d \<Rightarrow> Inr (case alias of None \<Rightarrow> 0 | Some a \<Rightarrow> (case map_of d a of None \<Rightarrow> 0 | Some n \<Rightarrow> n))
   | FeeAmount _ \<Rightarrow> Inl AttributeError)"

definition authorize :: "'s state_store \<Rightarrow> fees_serializer \<Rightarrow> 'c kv_store \<Rightarrow> (exn \<Rightarrow> string) \<Rightarrow> request
    \<Rightarrow> metadata \<Rightarrow> 's \<Rightarrow> 'c \<Rightarrow> exn + (bool \<times> string)" where
  "authorize st fs kv str_ex req md config_state cache =
     (let fees_alias = get_fees_alias_from_constraint md in
      ebind (get_fees_from_state st fs config_state) (\<lambda>fees.
      ebind (fees_get fees fees_alias) (\<lambda>fees_amount.
      let is_fees_required = fees_amount > 0;
          pay = can_pay_fees kv str_ex req fees_amount cache in
      if op_type (req_operation req) \<noteq> XFER_PUBLIC
      then if is_fees_required \<and> \<not> has_fees req
        then Inr (False, ''Fees are required for this txn type'')
        else if \<not> is_fees_required \<and> has_fees req
        then ebind (calculate_fees_from_req kv req cache) (\<lambda>calculated.
          if calculated > 0 then Inr (False, ''Fees are not required for this txn type'') else pay)
        else if \<not> is_fees_required \<and> \<not> has_fees req then Inr (True, [])
        else pay
      else pay)))"

section \<open>The decision in closed form\<close>

text \<open>The inputs are unspent and worth exactly the outputs and the fee; an input that is named twice
  counts once.\<close>

definition pays_exactly :: "utxos \<Rightarrow> input list \<Rightarrow> payout list \<Rightarrow> int \<Rightarrow> bool" where
  "pays_exactly U ins outs fee \<longleftrightarrow>
     (\<forall>i\<in>set ins. unspent U i) \<and> sum (input_amount U) (set ins) = payouts_total outs + fee"

text \<open>The inputs and outputs that carry the fee of a request.\<close>

definition fee_parts :: "request \<Rightarrow> input list \<Rightarrow> payout list \<Rightarrow> bool" where
  "fee_parts req ins outs \<longleftrightarrow>
     (if op_type (req_operation req) = XFER_PUBLIC
      then op_inputs (req_operation req) = Some ins \<and> op_outputs (req_operation req) = Some outs
      else fees_inputs req = Inr ins \<and> get_change_for_fees req = Inr outs)"

lemma validate_fees_spec:
  assumes "cache_wf kv False c"
  shows "validate_fees_can_pay kv ins outs fee c =
    (if pays_exactly (cache_utxos kv False c) ins outs fee then Inr ()
     else if \<exists>i\<in>set ins. \<not> unspent (cache_utxos kv False c) i then Inl InvalidFundsError
     else if sum (input_amount (cache_utxos kv False c)) (set ins) > payouts_total outs + fee
     then Inl ExtraFundsError else Inl InsufficientFundsError)"
proof (cases "\<forall>i\<in>set ins. unspent (cache_utxos kv False c) i")
  case True
  then show ?thesis
    using sum_inputs_spec(1) [OF assms True]
    by (auto simp: validate_fees_can_pay_def pays_exactly_def validate_given_cases payouts_total_def Let_def)
next
  case False
  then obtain e where "sum_inputs kv ins False c = Inl e" "is_UTXOError e"
    using sum_inputs_spec(2) [OF assms] by blast
  then show ?thesis using False by (auto simp: validate_fees_can_pay_def pays_exactly_def)
qed

lemma can_pay_spec:
  assumes "cache_wf kv False c" "fee_parts req ins outs"
  shows "\<exists>msg. can_pay_fees kv str_ex req fee c = Inr (pays_exactly (cache_utxos kv False c) ins outs fee, msg)"
proof -
  have "can_pay_fees_or_raise kv req fee c = validate_fees_can_pay kv ins outs fee c"
    using assms(2) by (auto simp: can_pay_fees_or_raise_def fee_parts_def dict_get_def split: if_splits)
  then show ?thesis
    using validate_fees_spec [OF assms(1), of ins outs fee]
    by (auto simp: can_pay_fees_def)
qed

lemma has_fees_parts:
  "has_fees req \<Longrightarrow> op_type (req_operation req) \<noteq> XFER_PUBLIC \<Longrightarrow> \<exists>ins outs. fee_parts req ins outs"
  by (cases "req_fees req")
    (auto simp: has_fees_def fee_parts_def fees_inputs_def get_change_for_fees_def)

lemma calculate_fees_spec:
  assumes "cache_wf kv False c" "fees_inputs req = Inr ins" "get_change_for_fees req = Inr outs"
  shows "calculate_fees_from_req kv req c = Inr
    (if \<forall>i\<in>set ins. unspent (cache_utxos kv False c) i
     then sum (input_amount (cache_utxos kv False c)) (set ins) - payouts_total outs else 0)"
proof -
  have "req_fees req \<noteq> FeesAbsent" using assms(2) by (auto simp: fees_inputs_def)
  then show ?thesis
    using assms(2,3) sum_inputs_spec [OF assms(1), of ins]
    by (cases "\<forall>i\<in>set ins. unspent (cache_utxos kv False c) i")
      (auto simp: calculate_fees_from_req_def payouts_total_def)
qed

text \<open>The fee that the config state demands for the constraint.\<close>

definition fee_due :: "'s state_store \<Rightarrow> fees_serializer \<Rightarrow> 's \<Rightarrow> metadata \<Rightarrow> exn + int" where
  "fee_due st fs s md = ebind (get_fees_from_state st fs s) (\<lambda>fees. fees_get fees (get_fees_alias_from_constraint md))"

lemma authorize_due:
  "fee_due st fs s md = Inr fee \<Longrightarrow> authorize st fs kv str_ex req md s c =
     (let pay = can_pay_fees kv str_ex req fee c in
      if op_type (req_operation req) \<noteq> XFER_PUBLIC
      then if fee > 0 \<and> \<not> has_fees req then Inr (False, ''Fees are required for this txn type'')
        else if \<not> fee > 0 \<and> has_fees req
        then ebind (calculate_fees_from_req kv req c) (\<lambda>calculated.
          if calculated > 0 then Inr (False, ''Fees are not required for this txn type'') else pay)
        else if \<not> fee > 0 \<and> \<not> has_fees req then Inr (True, [])
        else pay
      else pay)"
  by (auto simp: authorize_def fee_due_def ebind_Inr_iff Let_def)

lemma authorize_parts:
  assumes "cache_wf kv False c" "fee_due st fs s md = Inr fee" "fee_parts req ins outs"
    and "op_type (req_operation req) = XFER_PUBLIC \<or> has_fees req"
  shows "\<exists>msg. authorize st fs kv str_ex req md s c = Inr (pays_exactly (cache_utxos kv False c) ins outs fee, msg)"
proof (cases "op_type (req_operation req) \<noteq> XFER_PUBLIC \<and> \<not> fee > 0")
  case True
  then have p: "has_fees req" "fees_inputs req = Inr ins" "get_change_for_fees req = Inr outs"
    using assms(3,4) by (auto simp: fee_parts_def)
  note calc = calculate_fees_spec [OF assms(1) p(2,3)]
  show ?thesis
  proof (cases "(\<forall>i\<in>set ins. unspent (cache_utxos kv False c) i) \<and>
      0 < sum (input_amount (cache_utxos kv False c)) (set ins) - payouts_total outs")
    case pos: True
    then have "\<not> pays_exactly (cache_utxos kv False c) ins outs fee"
      using True by (auto simp: pays_exactly_def)
    then show ?thesis using True p(1) pos calc by (simp add: authorize_due [OF assms(2)] Let_def)
  next
    case False
    then have "\<exists>n. calculate_fees_from_req kv req c = Inr n \<and> \<not> 0 < n" using calc by auto
    then show ?thesis
      using True p(1) can_pay_spec [OF assms(1,3)] by (auto simp: authorize_due [OF assms(2)] Let_def)
  qed
next
  case False
  then show ?thesis
    using assms(4) can_pay_spec [OF assms(1,3)] by (auto simp: authorize_due [OF assms(2)] Let_def)
qed

section \<open>Properties\<close>

text \<open>C9: The authorizer accepts a transfer exactly when its inputs are unspent and worth exactly its
  outputs plus the fee of the rule's alias, also when that fee is zero.\<close>

theorem authorize_xfer_exact:
  assumes "cache_wf kv False c" "fee_due st fs s md = Inr fee"
    and "op_type (req_operation req) = XFER_PUBLIC"
    and "op_inputs (req_operation req) = Some ins" "op_outputs (req_operation req) = Some outs"
  shows "\<exists>ok msg. authorize st fs kv str_ex req md s c = Inr (ok, msg) \<and>
    (ok \<longleftrightarrow> (\<forall>i\<in>set ins. unspent (cache_utxos kv False c) i) \<and>
      sum (input_amount (cache_utxos kv False c)) (set ins) = payouts_total outs + fee)"
  using authorize_parts [OF assms(1,2), of req ins outs str_ex] assms(3-5)
  by (auto simp: fee_parts_def pays_exactly_def)

text \<open>C8: The authorizer accepts any other request exactly when no fee is due and none is attached, or
  fees are attached whose inputs are unspent and worth exactly the change plus the fee due:
  nobody pays too little or too much, and zero fees may be attached where none are due.\<close>

theorem authorize_other_exact:
  assumes "cache_wf kv False c" "fee_due st fs s md = Inr fee"
    and "op_type (req_operation req) \<noteq> XFER_PUBLIC"
  shows "\<exists>ok msg. authorize st fs kv str_ex req md s c = Inr (ok, msg) \<and>
    (ok \<longleftrightarrow> (if has_fees req
      then \<exists>ins outs. fees_inputs req = Inr ins \<and> get_change_for_fees req = Inr outs \<and>
        pays_exactly (cache_utxos kv False c) ins outs fee
      else fee \<le> 0))"
proof (cases "has_fees req")
  case True
  then obtain ins outs where p: "fee_parts req ins outs" using has_fees_parts assms(3) by blast
  then have "fees_inputs req = Inr ins" "get_change_for_fees req = Inr outs"
    using assms(3) by (auto simp: fee_parts_def)
  then show ?thesis using authorize_parts [OF assms(1,2) p] True by auto
next
  case False
  then show ?thesis using assms(3) by (auto simp: authorize_due [OF assms(2)] Let_def)
qed

text \<open>A config state in which the alias \<open>nym\<close> costs four tokens, and a request that pays them from the
  ten tokens of the example database.\<close>

definition ex_config :: ms where
  "ex_config = set_to_state ms_store ref_fs (build_path_for_set_fees None) (FeesDict [(''nym'', 4)]) ms_empty"

abbreviation ex_md :: metadata where
  "ex_md \<equiv> Some [(''fees'', ''nym'')]"

definition ex_change :: payout where
  "ex_change = \<lparr>pay_address = ''B'', pay_amount = 6\<rparr>"

definition ex_nym :: request where
  "ex_nym = \<lparr>req_identifier = ''A'', req_reqId = 8,
     req_operation = \<lparr>op_type = ''1'', op_inputs = None, op_outputs = None, op_signatures = None\<rparr>,
     req_fees = Fees3 [ex_input] [ex_change] [''sig'']\<rparr>"

lemma ex_fee_due: "fee_due ms_store ref_fs ex_config ex_md = Inr 4"
proof -
  have "st_get ms_store ex_config (build_path_for_set_fees None) False = Some (fs_serialize ref_fs (FeesDict [(''nym'', 4)]))"
    by (simp add: ex_config_def set_to_state_def ms.st_get_set)
  then have "get_fees_from_state ms_store ref_fs ex_config = Inr (FeesDict [(''nym'', 4)])"
    using ref_fees.serialize_nonempty [of "FeesDict [(''nym'', 4)]"]
      ref_fees.deserialize_serialize [of "FeesDict [(''nym'', 4)]"]
    by (auto simp: get_fees_from_state_def split: list.splits)
  then show ?thesis
    by (simp add: fee_due_def fees_get_def get_fees_alias_from_constraint_def FEES_FIELD_NAME_def)
qed

lemma ex_cache_wf: "cache_wf okv_store False (tk_cache ex_db)" "cache_utxos okv_store False (tk_cache ex_db) = ex_utxos"
  using ex_db_wf ex_db_utxos by (simp_all add: token_wf_def token_utxos_def)

lemma ex_pays: "pays_exactly ex_utxos [ex_input] [ex_change] 4"
  by (simp add: pays_exactly_def ex_change_def payouts_total_def)

theorem authorize_xfer_exact_witness:
  "\<exists>msg. authorize ms_store ref_fs okv_store (\<lambda>_. ''no'') ex_request ex_md ex_config (tk_cache ex_db) = Inr (False, msg)"
proof -
  have "op_type (req_operation ex_request) = XFER_PUBLIC" by (simp add: ex_request_def)
  from authorize_xfer_exact [OF ex_cache_wf(1) ex_fee_due this ex_facts(5,6), of "\<lambda>_. ''no''"]
  show ?thesis unfolding ex_cache_wf(2) by (auto simp: payouts_total_def)
qed

theorem authorize_other_exact_witness:
  "\<exists>msg. authorize ms_store ref_fs okv_store (\<lambda>_. ''no'') ex_nym ex_md ex_config (tk_cache ex_db) = Inr (True, msg)"
proof -
  have "op_type (req_operation ex_nym) \<noteq> XFER_PUBLIC" "has_fees ex_nym"
    "fees_inputs ex_nym = Inr [ex_input]" "get_change_for_fees ex_nym = Inr [ex_change]"
    by (simp_all add: ex_nym_def txn_type_defs has_fees_def fees_inputs_def get_change_for_fees_def)
  then show ?thesis
    using authorize_other_exact [OF ex_cache_wf(1) ex_fee_due, of ex_nym "\<lambda>_. ''no''"] ex_pays
    unfolding ex_cache_wf(2) by auto
qed

section \<open>Authorisation rules with fees\<close>

text \<open>indy-node's constraints: for a role, with metadata, whose values may be of any type; forbidden;
  and the combinations of others.\<close>

datatype auth_constraint =
    RoleConstraint "(string \<times> jval) list"
  | ForbiddenConstraint
  | AndConstraint "auth_constraint list"
  | OrConstraint "auth_constraint list"

text \<open>\<open>v in d\<close> for a dictionary with texts as keys: lists and dictionaries cannot be hashed.\<close>

fun j_in_dict :: "jval \<Rightarrow> string set \<Rightarrow> exn + bool" where
  "j_in_dict (JList xs) ks = Inl TypeError"
| "j_in_dict (JMap m) ks = Inl TypeError"
| "j_in_dict (JStr s) ks = Inr (s \<in> ks)"
| "j_in_dict _ ks = Inr False"

fun validate_metadata :: "fees_dict \<Rightarrow> auth_constraint \<Rightarrow> jval list \<Rightarrow> exn + jval list"
  and validate_metadatas :: "fees_dict \<Rightarrow> auth_constraint list \<Rightarrow> jval list \<Rightarrow> exn + jval list" where
  "validate_metadata current_fees ForbiddenConstraint wrong_aliases = Inr wrong_aliases"
| "validate_metadata current_fees (AndConstraint cs) wrong_aliases = validate_metadatas current_fees cs wrong_aliases"
| "validate_metadata current_fees (OrConstraint cs) wrong_aliases = validate_metadatas current_fees cs wrong_aliases"
| "validate_metadata current_fees (RoleConstraint metadata) wrong_aliases =
     (case map_of metadata FEES_FIELD_NAME of
        None \<Rightarrow> Inr wrong_aliases
      | Some meta_alias \<Rightarrow>
          if j_true meta_alias
          then ebind (j_in_dict meta_alias (fst ` set current_fees)) (\<lambda>known.
            Inr (if known then wrong_aliases else wrong_aliases @ [meta_alias]))
          else Inr wrong_aliases)"
| "validate_metadatas current_fees [] wrong_aliases = Inr wrong_aliases"
| "validate_metadatas current_fees (c # cs) wrong_aliases =
     ebind (validate_metadata current_fees c wrong_aliases) (validate_metadatas current_fees cs)"

text \<open>\<open>', '.join(wrong_aliases)\<close> in the message raises for an alias that is no text. Testing membership in
  fees that are no dictionary raises \<open>TypeError\<close>, as soon as there is an alias to test.\<close>

definition check_constraint :: "fees_val \<Rightarrow> auth_constraint \<Rightarrow> exn + unit" where
  "check_constraint current_fees constraint =
     (case current_fees of
        FeesDict d \<Rightarrow> ebind (validate_metadata d constraint []) (\<lambda>wrong_aliases.
          if wrong_aliases \<noteq> []
          then Inl (if list_all (\<lambda>v. j_type v = ''str'') wrong_aliases then InvalidClientMessageException else TypeError)
          else Inr ())
      | FeeAmount _ \<Rightarrow> ebind (validate_metadata [] constraint []) (\<lambda>wrong_aliases.
          if wrong_aliases \<noteq> [] then Inl TypeError else Inr ()))"

text \<open>\<open>StaticAuthRuleHelper.get_auth_constraint\<close> is indy-node's.\<close>

definition auth_rule_fees_validation :: "'s state_store \<Rightarrow> fees_serializer \<Rightarrow> ('o \<Rightarrow> exn + auth_constraint)
    \<Rightarrow> 'o \<Rightarrow> 's \<Rightarrow> exn + unit" where
  "auth_rule_fees_validation st fs get_auth_constraint operation state =
     ebind (get_fees st fs state False) (\<lambda>current_fees.
     ebind (get_auth_constraint operation) (\<lambda>constraint.
     check_constraint current_fees constraint))"

fun get_constraints :: "('o \<Rightarrow> exn + auth_constraint) \<Rightarrow> 'o list \<Rightarrow> exn + auth_constraint list" where
  "get_constraints f [] = Inr []"
| "get_constraints f (r # rs) = ebind (f r) (\<lambda>c. ebind (get_constraints f rs) (\<lambda>cs. Inr (c # cs)))"

fun check_constraints :: "fees_val \<Rightarrow> auth_constraint list \<Rightarrow> exn + unit" where
  "check_constraints current_fees [] = Inr ()"
| "check_constraints current_fees (c # cs) =
     ebind (check_constraint current_fees c) (\<lambda>_. check_constraints current_fees cs)"

definition auth_rules_fees_validation :: "'s state_store \<Rightarrow> fees_serializer \<Rightarrow> ('o \<Rightarrow> exn + auth_constraint)
    \<Rightarrow> 'o list \<Rightarrow> 's \<Rightarrow> exn + unit" where
  "auth_rules_fees_validation st fs get_auth_constraint rules state =
     ebind (get_fees st fs state False) (\<lambda>current_fees.
     ebind (get_constraints get_auth_constraint rules) (\<lambda>constraints.
     check_constraints current_fees constraints))"

text \<open>The aliases that a constraint mentions: the truthful ones are looked up.\<close>

fun alias_in :: "jval \<Rightarrow> auth_constraint \<Rightarrow> bool" where
  "alias_in a ForbiddenConstraint \<longleftrightarrow> False"
| "alias_in a (AndConstraint cs) \<longleftrightarrow> (\<exists>c\<in>set cs. alias_in a c)"
| "alias_in a (OrConstraint cs) \<longleftrightarrow> (\<exists>c\<in>set cs. alias_in a c)"
| "alias_in a (RoleConstraint m) \<longleftrightarrow> j_true a \<and> map_of m FEES_FIELD_NAME = Some a"

lemma j_in_dict_iff:
  "j_in_dict v ks = Inr True \<longleftrightarrow> v \<in> JStr ` ks"
  "j_in_dict v ks = Inr k \<Longrightarrow> k \<longleftrightarrow> v \<in> JStr ` ks"
  "j_in_dict v ks = Inl e \<longleftrightarrow> e = TypeError \<and> j_type v \<in> {''list'', ''dict''}"
  by (cases v; auto)+

lemma validate_role_Inr:
  assumes "validate_metadata d (RoleConstraint m) w = Inr w'"
  shows "set w' = set w \<union> {a. alias_in a (RoleConstraint m) \<and> a \<notin> JStr ` fst ` set d}"
proof (cases "map_of m FEES_FIELD_NAME")
  case (Some a)
  show ?thesis
  proof (cases "j_true a")
    case True
    then obtain k where k: "j_in_dict a (fst ` set d) = Inr k" "w' = (if k then w else w @ [a])"
      using assms Some by (auto simp: ebind_Inr_iff)
    have "k \<longleftrightarrow> a \<in> JStr ` fst ` set d" by (rule j_in_dict_iff(2) [OF k(1)])
    then show ?thesis using k(2) Some True by auto
  next
    case False
    then have "w' = w" using assms Some by simp
    then show ?thesis using False Some by auto
  qed
qed (use assms in auto)

lemma validate_metadata_Inr:
  "validate_metadata d c w = Inr w' \<Longrightarrow> set w' = set w \<union> {a. alias_in a c \<and> a \<notin> JStr ` fst ` set d}"
  "validate_metadatas d cs w = Inr w' \<Longrightarrow> set w' = set w \<union> {a. (\<exists>c\<in>set cs. alias_in a c) \<and> a \<notin> JStr ` fst ` set d}"
proof (induction d c w and d cs w arbitrary: w' and w' rule: validate_metadata_validate_metadatas.induct)
  case (4 d m w)
  then show ?case by (rule validate_role_Inr)
next
  case (6 d c cs w)
  then obtain v where "validate_metadata d c w = Inr v" "validate_metadatas d cs v = Inr w'"
    by (auto simp: ebind_Inr_iff)
  with 6 have "set v = set w \<union> {a. alias_in a c \<and> a \<notin> JStr ` fst ` set d}"
    "set w' = set v \<union> {a. (\<exists>c\<in>set cs. alias_in a c) \<and> a \<notin> JStr ` fst ` set d}" by blast+
  then show ?case by auto
qed simp_all

lemma validate_metadata_Inl:
  "validate_metadata d c w = Inl e \<Longrightarrow> e = TypeError \<and> (\<exists>a. alias_in a c \<and> j_type a \<noteq> ''str'')"
  "validate_metadatas d cs w = Inl e \<Longrightarrow> e = TypeError \<and> (\<exists>c\<in>set cs. \<exists>a. alias_in a c \<and> j_type a \<noteq> ''str'')"
proof (induction d c w and d cs w rule: validate_metadata_validate_metadatas.induct)
  case (4 d m w)
  then show ?case by (auto simp: j_in_dict_iff(3) ebind_Inl_iff split: option.splits if_splits)
next
  case (6 d c cs w)
  then show ?case by (auto simp: ebind_Inl_iff)
qed auto

lemma check_constraint_iff:
  "check_constraint (FeesDict d) c = Inr () \<longleftrightarrow> (\<forall>a. alias_in a c \<longrightarrow> a \<in> JStr ` fst ` set d)"
  "check_constraint (FeesDict d) c \<noteq> Inr () \<Longrightarrow>
     check_constraint (FeesDict d) c \<in> {Inl InvalidClientMessageException, Inl TypeError}"
  "(\<And>a. alias_in a c \<Longrightarrow> j_type a = ''str'') \<Longrightarrow> check_constraint (FeesDict d) c \<noteq> Inl TypeError"
proof -
  show "check_constraint (FeesDict d) c = Inr () \<longleftrightarrow> (\<forall>a. alias_in a c \<longrightarrow> a \<in> JStr ` fst ` set d)"
  proof (cases "validate_metadata d c []")
    case (Inl e)
    then obtain a where "alias_in a c" "j_type a \<noteq> ''str''" using validate_metadata_Inl(1) by blast
    then have "alias_in a c" "a \<notin> JStr ` fst ` set d" by auto
    then show ?thesis using Inl by (auto simp: check_constraint_def)
  next
    case (Inr w)
    then show ?thesis using validate_metadata_Inr(1) [OF Inr] by (auto simp: check_constraint_def simp flip: set_empty)
  qed
  show "check_constraint (FeesDict d) c \<noteq> Inr () \<Longrightarrow>
      check_constraint (FeesDict d) c \<in> {Inl InvalidClientMessageException, Inl TypeError}"
    using validate_metadata_Inl(1) [of d c "[]"]
    by (cases "validate_metadata d c []") (auto simp: check_constraint_def)
  show "check_constraint (FeesDict d) c \<noteq> Inl TypeError" if t: "\<And>a. alias_in a c \<Longrightarrow> j_type a = ''str''"
  proof (cases "validate_metadata d c []")
    case (Inl e)
    then show ?thesis using validate_metadata_Inl(1) t by blast
  next
    case (Inr w)
    then have "list_all (\<lambda>v. j_type v = ''str'') w" using validate_metadata_Inr(1) [OF Inr] t by (simp add: list_all_iff)
    then show ?thesis using Inr by (simp add: check_constraint_def)
  qed
qed

lemma check_constraints_iff:
  "check_constraints (FeesDict d) cs = Inr () \<longleftrightarrow> (\<forall>c\<in>set cs. \<forall>a. alias_in a c \<longrightarrow> a \<in> JStr ` fst ` set d)"
  "check_constraints (FeesDict d) cs \<noteq> Inr () \<Longrightarrow>
     check_constraints (FeesDict d) cs \<in> {Inl InvalidClientMessageException, Inl TypeError}"
  "(\<And>c a. c \<in> set cs \<Longrightarrow> alias_in a c \<Longrightarrow> j_type a = ''str'') \<Longrightarrow> check_constraints (FeesDict d) cs \<noteq> Inl TypeError"
proof (induction cs)
  case (Cons c cs)
  {
    case 1
    show ?case using Cons.IH(1) check_constraint_iff(1) [of d c]
      by (cases "check_constraint (FeesDict d) c") auto
  next
    case 2
    then show ?case using Cons.IH(2) check_constraint_iff(2) [of d c]
      by (cases "check_constraint (FeesDict d) c") auto
  next
    case 3
    then show ?case using Cons.IH(3) check_constraint_iff(3) [of c d]
      by (cases "check_constraint (FeesDict d) c") auto
  }
qed simp_all

text \<open>C30: AUTH_RULE and AUTH_RULES are accepted by the fee handlers exactly when every fees alias that
  occurs anywhere in the constraints and counts as true is known to the current fees. Otherwise
  they are refused with \<open>InvalidClientMessageException\<close>; only where an alias is not a text
  can the refusal be a \<open>TypeError\<close> instead.\<close>

theorem auth_rules_known_aliases:
  assumes "get_fees st fs s False = Inr (FeesDict d)" "get_constraints f rules = Inr cs"
    and "get_auth_constraint operation = Inr c"
  shows "(if \<forall>c\<in>set cs. \<forall>a. alias_in a c \<longrightarrow> a \<in> JStr ` fst ` set d
      then auth_rules_fees_validation st fs f rules s = Inr ()
      else auth_rules_fees_validation st fs f rules s = Inl InvalidClientMessageException \<or>
        auth_rules_fees_validation st fs f rules s = Inl TypeError \<and> \<not> (\<forall>c\<in>set cs. \<forall>a. alias_in a c \<longrightarrow> j_type a = ''str'')) \<and>
    (if \<forall>a. alias_in a c \<longrightarrow> a \<in> JStr ` fst ` set d
      then auth_rule_fees_validation st fs get_auth_constraint operation s = Inr ()
      else auth_rule_fees_validation st fs get_auth_constraint operation s = Inl InvalidClientMessageException \<or>
        auth_rule_fees_validation st fs get_auth_constraint operation s = Inl TypeError \<and> \<not> (\<forall>a. alias_in a c \<longrightarrow> j_type a = ''str''))"
proof -
  have "auth_rules_fees_validation st fs f rules s = check_constraints (FeesDict d) cs"
    "auth_rule_fees_validation st fs get_auth_constraint operation s = check_constraint (FeesDict d) c"
    using assms by (simp_all add: auth_rules_fees_validation_def auth_rule_fees_validation_def)
  then show ?thesis
    using check_constraints_iff [where d = d and cs = cs] check_constraint_iff [where d = d and c = c] by auto
qed

text \<open>An unknown alias nested in a combination, and an alias that is a list.\<close>

theorem auth_rules_known_aliases_witness:
  "auth_rule_fees_validation ms_store ref_fs (\<lambda>_. Inr (OrConstraint [RoleConstraint [(''fees'', JStr ''x'')]])) () ms_empty =
    Inl InvalidClientMessageException \<and>
   auth_rules_fees_validation ms_store ref_fs (\<lambda>_. Inr (RoleConstraint [(''fees'', JList [JNone])])) [()] ms_empty \<noteq> Inr ()"
proof -
  have fees: "get_fees ms_store ref_fs ms_empty False = Inr (FeesDict [])"
    using ms_empty_fees by (simp add: fees_agree_def)
  let ?or = "OrConstraint [RoleConstraint [(''fees'', JStr ''x'')]]" and ?bad = "RoleConstraint [(''fees'', JList [JNone])]"
  have 1: "alias_in (JStr ''x'') ?or" "\<forall>a. alias_in a ?or \<longrightarrow> j_type a = ''str''"
    and 2: "alias_in (JList [JNone]) ?bad"
    by (auto simp: FEES_FIELD_NAME_def split: if_splits)
  have n: "\<not> (\<forall>c\<in>set [?bad]. \<forall>a. alias_in a c \<longrightarrow> a \<in> JStr ` fst ` set [])"
    "\<not> (\<forall>a. alias_in a ?or \<longrightarrow> a \<in> JStr ` fst ` set [])"
    using 1(1) 2 by (auto simp del: alias_in.simps)
  note t = auth_rules_known_aliases [OF fees, of "\<lambda>_. Inr ?bad" "[()]" "[?bad]" "\<lambda>_. Inr ?or" "()" ?or]
  have c: "get_constraints (\<lambda>_. Inr ?bad) [()] = Inr [?bad]" "(\<lambda>_. Inr ?or) () = Inr ?or" by simp_all
  show ?thesis
    using t [OF c, unfolded if_not_P [OF n(1)] if_not_P [OF n(2)]] 1(2) by (elim conjE disjE) (simp_all del: alias_in.simps)
qed

end
