(* ===== verification/Token_Batches.thy ===== *)
theory Token_Batches
  imports Token_Handlers
begin

text \<open>
  The batch handlers of the token plugin: \<open>UTXOBatchHandler\<close> and \<open>TokenBatchHandler\<close>
  (\<open>sovtoken/request_handlers/batch_req_handler\<close>). A batch of the three-phase commit is applied
  (its cache changes become an uncommitted batch named by the state root), then either committed
  (oldest first) or rejected (newest first).

  \<open>cache_writes\<close> is the relation of the uncommitted writes that \<open>add_output\<close> and \<open>spend_output\<close>
  make. The property: committing moves the oldest batch to the committed view, only under the
  bytes by which the batch was named, and no reader of the uncommitted view can tell.
\<close>

section \<open>The handlers\<close>

record three_pc_batch =
  tpc_state_root :: state_root

definition utxo_post_batch_applied :: "'c kv_store \<Rightarrow> three_pc_batch \<Rightarrow> 'c \<Rightarrow> 'c" where
  "utxo_post_batch_applied kv batch cache =
     kv_create_batch_from_current kv cache (tpc_state_root batch)"

definition utxo_post_batch_rejected :: "'c kv_store \<Rightarrow> 'c \<Rightarrow> exn + 'c" where
  "utxo_post_batch_rejected kv cache = ebind (kv_reject_batch kv cache) (\<lambda>(_, c). Inr c)"

definition utxo_commit_batch :: "(string \<Rightarrow> string option) \<Rightarrow> 'c kv_store \<Rightarrow> three_pc_batch
    \<Rightarrow> 'c \<Rightarrow> exn + 'c" where
  "utxo_commit_batch b58decode kv batch cache =
     commit_to_utxo_cache b58decode kv (tpc_state_root batch) cache"

text \<open>\<open>TokenBatchHandler\<close> overrides both callbacks by \<open>pass\<close>; committing is inherited.\<close>

definition token_post_batch_applied :: "'d \<Rightarrow> 'd" where
  "token_post_batch_applied db = db"

definition token_post_batch_rejected :: "'d \<Rightarrow> 'd" where
  "token_post_batch_rejected db = db"

section \<open>The life of the cache\<close>

text \<open>The uncommitted writes between two batches.\<close>

inductive cache_writes :: "'c kv_store \<Rightarrow> 'c \<Rightarrow> 'c \<Rightarrow> bool" for kv where
  no_write: "cache_writes kv c c"
| one_write: "cache_writes kv c d \<Longrightarrow> cache_writes kv c (kv_set kv d k s False)"

lemma cache_writes_trans: "cache_writes kv d e \<Longrightarrow> cache_writes kv c d \<Longrightarrow> cache_writes kv c e"
  by (induction rule: cache_writes.induct) (auto intro: cache_writes.intros)

lemma add_output_writes:
  "add_output kv out False c = Inr d \<Longrightarrow> cache_writes kv c d"
  by (auto simp: add_output_def ebind_Inr_iff intro: cache_writes.intros)

lemma spend_output_writes:
  "spend_output kv out False c = Inr d \<Longrightarrow> cache_writes kv c d"
  by (auto simp: spend_output_def ebind_Inr_iff intro: cache_writes.intros)

lemma on_cache_writes:
  assumes "\<And>c d. f c = Inr d \<Longrightarrow> cache_writes kv c d"
  shows "cache_writes kv (tk_cache db) (tk_cache (snd (on_cache f db)))"
  using assms by (auto simp: on_cache_def cache_writes.no_write split: sum.splits)

lemma for_each_writes:
  assumes "\<And>x d. cache_writes kv (tk_cache d) (tk_cache (snd (f x d)))"
  shows "cache_writes kv (tk_cache db) (tk_cache (snd (for_each f xs db)))"
proof (induction xs arbitrary: db)
  case (Cons x xs)
  show ?case
    using cache_writes_trans [OF Cons [of "snd (f x db)"] assms [of db x]] assms [of db x]
    by (cases "f x db"; cases "fst (f x db)") (auto simp: pseq_def pbind_def)
qed (simp add: cache_writes.no_write)

lemma spend_input_writes:
  "cache_writes kv (tk_cache d) (tk_cache (snd (spend_input st kv a n False rs d)))"
  using on_cache_writes [of "spend_output kv (mk_output a n None) False" kv "d\<lparr>tk_state := s\<rparr>" for s]
    spend_output_writes [of kv "mk_output a n None"]
  by (simp add: spend_input_def Let_def)

lemma add_new_output_writes:
  "cache_writes kv (tk_cache d) (tk_cache (snd (add_new_output st kv out False d)))"
  using on_cache_writes [of "add_output kv out False" kv "d\<lparr>tk_state := s\<rparr>" for s]
    add_output_writes [of kv out]
  by (simp add: add_new_output_def Let_def)

lemma spend_inputs_writes:
  "cache_writes kv (tk_cache db) (tk_cache (snd (spend_inputs st kv rs t False db)))"
  by (cases "tx_inputs t")
    (simp_all add: spend_inputs_def dict_get_def cache_writes.no_write for_each_writes spend_input_writes)

lemma add_outputs_writes:
  "cache_writes kv (tk_cache db) (tk_cache (snd (add_outputs st kv t False db)))"
  by (cases "tx_outputs t")
    (simp_all add: add_outputs_def dict_get_def cache_writes.no_write for_each_writes add_new_output_writes)

section \<open>Batches over the store's contract\<close>

text \<open>The bytes that a root stands for, if its text can be decoded.\<close>

definition root_bytes :: "(string \<Rightarrow> string option) \<Rightarrow> state_root \<Rightarrow> string option" where
  "root_bytes dec root = (case root of RootBytes r \<Rightarrow> Some r | RootStr s \<Rightarrow> dec s)"

context kv_batch_store
begin

lemma writes_views:
  "cache_writes kv c d \<Longrightarrow> com d = com c \<and> unc d = unc c"
  by (induction rule: cache_writes.induct) (auto simp: set_uncommitted)

lemma commit_front:
  assumes "unc c = (idr, b) # bs"
  shows "utxo_commit_batch dec kv \<lparr>tpc_state_root = root\<rparr> c =
    (case root_bytes dec root of
       None \<Rightarrow> Inl ValueError
     | Some r \<Rightarrow> if idr = RootBytes r then kv_commit_batch kv c else Inl TokenValueError)"
  using first [OF assms]
  by (auto simp: root_bytes_def utxo_commit_batch_def commit_to_utxo_cache_def split: state_root.split option.split)

text \<open>With no batch there is nothing to commit.\<close>

lemma commit_none:
  assumes "unc c = []"
  obtains e where "commit_to_utxo_cache dec kv root c = Inl e"
proof (cases "commit_to_utxo_cache dec kv root c")
  case (Inr d)
  then show thesis
    using first_empty [OF assms] by (auto simp: commit_to_utxo_cache_def ebind_Inr_iff split: if_splits)
qed

end

section \<open>Properties\<close>

text \<open>C20: \<open>UTXOBatchHandler\<close> names a batch of the cache by the batch's state root just as it is, but commits
  under the bytes that the root stands for: base58 text is decoded first. So \<open>commit_batch\<close>
  commits the oldest uncommitted batch exactly when that batch was created under bytes and it is
  called with these bytes or with a text that decodes to them; it raises \<open>TokenValueError\<close> for every other root that
  decodes and \<open>ValueError\<close> for a text that does not; and a batch created under a text can never be
  committed, not even by that text. After a commit the committed view has the batch's values and
  uncommitted readers see what they saw before.\<close>

theorem commit_oldest_batch:
  assumes "kv_batch_store kv com unc cur rd rd_new" "unc c = (idr, b) # bs"
  shows "(case root_bytes dec root of
      None \<Rightarrow> utxo_commit_batch dec kv \<lparr>tpc_state_root = root\<rparr> c = Inl ValueError
    | Some r \<Rightarrow> if idr = RootBytes r
        then \<exists>c'. utxo_commit_batch dec kv \<lparr>tpc_state_root = root\<rparr> c = Inr c' \<and>
          com c' = com c ++ b \<and> unc c' = bs \<and>
          visible (com c') (unc c') (cur c') = visible (com c) (unc c) (cur c)
        else utxo_commit_batch dec kv \<lparr>tpc_state_root = root\<rparr> c = Inl TokenValueError) \<and>
    (idr = RootStr s \<longrightarrow> isl (utxo_commit_batch dec kv \<lparr>tpc_state_root = root\<rparr> c)) \<and>
    unc (utxo_post_batch_applied kv \<lparr>tpc_state_root = root\<rparr> c) = (idr, b) # bs @ [(root, cur c)]"
proof -
  have "unc (utxo_post_batch_applied kv \<lparr>tpc_state_root = root\<rparr> c) = (idr, b) # bs @ [(root, cur c)]"
    using assms(2) by (simp add: utxo_post_batch_applied_def kv_batch_store.create [OF assms(1)])
  then show ?thesis
    using kv_batch_store.commit_front [OF assms, of dec root] kv_batch_store.commit_seen [OF assms]
    by (auto split: option.split)
qed

theorem commit_oldest_batch_witness:
  "utxo_commit_batch (\<lambda>s. if s = ''t'' then Some ''r'' else None) okv_store \<lparr>tpc_state_root = RootStr ''x''\<rparr>
     (okv_empty\<lparr>okv_unc := [(RootBytes ''r'', [''A'' \<mapsto> ''1:10''])]\<rparr>) = Inl ValueError \<and>
   (\<exists>c. utxo_commit_batch (\<lambda>s. if s = ''t'' then Some ''r'' else None) okv_store \<lparr>tpc_state_root = RootStr ''t''\<rparr>
     (okv_empty\<lparr>okv_unc := [(RootBytes ''r'', [''A'' \<mapsto> ''1:10''])]\<rparr>) = Inr c \<and> okv_unc c = []) \<and>
   isl (utxo_commit_batch (\<lambda>s. if s = ''t'' then Some ''r'' else None) okv_store \<lparr>tpc_state_root = RootStr ''t''\<rparr>
     (okv_empty\<lparr>okv_unc := [(RootStr ''t'', [''A'' \<mapsto> ''1:10''])]\<rparr>))"
  using commit_oldest_batch [OF okv.kv_batch_store_axioms, of
      "okv_empty\<lparr>okv_unc := [(RootBytes ''r'', [''A'' \<mapsto> ''1:10''])]\<rparr>" "RootBytes ''r''" "[''A'' \<mapsto> ''1:10'']" "[]"
      "\<lambda>s. if s = ''t'' then Some ''r'' else None" "RootStr ''x''"]
    commit_oldest_batch [OF okv.kv_batch_store_axioms, of
      "okv_empty\<lparr>okv_unc := [(RootBytes ''r'', [''A'' \<mapsto> ''1:10''])]\<rparr>" "RootBytes ''r''" "[''A'' \<mapsto> ''1:10'']" "[]"
      "\<lambda>s. if s = ''t'' then Some ''r'' else None" "RootStr ''t''"]
    commit_oldest_batch [OF okv.kv_batch_store_axioms, of
      "okv_empty\<lparr>okv_unc := [(RootStr ''t'', [''A'' \<mapsto> ''1:10''])]\<rparr>" "RootStr ''t''" "[''A'' \<mapsto> ''1:10'']" "[]"
      "\<lambda>s. if s = ''t'' then Some ''r'' else None" "RootStr ''t''"]
  by (simp add: root_bytes_def) blast

end
