(* ===== verification/Fee_Txns.thy ===== *)
theory Fee_Txns
  imports Fees_Authorizer Token_Batches
begin

text \<open>
  Paying fees: \<open>BatchFeesTracker\<close> (\<open>req_handlers/fees_utils.py\<close>), \<open>DomainFeeHandler\<close>,
  \<open>XferFeeHandler\<close> and \<open>FeeTxnCatchupHandler\<close> (\<open>req_handlers/write_handlers\<close>).

  A domain transaction with fees is followed by a fee transaction on the token ledger, which
  spends the fee inputs and adds the change. The token ledger is an argument (\<open>ledger_ops\<close>). The
  properties: a request that the authorizer accepted is applied without error and exactly the
  fee due leaves the supply, both for domain requests and for transfers.
\<close>

section \<open>State\<close>

record fees_tracker =
  fees_in_current_batch :: int
  deducted_fees :: "string \<rightharpoonup> int"

definition tracker_init :: fees_tracker where
  "tracker_init = \<lparr>fees_in_current_batch = 0, deducted_fees = Map.empty\<rparr>"

definition deducted_key :: "string \<Rightarrow> int \<Rightarrow> string" where
  "deducted_key txn_type seq_no = txn_type @ ''#'' @ py_str seq_no"

definition add_deducted_fees :: "string \<Rightarrow> int \<Rightarrow> int \<Rightarrow> fees_tracker \<Rightarrow> fees_tracker" where
  "add_deducted_fees txn_type seq_no fees tr =
     tr\<lparr>deducted_fees := (deducted_fees tr)(deducted_key txn_type seq_no \<mapsto> fees)\<rparr>"

definition has_deducted_fees :: "string \<Rightarrow> int \<Rightarrow> fees_tracker \<Rightarrow> bool" where
  "has_deducted_fees txn_type seq_no tr \<longleftrightarrow> deducted_fees tr (deducted_key txn_type seq_no) \<noteq> None"

text \<open>A fee transaction: the payment, the reference to the domain transaction, the amount, the
  signatures by address, and the metadata.\<close>

record fee_txn =
  fx_txn :: txn
  fx_ref :: string
  fx_fees :: int
  fx_sigs :: "string \<rightharpoonup> string"
  fx_reqId :: int
  fx_time :: int

text \<open>The token ledger: the sequence number that \<open>append_txns_metadata\<close> gives to the next transaction,
  \<open>appendTxns\<close>, \<open>discardTxns\<close>, \<open>uncommitted_root_hash\<close> and \<open>uncommitted_size\<close>.\<close>

record 'l ledger_ops =
  lg_next_seq_no :: "'l \<Rightarrow> int"
  lg_appendTxns :: "'l \<Rightarrow> fee_txn \<Rightarrow> 'l"
  lg_discardTxns :: "'l \<Rightarrow> int \<Rightarrow> 'l"
  lg_uncommitted_root_hash :: "'l \<Rightarrow> string"
  lg_uncommitted_size :: "'l \<Rightarrow> int"

record ('s, 'c, 'l, 't) fees_db = "('s, 'c) token_db" +
  fd_ledger :: 'l
  fd_token_tracker :: 't
  fd_fees_tracker :: fees_tracker

text \<open>What the handlers read of a domain transaction; \<open>dt_fees\<close> is the entry \<open>FEES\<close> that the commit
  adds for the reply.\<close>

record domain_txn =
  dt_type :: string
  dt_seqNo :: int
  dt_time :: int
  dt_reqId :: int
  dt_fees :: "fee_txn option"

section \<open>DomainFeeHandler\<close>

definition get_ref_for_txn_fees :: "int \<Rightarrow> int \<Rightarrow> string" where
  "get_ref_for_txn_fees ledger_id seq_no = py_str ledger_id @ '':'' @ py_str seq_no"

definition update_token_state :: "'s state_store \<Rightarrow> 'c kv_store \<Rightarrow> txn \<Rightarrow> bool
    \<Rightarrow> (('s, 'c, 'z) token_db_scheme, unit) proc" where
  "update_token_state st kv t is_committed =
     pseq (spend_inputs st kv True t is_committed) (add_outputs st kv t is_committed)"

text \<open>\<open>inputs, outputs, signatures = request.fees\<close> raises \<open>ValueError\<close> for shorter lists.\<close>

definition unpack_fees :: "request \<Rightarrow> exn + (input list \<times> payout list \<times> string list)" where
  "unpack_fees req = (case req_fees req of
     Fees3 ins outs sigs \<Rightarrow> Inr (ins, outs, sigs) | Fees1 _ \<Rightarrow> Inl ValueError | Fees2 _ _ \<Rightarrow> Inl ValueError
   | _ \<Rightarrow> Inl TypeError)"

definition make_fee_txn :: "int \<Rightarrow> request \<Rightarrow> domain_txn \<Rightarrow> input list \<Rightarrow> payout list \<Rightarrow> string list
    \<Rightarrow> int \<Rightarrow> int \<Rightarrow> fee_txn" where
  "make_fee_txn ledger_id req prev_result ins outs sigs fees seq_no =
     \<lparr>fx_txn = \<lparr>tx_type = FEE_TXN, tx_inputs = Some ins, tx_outputs = Some outs, tx_seqNo = seq_no,
        tx_sig_type = None, tx_sig_values = None\<rparr>,
      fx_ref = get_ref_for_txn_fees ledger_id (dt_seqNo prev_result),
      fx_fees = fees,
      fx_sigs = map_of (rev (zip (map inp_address ins) sigs)),
      fx_reqId = dt_reqId prev_result,
      fx_time = dt_time prev_result\<rparr>"

definition domain_apply_request :: "'s state_store \<Rightarrow> 'c kv_store \<Rightarrow> 'l ledger_ops \<Rightarrow> int \<Rightarrow> request
    \<Rightarrow> domain_txn \<Rightarrow> (('s, 'c, 'l, 't) fees_db, domain_txn) proc" where
  "domain_apply_request st kv lg ledger_id req prev_result =
     (if has_fees req
      then pbind (plift (unpack_fees req)) (\<lambda>(ins, outs, sigs).
        pbind (\<lambda>db. (calculate_fees_from_req kv req (tk_cache db), db)) (\<lambda>fees.
        pbind (\<lambda>db. (Inr (make_fee_txn ledger_id req prev_result ins outs sigs fees (lg_next_seq_no lg (fd_ledger db))), db)) (\<lambda>t.
        pseq (\<lambda>db. (Inr (), db\<lparr>fd_ledger := lg_appendTxns lg (fd_ledger db) t\<rparr>))
       (pseq (update_token_state st kv (fx_txn t) False)
       (pseq (\<lambda>db. (Inr (), db\<lparr>fd_fees_tracker :=
               add_deducted_fees (op_type (req_operation req)) (dt_seqNo prev_result) fees
                 ((fd_fees_tracker db)\<lparr>fees_in_current_batch := fees_in_current_batch (fd_fees_tracker db) + 1\<rparr>)\<rparr>))
        (preturn prev_result))))))
      else preturn prev_result)"

section \<open>Transfers with fees, catch-up of fee transactions\<close>

text \<open>\<open>XferFeeHandler\<close> leaves the sums to the authorizer and inherits the rest of \<open>XferHandler\<close>.\<close>

definition xfer_fee_dynamic_validation :: "(request \<Rightarrow> auth_action \<Rightarrow> exn + unit) \<Rightarrow> request \<Rightarrow> exn + unit" where
  "xfer_fee_dynamic_validation validate req = validate req (AuthActionAdd XFER_PUBLIC ''*'' ''*'')"

text \<open>\<open>FeeTxnCatchupHandler\<close> inherits \<open>update_state\<close> and does nothing for requests.\<close>

definition fee_catchup_update_state :: "'s state_store \<Rightarrow> 'c kv_store \<Rightarrow> txn \<Rightarrow> bool
    \<Rightarrow> (('s, 'c, 'z) token_db_scheme, unit) proc" where
  "fee_catchup_update_state st kv t is_committed = xfer_update_state st kv t is_committed"

definition fee_catchup_apply_request :: "'d \<Rightarrow> 'd" where
  "fee_catchup_apply_request db = db"

section \<open>Frames\<close>

lemma on_cache_more: "token_db.more (snd (on_cache f db)) = token_db.more db"
  by (simp add: on_cache_def split: sum.splits)

lemma for_each_inv:
  assumes "\<And>x d. P d \<Longrightarrow> P (snd (f x d))" "P d"
  shows "P (snd (for_each f xs d))"
  using assms(2)
proof (induction xs arbitrary: d)
  case (Cons x xs)
  from assms(1) [OF Cons.prems, of x] show ?case
    using Cons.IH by (cases "f x d"; cases "fst (f x d)") (auto simp: pseq_def pbind_def)
qed simp

lemma pseq_inv:
  assumes "\<And>d. P d \<Longrightarrow> P (snd (m d))" "\<And>d. P d \<Longrightarrow> P (snd (k d))" "P d"
  shows "P (snd (pseq m k d))"
  using assms(2) assms(1) [OF assms(3)]
  by (cases "m d"; cases "fst (m d)") (auto simp: pseq_def pbind_def)

text \<open>What every single spending and adding keeps is kept by the payment.\<close>

lemma add_outputs_inv:
  assumes "\<And>out d. P d \<Longrightarrow> P (snd (add_new_output st kv out ic d))" "P d"
  shows "P (snd (add_outputs st kv t ic d))"
  using for_each_inv [of P, OF assms] assms(2)
  by (cases "tx_outputs t") (auto simp: add_outputs_def dict_get_def)

lemma update_token_state_inv:
  assumes "\<And>a n d. P d \<Longrightarrow> P (snd (spend_input st kv a n ic True d))"
    and "\<And>out d. P d \<Longrightarrow> P (snd (add_new_output st kv out ic d))" "P d"
  shows "P (snd (update_token_state st kv t ic d))"
  unfolding update_token_state_def
proof (rule pseq_inv [where P = P])
  show "P (snd (spend_inputs st kv True t ic e))" if "P e" for e
    using for_each_inv [of P, OF assms(1) that] that
    by (cases "tx_inputs t") (auto simp: spend_inputs_def dict_get_def)
qed (blast intro: add_outputs_inv [of P, OF assms(2)], rule assms(3))

lemma pcatch_snd: "snd (pcatch p h m s) = snd (m s)"
  by (simp add: pcatch_def split: prod.splits sum.splits)

lemma xfer_update_state_snd: "snd (xfer_update_state st kv t ic d) = snd (update_token_state st kv t ic d)"
  by (simp add: xfer_update_state_def update_token_state_def pcatch_snd)

lemma mint_update_state_snd: "snd (mint_update_state st kv t ic d) = snd (add_outputs st kv t ic d)"
  by (simp add: mint_update_state_def pcatch_snd)

lemma update_token_state_more:
  "token_db.more (snd (update_token_state st kv t ic db)) = token_db.more db"
  by (rule update_token_state_inv)
    (simp_all add: spend_input_def add_new_output_def Let_def on_cache_more)

lemma more_fields:
  fixes db e :: "('s, 'c, 'l, 't) fees_db"
  assumes "token_db.more db = token_db.more e"
  shows "fd_ledger db = fd_ledger e" "fd_token_tracker db = fd_token_tracker e"
    "fd_fees_tracker db = fd_fees_tracker e"
  using assms by (cases db; cases e; simp)+

lemma deducted_key_inject [key_simps]:
  "deducted_key t n = deducted_key u m \<longleftrightarrow> t = u \<and> n = m"
proof
  have "CHR ''#'' \<notin> set (py_str i)" for i using py_str_chars [of "CHR ''#''" i] by (auto simp: is_digit_def)
  then show "deducted_key t n = deducted_key u m \<Longrightarrow> t = u \<and> n = m"
    using last_sep [of "CHR ''#''" "py_str n" "py_str m" t u] by (simp add: deducted_key_def)
qed simp

section \<open>Applying fees\<close>

lemma domain_apply_fees:
  fixes db :: "('s, 'c, 'l, 't) fees_db"
  assumes "token_stores st kv False" "token_wf st kv False db"
    and "req_fees req = Fees3 ins outs sigs" "distinct ins"
    and "\<forall>i\<in>set ins. unspent (token_utxos kv False db) i"
    and "fresh (lg_next_seq_no lg (fd_ledger db)) outs (token_utxos kv False db)"
    and "fees = inputs_total (token_utxos kv False db) ins - payouts_total outs"
    and "t = make_fee_txn ledger_id req prev ins outs sigs fees (lg_next_seq_no lg (fd_ledger db))"
  shows "\<exists>db'. domain_apply_request st kv lg ledger_id req prev db = (Inr prev, db') \<and>
    token_wf st kv False db' \<and>
    token_utxos kv False db' = paid ins outs (lg_next_seq_no lg (fd_ledger db)) (token_utxos kv False db) \<and>
    fd_ledger db' = lg_appendTxns lg (fd_ledger db) t \<and>
    fd_fees_tracker db' = add_deducted_fees (op_type (req_operation req)) (dt_seqNo prev) fees
      ((fd_fees_tracker db)\<lparr>fees_in_current_batch := fees_in_current_batch (fd_fees_tracker db) + 1\<rparr>) \<and>
    fd_token_tracker db' = fd_token_tracker db"
proof -
  let ?n = "lg_next_seq_no lg (fd_ledger db)" and ?e = "db\<lparr>fd_ledger := lg_appendTxns lg (fd_ledger db) t\<rparr>"
  have wf: "cache_wf kv False (tk_cache db)" using assms(2) by (simp add: token_wf_def)
  have "calculate_fees_from_req kv req (tk_cache db) = Inr fees"
    using calculate_fees_spec [OF wf, of req ins outs] assms(3,4,5,7)
    by (simp add: fees_inputs_def get_change_for_fees_def token_utxos_def inputs_total_def
        sum_list_distinct_conv_sum_set)
  moreover have "payment_txn ins outs ?n (fx_txn t)"
    using assms(8) by (simp add: payment_txn_def make_fee_txn_def)
  moreover have e: "token_wf st kv False ?e" "token_utxos kv False ?e = token_utxos kv False db"
    using assms(2) by (simp_all add: token_wf_def token_utxos_def)
  ultimately obtain f where f: "update_token_state st kv (fx_txn t) False ?e = (Inr (), f)"
    "token_wf st kv False f" "token_utxos kv False f = paid ins outs ?n (token_utxos kv False db)"
    using token_stores.payment_ok [OF assms(1) e(1), of ins outs ?n "fx_txn t" True] assms(4-6)
    unfolding update_token_state_def by auto
  have m: "token_db.more f = token_db.more ?e"
    using update_token_state_more [of st kv "fx_txn t" False ?e] f(1) by simp
  have "has_fees req" "unpack_fees req = Inr (ins, outs, sigs)"
    using assms(3) by (simp_all add: has_fees_def unpack_fees_def)
  then show ?thesis
    using \<open>calculate_fees_from_req kv req (tk_cache db) = Inr fees\<close> f more_fields [OF m] assms(8)
    by (simp add: domain_apply_request_def token_wf_def token_utxos_def)
qed

section \<open>Properties\<close>

lemma make_fee_txn_sel [simp]:
  "fx_fees (make_fee_txn ledger_id req prev ins outs sigs fees n) = fees"
  "fx_ref (make_fee_txn ledger_id req prev ins outs sigs fees n) = get_ref_for_txn_fees ledger_id (dt_seqNo prev)"
  by (simp_all add: make_fee_txn_def)

lemma domain_fee_burns:
  fixes db :: "('s, 'c, 'l, 't) fees_db"
  assumes "state_map_store st" "kv_text_store kv False" "token_wf st kv False db"
    and "fee_due cst fs s md = Inr fee" "op_type (req_operation req) \<noteq> XFER_PUBLIC"
    and "authorize cst fs kv str_ex req md s (tk_cache db) = Inr (True, msg)"
    and "req_fees req = Fees3 ins outs sigs" "distinct ins"
    and "fresh (lg_next_seq_no lg (fd_ledger db)) outs (token_utxos kv False db)"
  shows "\<exists>db'. domain_apply_request st kv lg ledger_id req prev db = (Inr prev, db') \<and>
    token_wf st kv False db' \<and> (\<forall>i\<in>set ins. unspent (token_utxos kv False db) i) \<and>
    token_utxos kv False db' = paid ins outs (lg_next_seq_no lg (fd_ledger db)) (token_utxos kv False db) \<and>
    (\<forall>A. finite A \<longrightarrow> inp_address ` set ins \<union> pay_address ` set outs \<subseteq> A \<longrightarrow>
      token_supply A (token_utxos kv False db') = token_supply A (token_utxos kv False db) - fee) \<and>
    fd_ledger db' = lg_appendTxns lg (fd_ledger db)
      (make_fee_txn ledger_id req prev ins outs sigs fee (lg_next_seq_no lg (fd_ledger db))) \<and>
    fd_fees_tracker db' = add_deducted_fees (op_type (req_operation req)) (dt_seqNo prev) fee
      ((fd_fees_tracker db)\<lparr>fees_in_current_batch := fees_in_current_batch (fd_fees_tracker db) + 1\<rparr>)"
proof -
  let ?U = "token_utxos kv False db" and ?n = "lg_next_seq_no lg (fd_ledger db)"
  have wf: "cache_wf kv False (tk_cache db)" using assms(3) by (simp add: token_wf_def)
  have p: "fee_parts req ins outs" "has_fees req"
    using assms(5,7) by (simp_all add: fee_parts_def has_fees_def fees_inputs_def get_change_for_fees_def)
  then have "pays_exactly ?U ins outs fee"
    using authorize_parts [OF wf assms(4) p(1), of str_ex] assms(6) by (auto simp: token_utxos_def)
  then have u: "\<forall>i\<in>set ins. unspent ?U i" and fee: "fee = inputs_total ?U ins - payouts_total outs"
    using assms(8) by (auto simp: pays_exactly_def inputs_total_def sum_list_distinct_conv_sum_set)
  from domain_apply_fees [OF token_storesI [OF assms(1,2)] assms(3,7,8) u assms(9) fee refl, of ledger_id prev]
  obtain db' where db': "domain_apply_request st kv lg ledger_id req prev db = (Inr prev, db')"
    "token_wf st kv False db'" "token_utxos kv False db' = paid ins outs ?n ?U"
    "fd_ledger db' = lg_appendTxns lg (fd_ledger db) (make_fee_txn ledger_id req prev ins outs sigs fee ?n)"
    "fd_fees_tracker db' = add_deducted_fees (op_type (req_operation req)) (dt_seqNo prev) fee
      ((fd_fees_tracker db)\<lparr>fees_in_current_batch := fees_in_current_batch (fd_fees_tracker db) + 1\<rparr>)"
    by auto
  have "utxos_wf ?U" using cache_wf_utxos [OF wf] by (simp add: token_utxos_def)
  then have "\<forall>A. finite A \<longrightarrow> inp_address ` set ins \<union> pay_address ` set outs \<subseteq> A \<longrightarrow>
      token_supply A (token_utxos kv False db') = token_supply A ?U - fee"
    using supply_paid assms(8) u fee db'(3) by simp
  with db' u show ?thesis by blast
qed

text \<open>C10: A domain request with fees that the authorizer accepted, with distinct fee inputs and a fresh
  sequence number on the token ledger, is applied without error: state and cache agree, the
  fee inputs are gone and the change is added, the addresses involved together hold exactly the
  fee due less, the fee transaction on the token ledger records that amount, and the tracker
  counts it for this transaction.\<close>

theorem domain_fee_burns_exactly:
  fixes db :: "('s, 'c, 'l, 't) fees_db"
  assumes "state_map_store st" "kv_text_store kv False" "token_wf st kv False db"
    and "fee_due cst fs s md = Inr fee" "op_type (req_operation req) \<noteq> XFER_PUBLIC"
    and "authorize cst fs kv str_ex req md s (tk_cache db) = Inr (True, msg)"
    and "req_fees req = Fees3 ins outs sigs" "distinct ins"
    and "fresh (lg_next_seq_no lg (fd_ledger db)) outs (token_utxos kv False db)"
  shows "\<exists>db' t. domain_apply_request st kv lg ledger_id req prev db = (Inr prev, db') \<and>
    token_wf st kv False db' \<and>
    token_utxos kv False db' = paid ins outs (lg_next_seq_no lg (fd_ledger db)) (token_utxos kv False db) \<and>
    (\<forall>A. finite A \<longrightarrow> inp_address ` set ins \<union> pay_address ` set outs \<subseteq> A \<longrightarrow>
      token_supply A (token_utxos kv False db') = token_supply A (token_utxos kv False db) - fee) \<and>
    fd_ledger db' = lg_appendTxns lg (fd_ledger db) t \<and> fx_fees t = fee \<and>
    fees_in_current_batch (fd_fees_tracker db') = fees_in_current_batch (fd_fees_tracker db) + 1 \<and>
    has_deducted_fees (op_type (req_operation req)) (dt_seqNo prev) (fd_fees_tracker db')"
  using domain_fee_burns [OF assms, of ledger_id prev]
  by (elim exE conjE, intro exI conjI) (assumption | simp add: add_deducted_fees_def has_deducted_fees_def)+

text \<open>C11: With the fees plugin a transfer may be worth more than its outputs by exactly the fee due: if
  the authorizer accepted it, \<open>update_state\<close> succeeds and the addresses involved together hold
  exactly the fee less. A node that catches up, with the same unspent outputs in its committed
  cache, replays the transaction through the same method with \<open>is_committed\<close> true, without error,
  and ends with the unspent outputs of the live node.\<close>

theorem xfer_with_fee_burns_exactly:
  fixes db :: "('s, 'c, 'z) token_db_scheme"
  assumes "state_map_store st" "kv_text_store kv False" "kv_text_store kv True" "token_wf st kv False db"
    and "fee_due cst fs s md = Inr fee" "op_type (req_operation req) = XFER_PUBLIC"
    and "op_inputs (req_operation req) = Some ins" "op_outputs (req_operation req) = Some outs"
    and "authorize cst fs kv str_ex req md s (tk_cache db) = Inr (True, msg)"
    and "distinct ins" "fresh n outs (token_utxos kv False db)" "payment_txn ins outs n t"
  shows "\<exists>db'. xfer_update_state st kv t False db = (Inr (), db') \<and> token_wf st kv False db' \<and>
    (\<forall>A. finite A \<longrightarrow> inp_address ` set ins \<union> pay_address ` set outs \<subseteq> A \<longrightarrow>
      token_supply A (token_utxos kv False db') = token_supply A (token_utxos kv False db) - fee) \<and>
    (\<forall>c :: ('s, 'c, 'z) token_db_scheme. token_wf st kv True c \<longrightarrow> token_utxos kv True c = token_utxos kv False db \<longrightarrow>
      (\<exists>c'. xfer_update_state st kv t True c = (Inr (), c') \<and> token_wf st kv True c' \<and>
        token_utxos kv True c' = token_utxos kv False db'))"
proof -
  let ?U = "token_utxos kv False db"
  have wf: "cache_wf kv False (tk_cache db)" using assms(4) by (simp add: token_wf_def)
  have p: "fee_parts req ins outs" using assms(6-8) by (simp add: fee_parts_def)
  then have "pays_exactly ?U ins outs fee"
    using authorize_parts [OF wf assms(5) p, of str_ex] assms(6,9) by (auto simp: token_utxos_def)
  then have u: "\<forall>i\<in>set ins. unspent ?U i" and fee: "fee = inputs_total ?U ins - payouts_total outs"
    using assms(10) by (auto simp: pays_exactly_def inputs_total_def sum_list_distinct_conv_sum_set)
  have U: "utxos_wf ?U" using cache_wf_utxos [OF wf] by (simp add: token_utxos_def)
  obtain db' where "pseq (spend_inputs st kv True t False) (add_outputs st kv t False) db = (Inr (), db')"
    "token_wf st kv False db'" "token_utxos kv False db' = paid ins outs n ?U"
    using token_stores.payment_ok [OF token_storesI [OF assms(1,2)] assms(4,12,10) u assms(11), of True] by auto
  moreover have "\<exists>c'. pseq (spend_inputs st kv True t True) (add_outputs st kv t True) c = (Inr (), c') \<and>
      token_wf st kv True c' \<and> token_utxos kv True c' = paid ins outs n ?U"
    if "token_wf st kv True c" "token_utxos kv True c = ?U" for c :: "('s, 'c, 'z) token_db_scheme"
    using token_stores.payment_ok [OF token_storesI [OF assms(1,3)] that(1) assms(12,10), of True] u assms(11) that(2) by simp
  ultimately show ?thesis
    using supply_paid [OF _ _ U assms(10) u] fee
    by (intro exI [of _ db'] conjI) (auto simp: xfer_update_state_def pcatch_Inr_iff)
qed

text \<open>A ledger as a list of the fee transactions after a first transaction.\<close>

definition ref_ledger :: "fee_txn list ledger_ops" where
  "ref_ledger = \<lparr>lg_next_seq_no = (\<lambda>l. 2 + int (length l)), lg_appendTxns = (\<lambda>l t. l @ [t]),
     lg_discardTxns = (\<lambda>l n. take (length l - nat n) l),
     lg_uncommitted_root_hash = (\<lambda>l. py_str (1 + int (length l))),
     lg_uncommitted_size = (\<lambda>l. 1 + int (length l))\<rparr>"

definition ex_fdb :: "(ms, okv, fee_txn list, unit) fees_db" where
  "ex_fdb = \<lparr>tk_state = tk_state ex_db, tk_cache = tk_cache ex_db, fd_ledger = [],
     fd_token_tracker = (), fd_fees_tracker = tracker_init\<rparr>"

definition ex_domain_txn :: domain_txn where
  "ex_domain_txn = \<lparr>dt_type = ''1'', dt_seqNo = 5, dt_time = 100, dt_reqId = 8, dt_fees = None\<rparr>"

lemma ex_fdb_facts:
  "token_wf ms_store okv_store False ex_fdb" "token_utxos okv_store False ex_fdb = ex_utxos"
  "lg_next_seq_no ref_ledger (fd_ledger ex_fdb) = 2" "tk_cache ex_fdb = tk_cache ex_db"
  using ex_db_wf ex_db_utxos
  by (simp_all add: ex_fdb_def token_wf_def token_utxos_def ref_ledger_def)

lemma ex_nym_facts:
  "op_type (req_operation ex_nym) \<noteq> XFER_PUBLIC" "req_fees ex_nym = Fees3 [ex_input] [ex_change] [''sig'']"
  "fee_parts ex_nym [ex_input] [ex_change]" "has_fees ex_nym"
  "fresh 2 [ex_change] ex_utxos"
  by (simp_all add: ex_nym_def txn_type_defs fee_parts_def fees_inputs_def get_change_for_fees_def
      has_fees_def fresh_def ex_change_def ex_utxos_def)

lemma ex_nym_authorized:
  "\<exists>msg. authorize ms_store ref_fs okv_store (\<lambda>_. ''no'') ex_nym ex_md ex_config (tk_cache ex_db) = Inr (True, msg)"
  using authorize_parts [OF ex_cache_wf(1) ex_fee_due ex_nym_facts(3), of "\<lambda>_. ''no''"] ex_nym_facts(4) ex_pays
  by (simp add: ex_cache_wf(2))

theorem domain_fee_burns_exactly_witness:
  "\<exists>db'. domain_apply_request ms_store okv_store ref_ledger 1 ex_nym ex_domain_txn ex_fdb = (Inr ex_domain_txn, db') \<and>
    token_supply {''A'', ''B''} (token_utxos okv_store False db') = token_supply {''A'', ''B''} ex_utxos - 4 \<and>
    has_deducted_fees ''1'' 5 (fd_fees_tracker db')"
proof -
  obtain msg where "authorize ms_store ref_fs okv_store (\<lambda>_. ''no'') ex_nym ex_md ex_config (tk_cache ex_fdb) = Inr (True, msg)"
    using ex_nym_authorized by (auto simp: ex_fdb_facts)
  moreover have "fresh (lg_next_seq_no ref_ledger (fd_ledger ex_fdb)) [ex_change] (token_utxos okv_store False ex_fdb)"
    using ex_nym_facts(5) by (simp add: ex_fdb_facts)
  ultimately show ?thesis
    using domain_fee_burns_exactly [OF ref_stores ex_fdb_facts(1) ex_fee_due ex_nym_facts(1) _ ex_nym_facts(2),
        of "\<lambda>_. ''no''" msg ref_ledger 1 ex_domain_txn]
    by (force simp: ex_fdb_facts ex_nym_def ex_domain_txn_def ex_change_def)
qed

definition ex_xfer_fee :: request where
  "ex_xfer_fee = ex_request\<lparr>req_operation := (req_operation ex_request)\<lparr>op_outputs := Some [ex_change]\<rparr>\<rparr>"

text \<open>The example store again, with its output committed: a node that catches up.\<close>

definition ex_behind :: "(ms, okv) token_db" where
  "ex_behind = ex_db\<lparr>tk_cache := okv_empty\<lparr>okv_com := okv_cur (tk_cache ex_db)\<rparr>\<rparr>"

lemma ex_behind_holds: "holds_pairs okv_store True (tk_cache ex_behind) a (ex_utxos a)"
  by (simp add: holds_pairs_def ex_behind_def ex_db_def one_output_db_def ex_utxos_def okv_defs)

lemma ex_behind_facts:
  "token_utxos okv_store True ex_behind = ex_utxos" "token_wf ms_store okv_store True ex_behind"
proof -
  have u: "cache_utxos okv_store True (tk_cache ex_behind) = ex_utxos"
    using cache_utxos_holds(1) [OF ex_behind_holds] by (simp add: fun_eq_iff)
  then show "token_utxos okv_store True ex_behind = ex_utxos" by (simp add: token_utxos_def)
  have "distinct (map fst (ex_utxos a))" for a by (simp add: ex_utxos_def)
  then have "cache_wf okv_store True (tk_cache ex_behind)"
    unfolding cache_wf_def using ex_behind_holds by blast
  moreover have "state_agrees ms_store (tk_state ex_db) ex_utxos"
    using ex_db_wf ex_db_utxos by (simp add: token_wf_def)
  ultimately show "token_wf ms_store okv_store True ex_behind"
    by (simp add: token_wf_def token_utxos_def u) (simp add: ex_behind_def)
qed

theorem xfer_with_fee_burns_exactly_witness:
  "\<exists>db'. xfer_update_state ms_store okv_store (ex_txn\<lparr>tx_outputs := Some [ex_change]\<rparr>) False ex_db = (Inr (), db') \<and>
    token_supply {''A'', ''B''} (token_utxos okv_store False db') = token_supply {''A'', ''B''} ex_utxos - 4 \<and>
    (\<exists>c'. xfer_update_state ms_store okv_store (ex_txn\<lparr>tx_outputs := Some [ex_change]\<rparr>) True ex_behind = (Inr (), c') \<and>
      token_utxos okv_store True c' = token_utxos okv_store False db')"
proof -
  have op: "op_type (req_operation ex_xfer_fee) = XFER_PUBLIC" "op_inputs (req_operation ex_xfer_fee) = Some [ex_input]"
    "op_outputs (req_operation ex_xfer_fee) = Some [ex_change]"
    by (simp_all add: ex_xfer_fee_def ex_request_def)
  then have "fee_parts ex_xfer_fee [ex_input] [ex_change]" by (simp add: fee_parts_def)
  then obtain msg where a: "authorize ms_store ref_fs okv_store (\<lambda>_. ''no'') ex_xfer_fee ex_md ex_config (tk_cache ex_db) = Inr (True, msg)"
    using authorize_parts [OF ex_cache_wf(1) ex_fee_due, of ex_xfer_fee] op(1) ex_pays ex_cache_wf(2) by metis
  have "payment_txn [ex_input] [ex_change] 2 (ex_txn\<lparr>tx_outputs := Some [ex_change]\<rparr>)"
    by (simp add: payment_txn_def ex_txn_def)
  then show ?thesis
    using xfer_with_fee_burns_exactly [OF ref_stores okv.committed.kv_text_store_axioms ex_db_wf ex_fee_due op a, of 2] ex_nym_facts(5)
      ex_behind_facts ex_db_utxos
    by (force simp: ex_change_def)
qed

text \<open>The tracker answers exactly for the transactions that were added: the entry of one type and
  sequence number is never taken for that of another.\<close>

theorem tracker_exact:
  "has_deducted_fees u m (add_deducted_fees t n fees tr) \<longleftrightarrow> (u = t \<and> m = n) \<or> has_deducted_fees u m tr"
  by (auto simp: has_deducted_fees_def add_deducted_fees_def deducted_key_inject)

end
