(* ===== verification/Addresses.thy ===== *)
theory Addresses
  imports PyJson
begin

text \<open>
  Payment addresses (\<open>sovtoken/util.py\<close>): an address is the base58check text of a verification key
  of 32 bytes. The functions of the package \<open>base58\<close> are arguments; the locale \<open>base58_codec\<close>
  states that its decoders invert its encoders.
\<close>

text \<open>\<open>None\<close> is a \<open>ValueError\<close> of the decoder.\<close>

record base58_lib =
  b58encode :: "string \<Rightarrow> string"
  b58decode :: "string \<Rightarrow> string option"
  b58encode_check :: "string \<Rightarrow> string"
  b58decode_check :: "string \<Rightarrow> string option"

definition decode_address_to_vk_bytes :: "base58_lib \<Rightarrow> string \<Rightarrow> exn + string" where
  "decode_address_to_vk_bytes b58 addr =
     (case b58decode_check b58 addr of None \<Rightarrow> Inl UnknownIdentifier | Some vk \<Rightarrow> Inr vk)"

definition address_to_verkey :: "base58_lib \<Rightarrow> string \<Rightarrow> exn + string" where
  "address_to_verkey b58 addr =
     ebind (decode_address_to_vk_bytes b58 addr) (\<lambda>vk_bytes. Inr (b58encode b58 vk_bytes))"

definition verkey_to_address :: "base58_lib \<Rightarrow> string \<Rightarrow> exn + string" where
  "verkey_to_address b58 verkey =
     (case b58decode b58 verkey of
        None \<Rightarrow> Inl ValueError | Some b \<Rightarrow> Inr (b58encode_check b58 b))"

locale base58_codec =
  fixes b58 :: base58_lib
  assumes decode_encode: "b58decode b58 (b58encode b58 b) = Some b"
    and decode_encode_check: "b58decode_check b58 (b58encode_check b58 b) = Some b"
begin

lemma verkey_address_verkey:
  "verkey_to_address b58 (b58encode b58 vk) = Inr (b58encode_check b58 vk)"
  "address_to_verkey b58 (b58encode_check b58 vk) = Inr (b58encode b58 vk)"
  by (simp_all add: verkey_to_address_def address_to_verkey_def decode_address_to_vk_bytes_def
      decode_encode decode_encode_check)

lemma encode_check_inject: "b58encode_check b58 v = b58encode_check b58 w \<longleftrightarrow> v = w"
  by (metis decode_encode_check option.inject)

lemma b58encode_inject: "b58encode b58 v = b58encode b58 w \<longleftrightarrow> v = w"
  by (metis decode_encode option.inject)

end

text \<open>A codec that satisfies the assumptions: the plain encoding is the text itself, the checked one
  ends in a check character computed from the length.\<close>

definition len_check :: "string \<Rightarrow> char" where
  "len_check s = (if even (length s) then CHR ''e'' else CHR ''o'')"

definition ref_b58 :: base58_lib where
  "ref_b58 = \<lparr>b58encode = (\<lambda>b. b), b58decode = Some,
     b58encode_check = (\<lambda>b. b @ [len_check b]),
     b58decode_check = (\<lambda>s. if s \<noteq> [] \<and> last s = len_check (butlast s) then Some (butlast s) else None)\<rparr>"

interpretation ref_b58: base58_codec ref_b58
  by unfold_locales (simp_all add: ref_b58_def)

text \<open>\<open>PublicAddressField\<close> accepts what decodes to a key of 32 bytes.\<close>

definition valid_address :: "base58_lib \<Rightarrow> string \<Rightarrow> bool" where
  "valid_address b58 a \<longleftrightarrow> (\<exists>vk. b58decode_check b58 a = Some vk \<and> length vk = 32)"

section \<open>Properties\<close>

text \<open>Converting a verification key to its address and back returns the key, and different keys
  have different addresses; a text that is not base58check raises \<open>UnknownIdentifier\<close>.\<close>

theorem address_verkey_roundtrip:
  assumes "base58_codec b58" "verkey = b58encode b58 vk"
  shows "\<exists>a. verkey_to_address b58 verkey = Inr a \<and> address_to_verkey b58 a = Inr verkey \<and>
    (\<forall>vk'. verkey_to_address b58 (b58encode b58 vk') = Inr a \<longrightarrow> vk' = vk) \<and>
    (\<forall>t. b58decode_check b58 t = None \<longrightarrow> address_to_verkey b58 t = Inl UnknownIdentifier)"
  using base58_codec.verkey_address_verkey [OF assms(1)] base58_codec.encode_check_inject [OF assms(1)]
    assms(2)
  by (auto simp: address_to_verkey_def decode_address_to_vk_bytes_def)

theorem address_verkey_roundtrip_witness:
  "\<exists>a. verkey_to_address ref_b58 ''key'' = Inr a \<and> address_to_verkey ref_b58 a = Inr ''key''"
  using address_verkey_roundtrip [OF ref_b58.base58_codec_axioms, of "''key''" "''key''"]
  by (auto simp: ref_b58_def)

end
