(* ===== verification/Token_Messages.thy ===== *)
theory Token_Messages
  imports Token_Handlers Addresses
begin

text \<open>
  Static validation of the token plugin's requests: the fields of \<open>sovtoken/messages/fields.py\<close>, the
  functions of \<open>txn_validator.py\<close> and \<open>validation.py\<close>, and \<open>static_validation\<close> of the three handlers.

  The base classes of the fields are plenum's; \<open>plenum_fields\<close> holds what the plugin inherits
  from them and the locale \<open>field_laws\<close> what it relies on. The main lemmas say exactly which
  requests are accepted, and that an accepted operation reads as inputs without repetition and
  as outputs to distinct addresses with positive amounts.
\<close>

section \<open>Inherited validation\<close>

text \<open>\<open>pf_validate\<close> is \<open>FieldBase.validate\<close> for given base types and \<open>_specific_validation\<close>;
  \<open>pf_map\<close>, \<open>pf_iter\<close> are \<open>validate\<close> of \<open>AnyMapField\<close> and \<open>IterableField\<close> with an overriding
  \<open>_specific_validation\<close>; \<open>pf_map_specific\<close>, \<open>pf_iter_specific\<close> are the overridden methods (the
  latter for the \<open>validate\<close> of the inner field); \<open>pf_seq_no\<close> is \<open>TxnSeqNoField().validate\<close>.\<close>

record plenum_fields =
  pf_validate :: "string list \<Rightarrow> (jval \<Rightarrow> vres) \<Rightarrow> jval \<Rightarrow> vres"
  pf_map :: "(jval \<Rightarrow> vres) \<Rightarrow> jval \<Rightarrow> vres"
  pf_map_specific :: "jval \<Rightarrow> vres"
  pf_iter :: "(jval \<Rightarrow> vres) \<Rightarrow> jval \<Rightarrow> vres"
  pf_iter_specific :: "(jval \<Rightarrow> vres) \<Rightarrow> jval \<Rightarrow> vres"
  pf_seq_no :: "jval \<Rightarrow> vres"

section \<open>Fields\<close>

text \<open>\<open>str(ex)\<close> of a \<open>ValueError\<close> is an argument \<open>str_ex\<close>. The type check comes first, so that the
  value is a text.\<close>

definition public_address_specific :: "base58_lib \<Rightarrow> string \<Rightarrow> jval \<Rightarrow> vres" where
  "public_address_specific b58 str_ex val =
     (case val of
        JStr s \<Rightarrow>
          (case decode_address_to_vk_bytes b58 s of
             Inr vk \<Rightarrow> if length vk \<noteq> 32
               then Inr (Some (''Not a valid address as it resolves to '' @ nat_str (length vk) @ '' byte verkey''))
               else Inr None
           | Inl ValueError \<Rightarrow> Inr (Some str_ex)
           | Inl e \<Rightarrow> Inl e)
      | _ \<Rightarrow> Inl TypeError)"

definition public_address_validate :: "plenum_fields \<Rightarrow> base58_lib \<Rightarrow> string \<Rightarrow> jval \<Rightarrow> vres" where
  "public_address_validate F b58 str_ex = pf_validate F [''str''] (public_address_specific b58 str_ex)"

definition public_amount_specific :: "jval \<Rightarrow> vres" where
  "public_amount_specific val =
     (case val of
        JInt i \<Rightarrow> if i \<le> 0 then Inr (Some ''negative or zero value'') else Inr None
      | JBool b \<Rightarrow> if b then Inr None else Inr (Some ''negative or zero value'')
      | _ \<Rightarrow> Inl TypeError)"

definition public_amount_validate :: "plenum_fields \<Rightarrow> jval \<Rightarrow> vres" where
  "public_amount_validate F = pf_validate F [''int''] public_amount_specific"

definition public_output_specific :: "plenum_fields \<Rightarrow> base58_lib \<Rightarrow> string \<Rightarrow> jval \<Rightarrow> vres" where
  "public_output_specific F b58 str_ex val =
     vthen (pf_map_specific F val) []
    (vthen (ebind (j_get val ''address'') (public_address_validate F b58 str_ex)) ''address -- ''
    (vthen (ebind (j_get val ''amount'') (public_amount_validate F)) ''amount -- ''
    (Inr None)))"

definition public_output_validate :: "plenum_fields \<Rightarrow> base58_lib \<Rightarrow> string \<Rightarrow> jval \<Rightarrow> vres" where
  "public_output_validate F b58 str_ex = pf_map F (public_output_specific F b58 str_ex)"

text \<open>The elements of \<open>[f(a) for a in val]\<close>; the first exception ends the comprehension.\<close>

fun j_collect :: "(jval \<Rightarrow> exn + 'a) \<Rightarrow> jval list \<Rightarrow> exn + 'a list" where
  "j_collect f [] = Inr []"
| "j_collect f (v # vs) = ebind (f v) (\<lambda>x. ebind (j_collect f vs) (\<lambda>xs. Inr (x # xs)))"

definition j_items :: "jval \<Rightarrow> exn + jval list" where
  "j_items v = (case v of JList xs \<Rightarrow> Inr xs | _ \<Rightarrow> Inl TypeError)"

definition public_outputs_specific :: "plenum_fields \<Rightarrow> base58_lib \<Rightarrow> string \<Rightarrow> jval \<Rightarrow> vres" where
  "public_outputs_specific F b58 str_ex val =
     vthen (pf_iter_specific F (public_output_validate F b58 str_ex) val) []
    (ebind (j_items val) (\<lambda>items.
     ebind (j_collect (\<lambda>a. j_get a ''address'') items) (\<lambda>addrs.
     if length items \<noteq> card (set addrs) then Inr (Some ''Each output should contain unique address'')
     else Inr None)))"

definition public_outputs_validate :: "plenum_fields \<Rightarrow> base58_lib \<Rightarrow> string \<Rightarrow> jval \<Rightarrow> vres" where
  "public_outputs_validate F b58 str_ex = pf_iter F (public_outputs_specific F b58 str_ex)"

definition public_input_specific :: "plenum_fields \<Rightarrow> base58_lib \<Rightarrow> string \<Rightarrow> jval \<Rightarrow> vres" where
  "public_input_specific F b58 str_ex val =
     vthen (pf_map_specific F val) []
    (vthen (ebind (j_get val ''address'') (public_address_validate F b58 str_ex)) ''address -- ''
    (vthen (ebind (j_get val ''seqNo'') (pf_seq_no F)) ''seqNo -- ''
    (Inr None)))"

definition public_input_validate :: "plenum_fields \<Rightarrow> base58_lib \<Rightarrow> string \<Rightarrow> jval \<Rightarrow> vres" where
  "public_input_validate F b58 str_ex = pf_map F (public_input_specific F b58 str_ex)"

definition public_inputs_specific :: "plenum_fields \<Rightarrow> base58_lib \<Rightarrow> string \<Rightarrow> jval \<Rightarrow> vres" where
  "public_inputs_specific F b58 str_ex val =
     vthen (pf_iter_specific F (public_input_validate F b58 str_ex) val) []
    (ebind (j_items val) (\<lambda>items.
     ebind (j_collect (\<lambda>a. ebind (j_get a ''address'') (\<lambda>x.
                           ebind (j_get a ''seqNo'') (\<lambda>n. Inr (x, j_num n)))) items) (\<lambda>pairs.
     if length items \<noteq> card (set pairs) then Inr (Some ''Each input should be unique'')
     else Inr None)))"

definition public_inputs_validate :: "plenum_fields \<Rightarrow> base58_lib \<Rightarrow> string \<Rightarrow> jval \<Rightarrow> vres" where
  "public_inputs_validate F b58 str_ex = pf_iter F (public_inputs_specific F b58 str_ex)"

section \<open>Validation of requests\<close>

type_synonym joperation = "string \<rightharpoonup> jval"

text \<open>The classes that the functions use, as one argument.\<close>

record field_env =
  fe_fields :: plenum_fields
  fe_b58 :: base58_lib
  fe_str_ex :: string

definition outputs_validate :: "field_env \<Rightarrow> joperation \<Rightarrow> vres" where
  "outputs_validate E operation =
     (case operation ''outputs'' of
        None \<Rightarrow> Inl InvalidClientRequest
      | Some v \<Rightarrow> public_outputs_validate (fe_fields E) (fe_b58 E) (fe_str_ex E) v)"

definition inputs_validate :: "field_env \<Rightarrow> joperation \<Rightarrow> vres" where
  "inputs_validate E operation =
     (case operation ''inputs'' of
        None \<Rightarrow> Inl InvalidClientRequest
      | Some inputs \<Rightarrow>
          (case operation ''signatures'' of
             None \<Rightarrow> Inl InvalidClientRequest
           | Some sigs \<Rightarrow>
               ebind (j_len inputs) (\<lambda>n. ebind (j_len sigs) (\<lambda>m.
               if n \<noteq> m then Inl InvalidClientRequest
               else public_inputs_validate (fe_fields E) (fe_b58 E) (fe_str_ex E) inputs))))"

definition from_validate :: "field_env \<Rightarrow> joperation \<Rightarrow> vres" where
  "from_validate E operation =
     (case operation ''from'' of
        None \<Rightarrow> Inr None
      | Some v \<Rightarrow> ebind (pf_seq_no (fe_fields E) v) (\<lambda>error.
          if no_error error then Inr error
          else Inr (Some ([CHR 0x27] @ ''from'' @ [CHR 0x27] @ '' validation failed: '' @ the error))))"

definition address_validate :: "field_env \<Rightarrow> joperation \<Rightarrow> vres" where
  "address_validate E operation =
     ebind (case operation ''address'' of
              None \<Rightarrow> Inr (Some ''address needs to be provided'')
            | Some v \<Rightarrow> public_address_validate (fe_fields E) (fe_b58 E) (fe_str_ex E) v) (\<lambda>error.
     if no_error error then Inr None else Inl InvalidClientRequest)"

definition txn_mint_public_validate :: "field_env \<Rightarrow> joperation \<Rightarrow> vres" where
  "txn_mint_public_validate E operation =
     (case operation ''type'' of
        None \<Rightarrow> Inl KeyError
      | Some t \<Rightarrow>
          if t = JStr MINT_PUBLIC
          then ebind (outputs_validate E operation) (\<lambda>error.
            if no_error error
            then ebind (j_len (the (operation ''outputs''))) (\<lambda>n.
              if n = 0 then Inl InvalidClientRequest else Inr error)
            else Inr error)
          else Inr None)"

definition txn_xfer_public_validate :: "field_env \<Rightarrow> joperation \<Rightarrow> vres" where
  "txn_xfer_public_validate E operation =
     (case operation ''type'' of
        None \<Rightarrow> Inl KeyError
      | Some t \<Rightarrow>
          if t = JStr XFER_PUBLIC
          then ebind (outputs_validate E operation) (\<lambda>error.
            if no_error error then inputs_validate E operation else Inr error)
          else Inr None)"

definition txt_get_utxo_validate :: "field_env \<Rightarrow> joperation \<Rightarrow> vres" where
  "txt_get_utxo_validate E operation =
     (case operation ''type'' of
        None \<Rightarrow> Inl KeyError
      | Some t \<Rightarrow>
          if t = JStr GET_UTXO
          then ebind (address_validate E operation) (\<lambda>error.
            if no_error error then from_validate E operation else Inr error)
          else Inr None)"

text \<open>The handlers raise \<open>InvalidClientRequest\<close> for every error text.\<close>

definition reject_error :: "vres \<Rightarrow> exn + unit" where
  "reject_error r = ebind r (\<lambda>error. if no_error error then Inr () else Inl InvalidClientRequest)"

definition mint_static_validation :: "field_env \<Rightarrow> joperation \<Rightarrow> exn + unit" where
  "mint_static_validation E operation = reject_error (txn_mint_public_validate E operation)"

definition xfer_static_validation :: "field_env \<Rightarrow> joperation \<Rightarrow> exn + unit" where
  "xfer_static_validation E operation = reject_error (txn_xfer_public_validate E operation)"

definition get_utxo_static_validation :: "field_env \<Rightarrow> joperation \<Rightarrow> exn + unit" where
  "get_utxo_static_validation E operation = reject_error (txt_get_utxo_validate E operation)"

text \<open>\<open>TXN_STATIC_VALIDATION_MAP\<close> and \<open>static_req_validation\<close>; \<open>None\<close> is an argument that is not a
  \<open>Request\<close>.\<close>

definition TXN_STATIC_VALIDATION_MAP :: "field_env \<Rightarrow> string \<rightharpoonup> (joperation \<Rightarrow> vres)" where
  "TXN_STATIC_VALIDATION_MAP E =
     [MINT_PUBLIC \<mapsto> txn_mint_public_validate E, XFER_PUBLIC \<mapsto> txn_xfer_public_validate E,
      GET_UTXO \<mapsto> txt_get_utxo_validate E]"

definition static_req_validation :: "field_env \<Rightarrow> joperation option \<Rightarrow> exn + unit" where
  "static_req_validation E request =
     (case request of
        None \<Rightarrow> Inl InvalidClientRequest
      | Some operation \<Rightarrow>
          (case operation ''type'' of
             Some (JStr txn_type) \<Rightarrow>
               if txn_type \<in> set ACCEPTABLE_TXN_TYPES
               then (case TXN_STATIC_VALIDATION_MAP E txn_type of
                   None \<Rightarrow> Inl KeyError
                 | Some static_validation_func \<Rightarrow> reject_error (static_validation_func operation))
               else Inl InvalidClientRequest
           | _ \<Rightarrow> Inl InvalidClientRequest))"

section \<open>What the operations stand for\<close>

fun payout_of :: "jval \<Rightarrow> payout option" where
  "payout_of (JMap m) = (case (map_of m ''address'', map_of m ''amount'') of
     (Some (JStr a), Some (JInt v)) \<Rightarrow> Some \<lparr>pay_address = a, pay_amount = v\<rparr> | _ \<Rightarrow> None)"
| "payout_of _ = None"

fun input_of :: "jval \<Rightarrow> input option" where
  "input_of (JMap m) = (case (map_of m ''address'', map_of m ''seqNo'') of
     (Some (JStr a), Some (JInt n)) \<Rightarrow> Some \<lparr>inp_address = a, inp_seqNo = n\<rparr> | _ \<Rightarrow> None)"
| "input_of _ = None"

text \<open>Booleans are integers for \<open>isinstance\<close>; the specification below leaves them aside.\<close>

definition no_bools :: "jval \<Rightarrow> bool" where
  "no_bools v \<longleftrightarrow> (\<forall>xs m p b. v = JList xs \<longrightarrow> JMap m \<in> set xs \<longrightarrow> p \<in> set m \<longrightarrow> snd p \<noteq> JBool b)"

definition valid_payouts :: "base58_lib \<Rightarrow> payout list \<Rightarrow> bool" where
  "valid_payouts b58 outs \<longleftrightarrow> distinct (map pay_address outs) \<and>
     (\<forall>p\<in>set outs. valid_address b58 (pay_address p) \<and> 0 < pay_amount p)"

definition valid_inputs :: "base58_lib \<Rightarrow> input list \<Rightarrow> bool" where
  "valid_inputs b58 ins \<longleftrightarrow> distinct ins \<and>
     (\<forall>i\<in>set ins. valid_address b58 (inp_address i) \<and> 1 \<le> inp_seqNo i)"

lemma payout_of_Some: "payout_of v = Some p \<longleftrightarrow> (\<exists>m. v = JMap m \<and>
    map_of m ''address'' = Some (JStr (pay_address p)) \<and> map_of m ''amount'' = Some (JInt (pay_amount p)))"
  by (cases v; cases p) (auto split: option.splits jval.splits)

lemma input_of_Some: "input_of v = Some i \<longleftrightarrow> (\<exists>m. v = JMap m \<and>
    map_of m ''address'' = Some (JStr (inp_address i)) \<and> map_of m ''seqNo'' = Some (JInt (inp_seqNo i)))"
  by (cases v; cases i) (auto split: option.splits jval.splits)

lemma ex_payout: "(\<exists>p :: payout. P (pay_address p) (pay_amount p)) \<longleftrightarrow> (\<exists>a n. P a n)"
  by (metis payout.select_convs(1,2))

lemma ex_input: "(\<exists>i :: input. P (inp_address i) (inp_seqNo i)) \<longleftrightarrow> (\<exists>a n. P a n)"
  by (metis input.select_convs(1,2))

lemma card_set_length: "card (set xs) = length xs \<longleftrightarrow> distinct xs"
  using card_distinct distinct_card by blast

lemma map_Some_ex: "(\<exists>ys. map f xs = map Some ys) \<longleftrightarrow> (\<forall>x\<in>set xs. \<exists>y. f x = Some y)"
proof (induction xs)
  case (Cons x xs)
  then show ?case by (auto simp: map_eq_Cons_conv Cons_eq_map_conv)
qed simp

lemma j_collect_map:
  "list_all2 (\<lambda>x y. f x = Inr (g y)) xs ys \<Longrightarrow> j_collect f xs = Inr (map g ys)"
  by (induction rule: list_all2_induct) auto

lemma list_all2_map_Some: "map f xs = map Some ys \<longleftrightarrow> list_all2 (\<lambda>x y. f x = Some y) xs ys"
  by (auto simp: list_all2_conv_all_nth list_eq_iff_nth_eq)

section \<open>Laws of the base classes\<close>

locale field_laws =
  fixes F :: plenum_fields
    and type_msg :: "jval \<Rightarrow> string"
  assumes type_msg: "type_msg v \<noteq> []"
    and validate_law: "j_type v \<noteq> ''bool'' \<or> ''int'' \<notin> set tys \<Longrightarrow>
      pf_validate F tys f v = (if j_type v \<in> set tys then f v else Inr (Some (type_msg v)))"
    and map_law: "pf_map F f v = (if j_type v = ''dict'' then f v else Inr (Some (type_msg v)))"
    and map_specific_law: "accepts (pf_map_specific F v)"
    and iter_law: "pf_iter F f v = (if j_type v = ''list'' then f v else Inr (Some (type_msg v)))"
    and iter_specific_law: "accepts (pf_iter_specific F g (JList xs)) \<longleftrightarrow> (\<forall>x\<in>set xs. accepts (g x))"
    and seq_no_law: "j_type v \<noteq> ''bool'' \<Longrightarrow> accepts (pf_seq_no F v) \<longleftrightarrow> (\<exists>n. v = JInt n \<and> 1 \<le> n)"
begin

lemma address_accepts:
  "accepts (public_address_validate F b58 s v) \<longleftrightarrow> (\<exists>a. v = JStr a \<and> valid_address b58 a)"
  by (cases v) (auto simp: public_address_validate_def validate_law public_address_specific_def
      decode_address_to_vk_bytes_def valid_address_def type_msg split: option.splits)

lemma amount_accepts:
  "j_type v \<noteq> ''bool'' \<Longrightarrow> accepts (public_amount_validate F v) \<longleftrightarrow> (\<exists>n. v = JInt n \<and> 0 < n)"
  by (cases v) (auto simp: public_amount_validate_def validate_law public_amount_specific_def type_msg)

lemma output_accepts:
  assumes "\<And>m p b. v = JMap m \<Longrightarrow> p \<in> set m \<Longrightarrow> snd p \<noteq> JBool b"
  shows "accepts (public_output_validate F b58 s v) \<longleftrightarrow>
    (\<exists>p. payout_of v = Some p \<and> valid_address b58 (pay_address p) \<and> 0 < pay_amount p)"
proof (cases "j_type v = ''dict''")
  case True
  then obtain m where m: "v = JMap m" by (auto simp: j_type_iff)
  have nb: "map_of m k = Some x \<Longrightarrow> j_type x \<noteq> ''bool''" for k x
    using assms [OF m, of "(k, x)"] map_of_SomeD [of m k x] by (cases x) auto
  have "accepts (public_output_validate F b58 s v) \<longleftrightarrow>
      (\<exists>a n. map_of m ''address'' = Some (JStr a) \<and> valid_address b58 a \<and>
        map_of m ''amount'' = Some (JInt n) \<and> 0 < n)"
    using m nb amount_accepts address_accepts map_specific_law [of v]
    by (auto simp: public_output_validate_def map_law public_output_specific_def accepts_ebind
        split: option.splits)
  then show ?thesis
    using m ex_payout [of "\<lambda>a n. map_of m ''address'' = Some (JStr a) \<and> valid_address b58 a \<and>
        map_of m ''amount'' = Some (JInt n) \<and> 0 < n"] by (auto simp: payout_of_Some simp del: payout_of.simps)
next
  case False
  then show ?thesis
    by (cases v) (simp_all add: public_output_validate_def map_law type_msg)
qed

lemma input_accepts:
  assumes "\<And>m p b. v = JMap m \<Longrightarrow> p \<in> set m \<Longrightarrow> snd p \<noteq> JBool b"
  shows "accepts (public_input_validate F b58 s v) \<longleftrightarrow>
    (\<exists>i. input_of v = Some i \<and> valid_address b58 (inp_address i) \<and> 1 \<le> inp_seqNo i)"
proof (cases "j_type v = ''dict''")
  case True
  then obtain m where m: "v = JMap m" by (auto simp: j_type_iff)
  have nb: "map_of m k = Some x \<Longrightarrow> j_type x \<noteq> ''bool''" for k x
    using assms [OF m, of "(k, x)"] map_of_SomeD [of m k x] by (cases x) auto
  have "accepts (public_input_validate F b58 s v) \<longleftrightarrow>
      (\<exists>a n. map_of m ''address'' = Some (JStr a) \<and> valid_address b58 a \<and>
        map_of m ''seqNo'' = Some (JInt n) \<and> 1 \<le> n)"
    using m nb seq_no_law address_accepts map_specific_law [of v]
    by (auto simp: public_input_validate_def map_law public_input_specific_def accepts_ebind
        split: option.splits)
  then show ?thesis
    using m ex_input [of "\<lambda>a n. map_of m ''address'' = Some (JStr a) \<and> valid_address b58 a \<and>
        map_of m ''seqNo'' = Some (JInt n) \<and> 1 \<le> n"] by (auto simp: input_of_Some simp del: input_of.simps)
next
  case False
  then show ?thesis
    by (cases v) (simp_all add: public_input_validate_def map_law type_msg)
qed

end

context field_laws
begin

lemma no_bools_item:
  "no_bools (JList js) \<Longrightarrow> v \<in> set js \<Longrightarrow> v = JMap m \<Longrightarrow> p \<in> set m \<Longrightarrow> snd p \<noteq> JBool b"
  unfolding no_bools_def by blast

lemma outputs_accepts:
  assumes "no_bools v"
  shows "accepts (public_outputs_validate F b58 s v) \<longleftrightarrow>
    (\<exists>js outs. v = JList js \<and> map payout_of js = map Some outs \<and> valid_payouts b58 outs)"
proof (cases "j_type v = ''list''")
  case True
  then obtain js where v: "v = JList js" by (auto simp: j_type_iff)
  have each: "accepts (public_output_validate F b58 s x) \<longleftrightarrow>
      (\<exists>p. payout_of x = Some p \<and> valid_address b58 (pay_address p) \<and> 0 < pay_amount p)" if "x \<in> set js" for x
    using output_accepts no_bools_item [OF assms [unfolded v] that] by blast
  have eq: "accepts (public_outputs_specific F b58 s v) \<longleftrightarrow> valid_payouts b58 outs"
    if "map payout_of js = map Some outs" for outs
  proof -
    have len: "length outs = length js" using that by (metis length_map)
    have "list_all2 (\<lambda>x p. j_get x ''address'' = Inr (JStr (pay_address p))) js outs"
      using that unfolding list_all2_map_Some
      by (rule list_all2_mono) (auto simp: payout_of_Some)
    then have c: "j_collect (\<lambda>a. j_get a ''address'') js = Inr (map (\<lambda>p. JStr (pay_address p)) outs)"
      by (rule j_collect_map)
    have "(\<forall>x\<in>set js. \<exists>p. payout_of x = Some p \<and> valid_address b58 (pay_address p) \<and> 0 < pay_amount p) \<longleftrightarrow>
        (\<forall>p\<in>set outs. valid_address b58 (pay_address p) \<and> 0 < pay_amount p)"
      using arg_cong [OF that, of set] by (auto simp: image_iff set_eq_iff) (metis option.inject)+
    moreover have "length js = card (set (map (\<lambda>p. JStr (pay_address p)) outs)) \<longleftrightarrow> distinct (map pay_address outs)"
      using card_set_length [of "map (\<lambda>p. JStr (pay_address p)) outs"] len
      by (auto simp: distinct_map inj_on_def)
    ultimately show ?thesis
      using each by (auto simp: public_outputs_specific_def v iter_specific_law j_items_def c valid_payouts_def)
  qed
  have "accepts (public_outputs_specific F b58 s v) \<Longrightarrow> \<exists>outs. map payout_of js = map Some outs"
    using each unfolding map_Some_ex
    by (auto simp: public_outputs_specific_def v iter_specific_law)
  then show ?thesis using eq v by (auto simp: public_outputs_validate_def iter_law)
next
  case False
  then show ?thesis by (auto simp: public_outputs_validate_def iter_law type_msg)
qed

end

context field_laws
begin

lemma inputs_accepts:
  assumes "no_bools v"
  shows "accepts (public_inputs_validate F b58 s v) \<longleftrightarrow>
    (\<exists>js ins. v = JList js \<and> map input_of js = map Some ins \<and> valid_inputs b58 ins)"
proof (cases "j_type v = ''list''")
  case True
  then obtain js where v: "v = JList js" by (auto simp: j_type_iff)
  let ?pair = "\<lambda>i. (JStr (inp_address i), JInt (inp_seqNo i))"
  have each: "accepts (public_input_validate F b58 s x) \<longleftrightarrow>
      (\<exists>i. input_of x = Some i \<and> valid_address b58 (inp_address i) \<and> 1 \<le> inp_seqNo i)" if "x \<in> set js" for x
    using input_accepts no_bools_item [OF assms [unfolded v] that] by blast
  have eq: "accepts (public_inputs_specific F b58 s v) \<longleftrightarrow> valid_inputs b58 ins"
    if "map input_of js = map Some ins" for ins
  proof -
    have len: "length ins = length js" using that by (metis length_map)
    have "list_all2 (\<lambda>x i. ebind (j_get x ''address'') (\<lambda>a. ebind (j_get x ''seqNo'') (\<lambda>n. Inr (a, j_num n)))
        = Inr (?pair i)) js ins"
      using that unfolding list_all2_map_Some
      by (rule list_all2_mono) (auto simp: input_of_Some)
    note c = j_collect_map [OF this]
    have "(\<forall>x\<in>set js. \<exists>i. input_of x = Some i \<and> valid_address b58 (inp_address i) \<and> 1 \<le> inp_seqNo i) \<longleftrightarrow>
        (\<forall>i\<in>set ins. valid_address b58 (inp_address i) \<and> 1 \<le> inp_seqNo i)"
      using arg_cong [OF that, of set] by (auto simp: image_iff set_eq_iff) (metis option.inject)+
    moreover have "inj_on ?pair (set ins)" by (auto simp: inj_on_def)
    then have "length js = card (set (map ?pair ins)) \<longleftrightarrow> distinct ins"
      using card_set_length [of "map ?pair ins"] len by (auto simp: distinct_map)
    ultimately show ?thesis
      using each by (auto simp: public_inputs_specific_def v iter_specific_law j_items_def c valid_inputs_def)
  qed
  have "accepts (public_inputs_specific F b58 s v) \<Longrightarrow> \<exists>ins. map input_of js = map Some ins"
    using each unfolding map_Some_ex
    by (auto simp: public_inputs_specific_def v iter_specific_law)
  then show ?thesis using eq v by (auto simp: public_inputs_validate_def iter_law)
next
  case False
  then show ?thesis by (auto simp: public_inputs_validate_def iter_law type_msg)
qed

end

text \<open>Base classes that satisfy the laws.\<close>

fun ref_iter_specific :: "(jval \<Rightarrow> vres) \<Rightarrow> jval list \<Rightarrow> vres" where
  "ref_iter_specific g [] = Inr None"
| "ref_iter_specific g (x # xs) = vthen (g x) [] (ref_iter_specific g xs)"

definition ref_fields :: plenum_fields where
  "ref_fields = \<lparr>
     pf_validate = (\<lambda>tys f v. if j_type v \<in> set tys then f v else Inr (Some ''expected types'')),
     pf_map = (\<lambda>f v. if j_type v = ''dict'' then f v else Inr (Some ''expected types'')),
     pf_map_specific = (\<lambda>v. Inr None),
     pf_iter = (\<lambda>f v. if j_type v = ''list'' then f v else Inr (Some ''expected types'')),
     pf_iter_specific = (\<lambda>g v. case v of JList xs \<Rightarrow> ref_iter_specific g xs | _ \<Rightarrow> Inl TypeError),
     pf_seq_no = (\<lambda>v. case v of JInt n \<Rightarrow> if n < 1 then Inr (Some ''cannot be smaller than 1'') else Inr None
       | _ \<Rightarrow> Inr (Some ''expected types''))\<rparr>"

lemma accepts_ref_iter: "accepts (ref_iter_specific g xs) \<longleftrightarrow> (\<forall>x\<in>set xs. accepts (g x))"
  by (induction xs) auto

interpretation ref_fields: field_laws ref_fields "\<lambda>_. ''expected types''"
  by unfold_locales (auto simp: ref_fields_def accepts_ref_iter split: jval.splits)

section \<open>Which requests are accepted\<close>

lemma reject_error_Inr: "reject_error r = Inr () \<longleftrightarrow> accepts r"
  by (cases r) (auto simp: reject_error_def accepts_def no_error_def)

lemma accepts_ebind_no_error:
  "accepts (ebind r (\<lambda>error. if no_error error then k error else Inr error)) \<longleftrightarrow>
   accepts r \<and> accepts (k (projr r))"
  by (cases r) (auto simp: no_error_def accepts_def)

lemma accepts_guard:
  "accepts (ebind r (\<lambda>error. if no_error error then Inr None else Inl e)) \<longleftrightarrow> accepts r"
  "(\<And>error. m error \<noteq> []) \<Longrightarrow>
   accepts (ebind r (\<lambda>error. if no_error error then Inr error else Inr (Some (m error)))) \<longleftrightarrow> accepts r"
  by (cases r; auto simp: no_error_def accepts_def)+

lemma mint_accepted_iff:
  assumes "operation ''type'' = Some (JStr MINT_PUBLIC)" "operation ''outputs'' = Some v"
  shows "mint_static_validation E operation = Inr () \<longleftrightarrow>
    accepts (public_outputs_validate (fe_fields E) (fe_b58 E) (fe_str_ex E) v) \<and> (\<exists>n. j_len v = Inr n \<and> n \<noteq> 0)"
  unfolding mint_static_validation_def reject_error_Inr txn_mint_public_validate_def outputs_validate_def
  using assms by (cases "public_outputs_validate (fe_fields E) (fe_b58 E) (fe_str_ex E) v"; cases "j_len v")
    (auto simp: accepts_def no_error_def)

lemma xfer_accepted_iff:
  assumes "operation ''type'' = Some (JStr XFER_PUBLIC)" "operation ''outputs'' = Some v"
    "operation ''inputs'' = Some w" "operation ''signatures'' = Some (JList sigs)"
  shows "xfer_static_validation E operation = Inr () \<longleftrightarrow>
    accepts (public_outputs_validate (fe_fields E) (fe_b58 E) (fe_str_ex E) v) \<and>
    accepts (public_inputs_validate (fe_fields E) (fe_b58 E) (fe_str_ex E) w) \<and> j_len w = Inr (length sigs)"
  unfolding xfer_static_validation_def reject_error_Inr txn_xfer_public_validate_def outputs_validate_def
    inputs_validate_def
  using assms by (cases "public_outputs_validate (fe_fields E) (fe_b58 E) (fe_str_ex E) v"; cases "j_len w")
    (auto simp: accepts_def no_error_def)

section \<open>Properties\<close>

text \<open>C33: A mint request passes static validation exactly when its outputs are a non-empty list of
  dictionaries with valid, pairwise different addresses and positive amounts; without the key
  \<open>outputs\<close> it is refused with \<open>InvalidClientRequest\<close>.\<close>

theorem mint_static_exact:
  assumes "field_laws (fe_fields E) type_msg" "operation ''type'' = Some (JStr MINT_PUBLIC)"
  shows "(\<forall>v. operation ''outputs'' = Some v \<longrightarrow> no_bools v \<longrightarrow>
      (mint_static_validation E operation = Inr () \<longleftrightarrow>
        (\<exists>js outs. v = JList js \<and> map payout_of js = map Some outs \<and> outs \<noteq> [] \<and>
          valid_payouts (fe_b58 E) outs))) \<and>
    (operation ''outputs'' = None \<longrightarrow> mint_static_validation E operation = Inl InvalidClientRequest)"
proof (intro conjI allI impI)
  fix v
  assume v: "operation ''outputs'' = Some v" "no_bools v"
  show "mint_static_validation E operation = Inr () \<longleftrightarrow>
      (\<exists>js outs. v = JList js \<and> map payout_of js = map Some outs \<and> outs \<noteq> [] \<and> valid_payouts (fe_b58 E) outs)"
    unfolding mint_accepted_iff [OF assms(2) v(1)] field_laws.outputs_accepts [OF assms(1) v(2)]
    by (auto; metis list.map_disc_iff)
qed (use assms(2) in \<open>simp add: mint_static_validation_def txn_mint_public_validate_def outputs_validate_def reject_error_def\<close>)

lemma xfer_static_iff:
  assumes "field_laws (fe_fields E) type_msg" "operation ''type'' = Some (JStr XFER_PUBLIC)"
    and "operation ''outputs'' = Some v" "operation ''inputs'' = Some w"
    and "operation ''signatures'' = Some (JList sigs)" "no_bools v" "no_bools w"
  shows "xfer_static_validation E operation = Inr () \<longleftrightarrow>
    (\<exists>js outs ks ins. v = JList js \<and> map payout_of js = map Some outs \<and> valid_payouts (fe_b58 E) outs \<and>
      w = JList ks \<and> map input_of ks = map Some ins \<and> valid_inputs (fe_b58 E) ins \<and>
      length ins = length sigs)"
  unfolding xfer_accepted_iff [OF assms(2-5)] field_laws.outputs_accepts [OF assms(1,6)]
    field_laws.inputs_accepts [OF assms(1,7)]
  by (auto; metis length_map)

text \<open>C32: A transfer request with a list of signatures passes static validation exactly when its
  outputs are dictionaries with valid, pairwise different addresses and positive amounts, its
  inputs are pairwise different dictionaries with valid addresses and positive sequence
  numbers, and there are as many signatures as inputs.\<close>

theorem xfer_static_exact:
  assumes "field_laws (fe_fields E) type_msg" "operation ''type'' = Some (JStr XFER_PUBLIC)"
    and "operation ''outputs'' = Some v" "operation ''inputs'' = Some w"
    and "operation ''signatures'' = Some (JList sigs)" "no_bools v" "no_bools w"
  shows "xfer_static_validation E operation = Inr () \<longleftrightarrow>
    (\<exists>js outs ks ins. v = JList js \<and> map payout_of js = map Some outs \<and> valid_payouts (fe_b58 E) outs \<and>
      w = JList ks \<and> map input_of ks = map Some ins \<and> valid_inputs (fe_b58 E) ins \<and>
      length ins = length sigs)"
  using assms by (rule xfer_static_iff)

text \<open>C34: A \<open>GET_UTXO\<close> request passes static validation exactly when its address is valid and \<open>from\<close>, if
  present, is a positive integer; a text that is not base58check is refused by the exception
  \<open>UnknownIdentifier\<close> of the address decoder, which the field does not catch.\<close>

theorem get_utxo_static_exact:
  assumes "field_laws (fe_fields E) type_msg" "operation ''type'' = Some (JStr GET_UTXO)"
    and "\<forall>b. operation ''from'' \<noteq> Some (JBool b)"
  shows "(get_utxo_static_validation E operation = Inr () \<longleftrightarrow>
      (\<exists>a. operation ''address'' = Some (JStr a) \<and> valid_address (fe_b58 E) a) \<and>
      (operation ''from'' = None \<or> (\<exists>n\<ge>1. operation ''from'' = Some (JInt n)))) \<and>
    (\<forall>a. operation ''address'' = Some (JStr a) \<longrightarrow> b58decode_check (fe_b58 E) a = None \<longrightarrow>
      get_utxo_static_validation E operation = Inl UnknownIdentifier)"
proof
  have addr: "accepts (address_validate E operation) \<longleftrightarrow>
      (\<exists>a. operation ''address'' = Some (JStr a) \<and> valid_address (fe_b58 E) a)"
    using field_laws.address_accepts [OF assms(1)]
    unfolding address_validate_def accepts_guard by (auto split: option.splits)
  have from_ok: "accepts (from_validate E operation) \<longleftrightarrow>
      (operation ''from'' = None \<or> (\<exists>n\<ge>1. operation ''from'' = Some (JInt n)))"
  proof (cases "operation ''from''")
    case (Some f)
    then have "j_type f \<noteq> ''bool''" using assms(3) by (cases f) auto
    with Some show ?thesis
      using field_laws.seq_no_law [OF assms(1), of f]
      by (auto simp: from_validate_def accepts_guard)
  qed (simp add: from_validate_def)
  show "get_utxo_static_validation E operation = Inr () \<longleftrightarrow>
      (\<exists>a. operation ''address'' = Some (JStr a) \<and> valid_address (fe_b58 E) a) \<and>
      (operation ''from'' = None \<or> (\<exists>n\<ge>1. operation ''from'' = Some (JInt n)))"
    unfolding addr [symmetric] from_ok [symmetric] get_utxo_static_validation_def reject_error_Inr
      txt_get_utxo_validate_def
    using assms(2) by (simp add: accepts_ebind_no_error)
  show "\<forall>a. operation ''address'' = Some (JStr a) \<longrightarrow> b58decode_check (fe_b58 E) a = None \<longrightarrow>
      get_utxo_static_validation E operation = Inl UnknownIdentifier"
    using assms(2) by (auto simp: get_utxo_static_validation_def txt_get_utxo_validate_def
        reject_error_def address_validate_def public_address_validate_def public_address_specific_def
        decode_address_to_vk_bytes_def field_laws.validate_law [OF assms(1)])
qed

text \<open>\<open>static_req_validation\<close> treats a request exactly as the handler of its type does and refuses
  every other type, and every argument that is not a request, with \<open>InvalidClientRequest\<close>.\<close>

theorem static_req_validation_dispatch:
  "(operation ''type'' = Some (JStr MINT_PUBLIC) \<longrightarrow>
      static_req_validation E (Some operation) = mint_static_validation E operation) \<and>
   (operation ''type'' = Some (JStr XFER_PUBLIC) \<longrightarrow>
      static_req_validation E (Some operation) = xfer_static_validation E operation) \<and>
   (operation ''type'' = Some (JStr GET_UTXO) \<longrightarrow>
      static_req_validation E (Some operation) = get_utxo_static_validation E operation) \<and>
   (operation ''type'' \<notin> (Some \<circ> JStr) ` set ACCEPTABLE_TXN_TYPES \<longrightarrow>
      static_req_validation E (Some operation) = Inl InvalidClientRequest) \<and>
   static_req_validation E None = Inl InvalidClientRequest"
  by (auto simp: static_req_validation_def TXN_STATIC_VALIDATION_MAP_def ACCEPTABLE_TXN_TYPES_def
      txn_type_defs mint_static_validation_def xfer_static_validation_def get_utxo_static_validation_def
      split: option.splits jval.splits)

text \<open>A transfer from and to a valid address of the reference codec.\<close>

definition ex_fe :: field_env where
  "ex_fe = \<lparr>fe_fields = ref_fields, fe_b58 = ref_b58, fe_str_ex = ''bad''\<rparr>"

definition ex_address :: string where
  "ex_address = replicate 32 (CHR ''k'') @ ''e''"

definition ex_outputs :: jval where
  "ex_outputs = JList [JMap [(''address'', JStr ex_address), (''amount'', JInt 10)]]"

definition ex_inputs :: jval where
  "ex_inputs = JList [JMap [(''address'', JStr ex_address), (''seqNo'', JInt 1)]]"

definition ex_op :: "string \<Rightarrow> joperation" where
  "ex_op t = [''type'' \<mapsto> JStr t, ''outputs'' \<mapsto> ex_outputs, ''inputs'' \<mapsto> ex_inputs,
     ''signatures'' \<mapsto> JList [JStr ''sig''], ''address'' \<mapsto> JStr ex_address]"

lemma ex_op_facts [simp]:
  "field_laws (fe_fields ex_fe) (\<lambda>_. ''expected types'')" "valid_address (fe_b58 ex_fe) ex_address"
  "ex_op t ''type'' = Some (JStr t)" "ex_op t ''outputs'' = Some ex_outputs"
  "ex_op t ''inputs'' = Some ex_inputs" "ex_op t ''signatures'' = Some (JList [JStr ''sig''])"
  "ex_op t ''address'' = Some (JStr ex_address)" "ex_op t ''from'' = None"
  "no_bools ex_outputs" "no_bools ex_inputs"
  using ref_fields.field_laws_axioms
  by (simp_all add: ex_fe_def ex_op_def ex_outputs_def ex_inputs_def no_bools_def valid_address_def
      ex_address_def ref_b58_def len_check_def)

abbreviation ex_valid_payout :: payout where
  "ex_valid_payout \<equiv> \<lparr>pay_address = ex_address, pay_amount = 10\<rparr>"

abbreviation ex_valid_input :: input where
  "ex_valid_input \<equiv> \<lparr>inp_address = ex_address, inp_seqNo = 1\<rparr>"

lemma ex_items:
  "\<exists>js. ex_outputs = JList js \<and> map payout_of js = map Some [ex_valid_payout]"
  "\<exists>js. ex_inputs = JList js \<and> map input_of js = map Some [ex_valid_input]"
  "valid_payouts (fe_b58 ex_fe) [ex_valid_payout]" "valid_inputs (fe_b58 ex_fe) [ex_valid_input]"
  by (simp_all add: ex_outputs_def ex_inputs_def valid_payouts_def valid_inputs_def)

theorem mint_static_exact_witness:
  "mint_static_validation ex_fe (ex_op MINT_PUBLIC) = Inr ()"
  using mint_static_exact [OF ex_op_facts(1), of "ex_op MINT_PUBLIC"] ex_op_facts(3,4,9) ex_items(1,3)
  by (metis (no_types, lifting) list.discI)

theorem xfer_static_exact_witness:
  "xfer_static_validation ex_fe (ex_op XFER_PUBLIC) = Inr ()"
proof -
  have "length [ex_valid_input] = length [JStr ''sig'']" by simp
  then show ?thesis
    using xfer_static_exact [OF ex_op_facts(1), of "ex_op XFER_PUBLIC", OF ex_op_facts(3-6,9,10)] ex_items
    by blast
qed

theorem get_utxo_static_exact_witness:
  "get_utxo_static_validation ex_fe (ex_op GET_UTXO) = Inr ()"
  using get_utxo_static_exact [of ex_fe "\<lambda>_. ''expected types''" "ex_op GET_UTXO"] by simp

theorem static_req_validation_dispatch_witness:
  "static_req_validation ex_fe (Some (ex_op XFER_PUBLIC)) = xfer_static_validation ex_fe (ex_op XFER_PUBLIC)"
  using static_req_validation_dispatch [of "ex_op XFER_PUBLIC" ex_fe] by simp

end
