(* ===== verification/Token_History.thy ===== *)
theory Token_History
  imports Fee_Txns Token_Messages
begin

text \<open>
  The life of the token state: \<open>token_run\<close> is the relation of the states that are reached by minting,
  by transfers without and with a fee, and by domain requests that pay a fee, each as the node
  runs it (validation or authorisation first, then the handler). The invariant: state and cache
  agree, no output has a sequence number above the last one, and the tokens held are those at
  the start plus the minted ones minus the fees.
\<close>

section \<open>Sequence numbers\<close>

definition below :: "int \<Rightarrow> utxos \<Rightarrow> bool" where
  "below n U \<longleftrightarrow> (\<forall>a. \<forall>p\<in>set (U a). fst p \<le> n)"

lemma below_fresh: "below n U \<Longrightarrow> distinct (map pay_address outs) \<Longrightarrow> fresh (n + 1) outs U"
  by (fastforce simp: below_def fresh_def)

lemma below_add_all: "below n U \<Longrightarrow> below (n + 1) (add_all (n + 1) outs U)"
proof -
  assume "below n U"
  then have "below (n + 1) U" by (force simp: below_def)
  then show ?thesis
    unfolding add_all_def
  proof (induction outs arbitrary: U)
    case (Cons p outs)
    have "below (n + 1) (add_one (n + 1) p U)" using Cons.prems by (auto simp: below_def add_one_def)
    with Cons.IH show ?case by simp
  qed simp
qed

lemma below_spend_all: "below n U \<Longrightarrow> below n (spend_all ins U)"
  unfolding spend_all_def
proof (induction ins arbitrary: U)
  case (Cons i ins)
  have "below n (spend_one i U)"
    using Cons.prems set_del_key_subset [of "inp_seqNo i" "U (inp_address i)"]
    by (auto simp: below_def spend_one_def)
  with Cons.IH show ?case by simp
qed simp

lemma below_paid: "below n U \<Longrightarrow> below (n + 1) (paid ins outs (n + 1) U)"
  by (simp add: paid_def below_add_all below_spend_all)

section \<open>Steps\<close>

text \<open>What stays fixed: the interfaces, the fees' source, and a finite set of addresses that contains
  the ones involved.\<close>

record ('s, 'c, 'l) node_env =
  ne_st :: "'s state_store"
  ne_kv :: "'c kv_store"
  ne_lg :: "'l ledger_ops"
  ne_ledger_id :: int
  ne_fs :: fees_serializer
  ne_str_ex :: "exn \<Rightarrow> string"
  ne_validate :: "request \<Rightarrow> auth_action \<Rightarrow> exn + unit"
  ne_addresses :: "string set"

definition involved :: "('s, 'c, 'l) node_env \<Rightarrow> input list \<Rightarrow> payout list \<Rightarrow> bool" where
  "involved N ins outs \<longleftrightarrow> inp_address ` set ins \<union> pay_address ` set outs \<subseteq> ne_addresses N"

text \<open>\<open>token_step N db n t minted burned db'\<close>: in the state \<open>db\<close>, whose last sequence number is \<open>n\<close>, the node
  accepts an operation whose transaction is \<open>t\<close> and reaches \<open>db'\<close>. The token ledger itself is advanced
  by plenum, to any \<open>l\<close>, except by fee transactions, which the handler appends. The config state \<open>c\<close>
  may differ from step to step.\<close>

inductive token_step :: "('s, 'c, 'l) node_env \<Rightarrow> ('s, 'c, 'l, 't) fees_db \<Rightarrow> int \<Rightarrow> txn \<Rightarrow> int \<Rightarrow> int
    \<Rightarrow> ('s, 'c, 'l, 't) fees_db \<Rightarrow> bool" for N db n where
  step_mint: "tx_type t = MINT_PUBLIC \<Longrightarrow> tx_outputs t = Some outs \<Longrightarrow> tx_seqNo t = n + 1 \<Longrightarrow>
    distinct (map pay_address outs) \<Longrightarrow> involved N [] outs \<Longrightarrow>
    mint_update_state (ne_st N) (ne_kv N) t False db = (Inr (), db') \<Longrightarrow>
    token_step N db n t (payouts_total outs) 0 (db'\<lparr>fd_ledger := l\<rparr>)"
| step_xfer: "op_inputs (req_operation req) = Some ins \<Longrightarrow> op_outputs (req_operation req) = Some outs \<Longrightarrow>
    tx_type t = XFER_PUBLIC \<Longrightarrow> payment_txn ins outs (n + 1) t \<Longrightarrow>
    distinct ins \<Longrightarrow> distinct (map pay_address outs) \<Longrightarrow> involved N ins outs \<Longrightarrow>
    xfer_dynamic_validation (ne_kv N) (ne_validate N) req (tk_cache db) = Inr () \<Longrightarrow>
    xfer_update_state (ne_st N) (ne_kv N) t False db = (Inr (), db') \<Longrightarrow>
    token_step N db n t 0 0 (db'\<lparr>fd_ledger := l\<rparr>)"
| step_xfer_fee: "op_inputs (req_operation req) = Some ins \<Longrightarrow> op_outputs (req_operation req) = Some outs \<Longrightarrow>
    tx_type t = XFER_PUBLIC \<Longrightarrow> payment_txn ins outs (n + 1) t \<Longrightarrow>
    distinct ins \<Longrightarrow> distinct (map pay_address outs) \<Longrightarrow> involved N ins outs \<Longrightarrow>
    op_type (req_operation req) = XFER_PUBLIC \<Longrightarrow> fee_due (ne_st N) (ne_fs N) c md = Inr fee \<Longrightarrow>
    authorize (ne_st N) (ne_fs N) (ne_kv N) (ne_str_ex N) req md c (tk_cache db) = Inr (True, msg) \<Longrightarrow>
    xfer_update_state (ne_st N) (ne_kv N) t False db = (Inr (), db') \<Longrightarrow>
    token_step N db n t 0 fee (db'\<lparr>fd_ledger := l\<rparr>)"
| step_domain_fee: "req_fees req = Fees3 ins outs sigs \<Longrightarrow>
    distinct ins \<Longrightarrow> distinct (map pay_address outs) \<Longrightarrow> involved N ins outs \<Longrightarrow>
    op_type (req_operation req) \<noteq> XFER_PUBLIC \<Longrightarrow> fee_due (ne_st N) (ne_fs N) c md = Inr fee \<Longrightarrow>
    authorize (ne_st N) (ne_fs N) (ne_kv N) (ne_str_ex N) req md c (tk_cache db) = Inr (True, msg) \<Longrightarrow>
    lg_next_seq_no (ne_lg N) (fd_ledger db) = n + 1 \<Longrightarrow>
    domain_apply_request (ne_st N) (ne_kv N) (ne_lg N) (ne_ledger_id N) req prev db = (Inr prev, db') \<Longrightarrow>
    t = fx_txn (make_fee_txn (ne_ledger_id N) req prev ins outs sigs fee (n + 1)) \<Longrightarrow>
    token_step N db n t 0 fee db'"

text \<open>\<open>token_run N db0 n0 ts minted burned db n\<close>: from \<open>db0\<close>, whose last sequence number is \<open>n0\<close>, the state
  \<open>db\<close> with last number \<open>n\<close> is reached, and \<open>ts\<close> are the transactions on the token ledger.\<close>

inductive token_run :: "('s, 'c, 'l) node_env \<Rightarrow> ('s, 'c, 'l, 't) fees_db \<Rightarrow> int \<Rightarrow> txn list \<Rightarrow> int \<Rightarrow> int
    \<Rightarrow> ('s, 'c, 'l, 't) fees_db \<Rightarrow> int \<Rightarrow> bool" for N db0 n0 where
  run_start: "token_run N db0 n0 [] 0 0 db0 n0"
| run_step: "token_run N db0 n0 ts m b db n \<Longrightarrow> token_step N db n t minted burned db' \<Longrightarrow>
    token_run N db0 n0 (ts @ [t]) (m + minted) (b + burned) db' (n + 1)"

section \<open>The invariant\<close>

definition holds_supply :: "('s, 'c, 'l) node_env \<Rightarrow> ('s, 'c, 'l, 't) fees_db \<Rightarrow> int \<Rightarrow> int \<Rightarrow> bool" where
  "holds_supply N db n s \<longleftrightarrow>
     token_wf (ne_st N) (ne_kv N) False db \<and> below n (token_utxos (ne_kv N) False db) \<and>
     token_supply (ne_addresses N) (token_utxos (ne_kv N) False db) = s"

lemma holds_supply_ledger [simp]: "holds_supply N (db\<lparr>fd_ledger := l\<rparr>) n s = holds_supply N db n s"
  by (simp add: holds_supply_def token_wf_def token_utxos_def)

text \<open>The unspent outputs of a step come from those before by a payment under the next number.\<close>

definition advances :: "('s, 'c, 'l) node_env \<Rightarrow> ('s, 'c, 'l, 't) fees_db \<Rightarrow> int \<Rightarrow> ('s, 'c, 'l, 't) fees_db \<Rightarrow> bool" where
  "advances N db n db' \<longleftrightarrow> (\<exists>ins outs. token_utxos (ne_kv N) False db' =
     paid ins outs (n + 1) (token_utxos (ne_kv N) False db))"

lemma advances_ledger [simp]: "advances N db n (db'\<lparr>fd_ledger := l\<rparr>) = advances N db n db'"
  by (simp add: advances_def token_utxos_def)

lemma advances_spent:
  assumes "advances N db n db'" "inp_seqNo i \<le> n" "\<not> unspent (token_utxos (ne_kv N) False db) i"
  shows "\<not> unspent (token_utxos (ne_kv N) False db') i"
proof -
  have spend: "set (spend_all ins U a) \<subseteq> set (U a)" for ins U and a :: string
    unfolding spend_all_def
  proof (induction ins arbitrary: U)
    case (Cons j ins)
    have "set (spend_one j U a) \<subseteq> set (U a)"
      using set_del_key_subset [of "inp_seqNo j" "U (inp_address j)"] by (auto simp: spend_one_def)
    then show ?case using Cons [of "spend_one j U"] by simp
  qed simp
  have add: "p \<in> set (add_all (n + 1) outs U a) \<Longrightarrow> fst p \<le> n \<Longrightarrow> p \<in> set (U a)" for p outs U and a :: string
    unfolding add_all_def
  proof (induction outs arbitrary: U)
    case (Cons q outs)
    then have "p \<in> set (add_one (n + 1) q U a)" by simp
    then show ?case using Cons.prems(2) by (auto simp: add_one_def split: if_splits)
  qed simp
  let ?U = "token_utxos (ne_kv N) False db" and ?a = "inp_address i"
  obtain ins outs where U': "token_utxos (ne_kv N) False db' = add_all (n + 1) outs (spend_all ins ?U)"
    using assms(1) by (auto simp: advances_def paid_def)
  show ?thesis
  proof
    assume "unspent (token_utxos (ne_kv N) False db') i"
    then obtain p where p: "p \<in> set (add_all (n + 1) outs (spend_all ins ?U) ?a)" "fst p = inp_seqNo i"
      by (auto simp: unspent_def U')
    have "p \<in> set (spend_all ins ?U ?a)" using add [OF p(1)] p(2) assms(2) by simp
    then have "p \<in> set (?U ?a)" using spend by blast
    then show False using assms(3) p(2) by (force simp: unspent_def)
  qed
qed

lemma exactly_inputs:
  assumes "pays_exactly U ins outs fee" "distinct ins"
  shows "\<forall>i\<in>set ins. unspent U i" "inputs_total U ins = payouts_total outs + fee"
  using assms by (auto simp: pays_exactly_def inputs_total_def sum_list_distinct_conv_sum_set)

text \<open>Every payment of inputs that are worth the outputs and a fee keeps the invariant.\<close>

lemma payment_supply:
  fixes db :: "('s, 'c, 'l, 't) fees_db"
  assumes "token_stores (ne_st N) (ne_kv N) False" "finite (ne_addresses N)" "holds_supply N db n s"
    and "involved N ins outs" "distinct ins" "\<forall>i\<in>set ins. unspent (token_utxos (ne_kv N) False db) i"
    and "inputs_total (token_utxos (ne_kv N) False db) ins = payouts_total outs + fee"
    and "token_wf (ne_st N) (ne_kv N) False db'"
    and "token_utxos (ne_kv N) False db' = paid ins outs (n + 1) (token_utxos (ne_kv N) False db)"
  shows "holds_supply N db' (n + 1) (s - fee)"
proof -
  have "utxos_wf (token_utxos (ne_kv N) False db)"
    using assms(3) by (simp add: holds_supply_def token_wf_def token_utxos_def cache_wf_utxos)
  then show ?thesis
    using supply_paid [OF assms(2), of ins outs "token_utxos (ne_kv N) False db" "n + 1"] assms(3-9) below_paid
    by (simp add: holds_supply_def involved_def)
qed

lemma xfer_paid:
  fixes db :: "('s, 'c, 'l, 't) fees_db"
  assumes "token_stores st kv False" "token_wf st kv False db" "below n (token_utxos kv False db)"
    and "payment_txn ins outs (n + 1) t" "distinct ins" "distinct (map pay_address outs)"
    and "\<forall>i\<in>set ins. unspent (token_utxos kv False db) i" "xfer_update_state st kv t False db = (Inr (), db')"
  shows "token_wf st kv False db' \<and> token_utxos kv False db' = paid ins outs (n + 1) (token_utxos kv False db)"
proof -
  have "pseq (spend_inputs st kv True t False) (add_outputs st kv t False) db = (Inr (), db')"
    using assms(8) by (simp add: xfer_update_state_def pcatch_Inr_iff)
  then show ?thesis
    using token_stores.payment_ok [OF assms(1,2,4,5,7) below_fresh [OF assms(3,6)], of True] by auto
qed

lemma mint_paid:
  fixes db :: "('s, 'c, 'l, 't) fees_db"
  assumes "token_stores st kv False" "token_wf st kv False db" "below n (token_utxos kv False db)"
    and "tx_outputs t = Some outs" "tx_seqNo t = n + 1" "distinct (map pay_address outs)"
    and "mint_update_state st kv t False db = (Inr (), db')"
  shows "token_wf st kv False db' \<and> token_utxos kv False db' = add_all (n + 1) outs (token_utxos kv False db)"
  using token_stores.adding_ok [OF assms(1,2,4,5) below_fresh [OF assms(3,6)]] assms(7)
  by (auto simp: mint_update_state_def pcatch_Inr_iff)

lemma domain_fee_paid:
  fixes db :: "('s, 'c, 'l, 't) fees_db"
  assumes "token_stores st kv False" "token_wf st kv False db" "below n (token_utxos kv False db)"
    and "req_fees req = Fees3 ins outs sigs" "distinct ins" "distinct (map pay_address outs)"
    and "\<forall>i\<in>set ins. unspent (token_utxos kv False db) i" "lg_next_seq_no lg (fd_ledger db) = n + 1"
    and "domain_apply_request st kv lg ledger_id req prev db = (Inr prev, db')"
  shows "token_wf st kv False db' \<and> token_utxos kv False db' = paid ins outs (n + 1) (token_utxos kv False db)"
  using domain_apply_fees [OF assms(1,2,4,5,7) _ refl refl, of lg ledger_id prev] below_fresh [OF assms(3,6)] assms(8,9)
  by auto

lemma xfer_supply:
  fixes db :: "('s, 'c, 'l, 't) fees_db"
  assumes "token_stores (ne_st N) (ne_kv N) False" "finite (ne_addresses N)" "holds_supply N db n s"
    and "payment_txn ins outs (n + 1) t" "distinct ins" "distinct (map pay_address outs)" "involved N ins outs"
    and "pays_exactly (token_utxos (ne_kv N) False db) ins outs fee"
    and "xfer_update_state (ne_st N) (ne_kv N) t False db = (Inr (), db')"
  shows "holds_supply N db' (n + 1) (s - fee) \<and> advances N db n db'"
proof -
  note u = exactly_inputs [OF assms(8,5)]
  have "token_wf (ne_st N) (ne_kv N) False db'"
    "token_utxos (ne_kv N) False db' = paid ins outs (n + 1) (token_utxos (ne_kv N) False db)"
    using xfer_paid [OF assms(1) _ _ assms(4-6) u(1) assms(9)] assms(3) by (simp_all add: holds_supply_def)
  then show ?thesis using payment_supply [OF assms(1-3,7,5) u] unfolding advances_def by blast
qed

lemma mint_supply:
  fixes db :: "('s, 'c, 'l, 't) fees_db"
  assumes "token_stores (ne_st N) (ne_kv N) False" "finite (ne_addresses N)" "holds_supply N db n s"
    and "tx_outputs t = Some outs" "tx_seqNo t = n + 1" "distinct (map pay_address outs)" "involved N [] outs"
    and "mint_update_state (ne_st N) (ne_kv N) t False db = (Inr (), db')"
  shows "holds_supply N db' (n + 1) (s + payouts_total outs) \<and> advances N db n db'"
proof -
  have "token_wf (ne_st N) (ne_kv N) False db'"
    "token_utxos (ne_kv N) False db' = add_all (n + 1) outs (token_utxos (ne_kv N) False db)"
    using mint_paid [OF assms(1) _ _ assms(4-6,8)] assms(3) by (simp_all add: holds_supply_def)
  moreover from this have "advances N db n db'"
    unfolding advances_def by (intro exI [of _ "[]"] exI [of _ outs]) (simp add: paid_def spend_all_def)
  ultimately show ?thesis
    using assms(2,3,7) below_add_all supply_add_all [OF assms(2)]
    by (simp add: holds_supply_def involved_def)
qed

text \<open>An accepted request pays exactly.\<close>

lemma accepted_pays:
  assumes "holds_supply N db n s" "fee_due cst fs c md = Inr fee" "fee_parts req ins outs"
    and "op_type (req_operation req) = XFER_PUBLIC \<or> has_fees req"
    and "authorize cst fs (ne_kv N) str_ex req md c (tk_cache db) = Inr (True, msg)"
  shows "pays_exactly (token_utxos (ne_kv N) False db) ins outs fee"
proof -
  have "cache_wf (ne_kv N) False (tk_cache db)" using assms(1) by (simp add: holds_supply_def token_wf_def)
  from authorize_parts [OF this assms(2-4), of str_ex] show ?thesis
    using assms(5) by (auto simp: token_utxos_def)
qed

lemma domain_fee_supply:
  fixes db :: "('s, 'c, 'l, 't) fees_db"
  assumes "token_stores (ne_st N) (ne_kv N) False" "finite (ne_addresses N)" "holds_supply N db n s"
    and "req_fees req = Fees3 ins outs sigs" "distinct ins" "distinct (map pay_address outs)" "involved N ins outs"
    and "pays_exactly (token_utxos (ne_kv N) False db) ins outs fee"
    and "lg_next_seq_no (ne_lg N) (fd_ledger db) = n + 1"
    and "domain_apply_request (ne_st N) (ne_kv N) (ne_lg N) (ne_ledger_id N) req prev db = (Inr prev, db')"
  shows "holds_supply N db' (n + 1) (s - fee) \<and> advances N db n db'"
proof -
  note u = exactly_inputs [OF assms(8,5)]
  have "token_wf (ne_st N) (ne_kv N) False db'"
    "token_utxos (ne_kv N) False db' = paid ins outs (n + 1) (token_utxos (ne_kv N) False db)"
    using domain_fee_paid [OF assms(1) _ _ assms(4-6) u(1) assms(9,10)] assms(3) by (simp_all add: holds_supply_def)
  then show ?thesis using payment_supply [OF assms(1-3,7,5) u] unfolding advances_def by blast
qed

definition run_ok :: "('s, 'c, 'l) node_env \<Rightarrow> ('s, 'c, 'l, 't) fees_db \<Rightarrow> int \<Rightarrow> int \<Rightarrow> ('s, 'c, 'l, 't) fees_db \<Rightarrow> int \<Rightarrow> bool" where
  "run_ok N db0 n0 s db n \<longleftrightarrow> holds_supply N db n s \<and> n0 \<le> n \<and>
     (\<forall>i. inp_seqNo i \<le> n0 \<longrightarrow> \<not> unspent (token_utxos (ne_kv N) False db0) i \<longrightarrow>
       \<not> unspent (token_utxos (ne_kv N) False db) i)"

lemma run_ok_step:
  assumes "run_ok N db0 n0 s db n" "holds_supply N db' (n + 1) s' \<and> advances N db n db'"
  shows "run_ok N db0 n0 s' db' (n + 1)"
  using assms advances_spent [of N db n db'] unfolding run_ok_def by force

lemma run_ok_ledger [simp]: "run_ok N db0 n0 s (db\<lparr>fd_ledger := l\<rparr>) n = run_ok N db0 n0 s db n"
  by (simp add: run_ok_def token_utxos_def)

text \<open>Every step is a mint or an exact payment.\<close>

lemma step_pays:
  assumes "token_step N db n t minted burned db'" "holds_supply N db n s"
  obtains (mint) outs db'' l where "tx_type t = MINT_PUBLIC" "tx_outputs t = Some outs" "tx_seqNo t = n + 1"
      "distinct (map pay_address outs)" "involved N [] outs" "minted = payouts_total outs" "burned = 0"
      "mint_update_state (ne_st N) (ne_kv N) t False db = (Inr (), db'')" "db' = db''\<lparr>fd_ledger := l\<rparr>"
    | (xfer) ins outs db'' l where "tx_type t = XFER_PUBLIC" "payment_txn ins outs (n + 1) t" "distinct ins"
      "distinct (map pay_address outs)" "involved N ins outs" "pays_exactly (token_utxos (ne_kv N) False db) ins outs burned"
      "minted = 0" "xfer_update_state (ne_st N) (ne_kv N) t False db = (Inr (), db'')" "db' = db''\<lparr>fd_ledger := l\<rparr>"
    | (domain_fee) req ins outs sigs prev where "req_fees req = Fees3 ins outs sigs" "distinct ins"
      "distinct (map pay_address outs)" "involved N ins outs" "pays_exactly (token_utxos (ne_kv N) False db) ins outs burned"
      "minted = 0" "lg_next_seq_no (ne_lg N) (fd_ledger db) = n + 1"
      "domain_apply_request (ne_st N) (ne_kv N) (ne_lg N) (ne_ledger_id N) req prev db = (Inr prev, db')"
      "tx_type t = FEE_TXN" "payment_txn ins outs (n + 1) t"
  using assms(1)
proof cases
  case (step_mint outs db'' l)
  then show ?thesis using mint by blast
next
  case (step_xfer req ins outs db'' l)
  have "cache_wf (ne_kv N) False (tk_cache db)" using assms(2) by (simp add: holds_supply_def token_wf_def)
  from xfer_validated [OF this step_xfer(4,5,8,11)]
  have "pays_exactly (token_utxos (ne_kv N) False db) ins outs burned"
    using step_xfer(2,8) by (simp add: pays_exactly_def inputs_total_def token_utxos_def sum_list_distinct_conv_sum_set)
  then show ?thesis using xfer step_xfer by blast
next
  case (step_xfer_fee req ins outs c md msg db'' l)
  have "fee_parts req ins outs" using step_xfer_fee(3,4,10) by (simp add: fee_parts_def)
  from accepted_pays [OF assms(2) step_xfer_fee(11) this _ step_xfer_fee(12)] step_xfer_fee(10)
  have "pays_exactly (token_utxos (ne_kv N) False db) ins outs burned" by blast
  then show ?thesis using xfer step_xfer_fee by blast
next
  case (step_domain_fee req ins outs sigs c md msg prev)
  have "has_fees req" "fee_parts req ins outs"
    using step_domain_fee(2,6) by (simp_all add: has_fees_def fee_parts_def fees_inputs_def get_change_for_fees_def)
  with accepted_pays [OF assms(2) step_domain_fee(7) _ _ step_domain_fee(8)]
  have "pays_exactly (token_utxos (ne_kv N) False db) ins outs burned" by blast
  moreover have "tx_type t = FEE_TXN" "payment_txn ins outs (n + 1) t"
    using step_domain_fee(11) by (simp_all add: make_fee_txn_def payment_txn_def)
  ultimately show ?thesis using domain_fee [OF step_domain_fee(2-5)] step_domain_fee(1,9,10) by blast
qed

lemma step_supply:
  fixes db :: "('s, 'c, 'l, 't) fees_db"
  assumes "token_step N db n t minted burned db'" "token_stores (ne_st N) (ne_kv N) False" "finite (ne_addresses N)"
    and "holds_supply N db n s"
  shows "holds_supply N db' (n + 1) (s + minted - burned) \<and> advances N db n db'"
  using assms(1,4)
proof (cases rule: step_pays)
  case (mint outs db'' l)
  then show ?thesis using mint_supply [OF assms(2-4) mint(2-5,8)] by simp
next
  case (xfer ins outs db'' l)
  then show ?thesis using xfer_supply [OF assms(2-4) xfer(2-6,8)] by simp
next
  case (domain_fee req ins outs sigs prev)
  then show ?thesis using domain_fee_supply [OF assms(2-4) domain_fee(1-5,7,8)] by simp
qed

lemma run_supply:
  assumes "token_run N db0 n0 ts m b db n" "token_stores (ne_st N) (ne_kv N) False" "finite (ne_addresses N)"
    and "holds_supply N db0 n0 s"
  shows "run_ok N db0 n0 (s + m - b) db n"
  using assms(1)
proof (induction rule: token_run.induct)
  case run_start
  then show ?case using assms(4) by (simp add: run_ok_def)
next
  case (run_step ts m b db n t minted burned db')
  then have h: "holds_supply N db n (s + m - b)" by (simp add: run_ok_def)
  show ?case
    using run_ok_step [OF run_step(3) step_supply [OF run_step(2) assms(2,3) h]] by (simp add: algebra_simps)
qed

section \<open>Properties\<close>

text \<open>C2: What is spent stays spent: an output with a sequence number up to the last one that is not
  unspent in some state is not unspent in any later state.\<close>

theorem spent_forever:
  fixes db0 :: "('s, 'c, 'l, 't) fees_db"
  assumes "state_map_store (ne_st N)" "kv_text_store (ne_kv N) False" "finite (ne_addresses N)"
    and "token_wf (ne_st N) (ne_kv N) False db0" "below n0 (token_utxos (ne_kv N) False db0)"
    and "token_run N db0 n0 ts minted burned db n"
    and "inp_seqNo i \<le> n0" "\<not> unspent (token_utxos (ne_kv N) False db0) i"
  shows "\<not> unspent (token_utxos (ne_kv N) False db) i"
  using run_supply [OF assms(6) token_storesI [OF assms(1,2)] assms(3), of
      "token_supply (ne_addresses N) (token_utxos (ne_kv N) False db0)"] assms(4,5,7,8)
  by (simp add: run_ok_def holds_supply_def)

text \<open>The request of the example, run on the example state by a node with one known set of
  addresses.\<close>

definition ex_node :: "(ms, okv, fee_txn list) node_env" where
  "ex_node = \<lparr>ne_st = ms_store, ne_kv = okv_store, ne_lg = ref_ledger, ne_ledger_id = 1, ne_fs = ref_fs,
     ne_str_ex = (\<lambda>_. ''no''), ne_validate = (\<lambda>_ _. Inr ()), ne_addresses = {''A'', ''B''}\<rparr>"

lemma ex_node_facts:
  "state_map_store (ne_st ex_node)" "kv_text_store (ne_kv ex_node) False" "finite (ne_addresses ex_node)"
  "token_wf (ne_st ex_node) (ne_kv ex_node) False ex_fdb" "below 1 (token_utxos (ne_kv ex_node) False ex_fdb)"
  using ref_stores ex_fdb_facts(1,2) by (simp_all add: ex_node_def below_def ex_utxos_def)

lemma ex_run: "\<exists>ts db. token_run ex_node ex_fdb 1 ts 0 4 db 2"
proof -
  have w: "token_wf ms_store okv_store False ex_fdb" and u: "\<forall>i\<in>set [ex_input]. unspent (token_utxos okv_store False ex_fdb) i"
    and f: "fresh (lg_next_seq_no ref_ledger (fd_ledger ex_fdb)) [ex_change] (token_utxos okv_store False ex_fdb)"
    using ex_fdb_facts ex_nym_facts(5) by simp_all
  obtain db' where d: "domain_apply_request ms_store okv_store ref_ledger 1 ex_nym ex_domain_txn ex_fdb = (Inr ex_domain_txn, db')"
    using domain_apply_fees [OF token_storesI [OF ref_stores] w ex_nym_facts(2) _ u f refl refl, of 1 ex_domain_txn] by auto
  obtain msg where a: "authorize ms_store ref_fs okv_store (\<lambda>_. ''no'') ex_nym ex_md ex_config (tk_cache ex_fdb) = Inr (True, msg)"
    using ex_nym_authorized ex_fdb_facts(4) by auto
  have "token_step ex_node ex_fdb 1 (fx_txn (make_fee_txn 1 ex_nym ex_domain_txn [ex_input] [ex_change] [''sig''] 4 2)) 0 4 db'"
    by (rule token_step.step_domain_fee [OF ex_nym_facts(2) _ _ _ ex_nym_facts(1),
        where c = ex_config and md = ex_md and msg = msg and prev = ex_domain_txn])
      (use d a ex_fee_due ex_fdb_facts(3) in \<open>simp_all add: ex_node_def involved_def ex_change_def\<close>)
  from token_run.run_step [OF token_run.run_start this] show ?thesis by auto
qed

theorem spent_forever_witness:
  "\<exists>ts db. token_run ex_node ex_fdb 1 ts 0 4 db 2 \<and> \<not> unspent (token_utxos okv_store False db) \<lparr>inp_address = ''B'', inp_seqNo = 1\<rparr>"
proof -
  obtain ts db where r: "token_run ex_node ex_fdb 1 ts 0 4 db 2" using ex_run by blast
  have "\<not> unspent (token_utxos (ne_kv ex_node) False ex_fdb) \<lparr>inp_address = ''B'', inp_seqNo = 1\<rparr>"
    by (simp add: ex_node_def ex_fdb_facts unspent_def ex_utxos_def)
  from spent_forever [OF ex_node_facts r _ this] r show ?thesis
    by (auto simp: ex_node_def intro!: exI [of _ db])
qed

end
