(* ===== verification/Fee_Batches.thy ===== *)
theory Fee_Batches
  imports Fee_Txns
begin

text \<open>
  The batch handlers of the fees plugin (\<open>req_handlers/batch_handlers\<close>): \<open>DomainFeeBatchHandler\<close>, which
  keeps the token ledger, the token state and the UTXO cache in step with the batches of the
  domain ledger, and \<open>TrackerBatchHandler\<close>.

  plenum's \<open>LedgerUncommittedTracker\<close> is an argument; the locale \<open>batch_tracker\<close> says that it keeps the
  last committed mark and the marks of the uncommitted batches. The properties: rejecting a
  batch brings back token state, ledger and cache as they were before its first request; and
  committing moves the batch's changes to the committed cache and hands each transaction its
  fee transaction.
\<close>

section \<open>The tracker of uncommitted batches\<close>

text \<open>A mark: state root, transaction root, size of the ledger.\<close>

type_synonym mark = "string \<times> string \<times> int"

record 't tracker_ops =
  tr_apply_batch :: "'t \<Rightarrow> string \<Rightarrow> string \<Rightarrow> int \<Rightarrow> 't"
  tr_commit_batch :: "'t \<Rightarrow> exn + (mark \<times> 't)"
  tr_reject_batch :: "'t \<Rightarrow> exn + (mark \<times> 't)"

text \<open>\<open>view\<close>: the last committed mark and the uncommitted ones, oldest first. Rejecting reports the
  mark before the rejected batch with the number of its transactions; committing reports the
  committed mark with that number.\<close>

locale batch_tracker =
  fixes tr :: "'t tracker_ops"
    and view :: "'t \<Rightarrow> mark \<times> mark list"
  assumes apply_law: "view t = (lc, us) \<Longrightarrow> view (tr_apply_batch tr t sr xr n) = (lc, us @ [(sr, xr, n)])"
    and reject_law: "view t = (lc, us @ [(sr, xr, n)]) \<Longrightarrow> last (lc # us) = (psr, pxr, pn) \<Longrightarrow>
      \<exists>t'. tr_reject_batch tr t = Inr ((psr, pxr, n - pn), t') \<and> view t' = (lc, us)"
    and commit_law: "view t = ((lsr, lxr, ln), (sr, xr, n) # us) \<Longrightarrow>
      \<exists>t'. tr_commit_batch tr t = Inr ((sr, xr, n - ln), t') \<and> view t' = ((sr, xr, n), us)"

text \<open>The tracker as a list of marks.\<close>

fun ref_commit :: "mark \<times> mark list \<Rightarrow> exn + (mark \<times> mark \<times> mark list)" where
  "ref_commit (lc, []) = Inl PlainException"
| "ref_commit ((lsr, lxr, ln), (sr, xr, n) # us) = Inr ((sr, xr, n - ln), ((sr, xr, n), us))"

definition ref_reject :: "mark \<times> mark list \<Rightarrow> exn + (mark \<times> mark \<times> mark list)" where
  "ref_reject t = (case t of (lc, us) \<Rightarrow>
     if us = [] then Inl PlainException
     else case last (lc # butlast us) of (psr, pxr, pn) \<Rightarrow>
       Inr ((psr, pxr, snd (snd (last us)) - pn), (lc, butlast us)))"

definition ref_tracker :: "(mark \<times> mark list) tracker_ops" where
  "ref_tracker = \<lparr>tr_apply_batch = (\<lambda>t sr xr n. (fst t, snd t @ [(sr, xr, n)])),
     tr_commit_batch = ref_commit, tr_reject_batch = ref_reject\<rparr>"

interpretation ref_tracker: batch_tracker ref_tracker "\<lambda>t. t"
  by unfold_locales (auto simp: ref_tracker_def ref_reject_def)

section \<open>TrackerBatchHandler\<close>

definition tracker_post_batch_applied :: "'s state_store \<Rightarrow> 'l ledger_ops \<Rightarrow> 't tracker_ops
    \<Rightarrow> ('s, 'c, 'l, 't) fees_db \<Rightarrow> ('s, 'c, 'l, 't) fees_db" where
  "tracker_post_batch_applied st lg tr db =
     db\<lparr>fd_token_tracker := tr_apply_batch tr (fd_token_tracker db) (st_headHash st (tk_state db))
       (lg_uncommitted_root_hash lg (fd_ledger db)) (lg_uncommitted_size lg (fd_ledger db))\<rparr>"

definition tracker_post_batch_rejected :: "'t tracker_ops \<Rightarrow> (('s, 'c, 'l, 't) fees_db, unit) proc" where
  "tracker_post_batch_rejected tr db =
     (case tr_reject_batch tr (fd_token_tracker db) of
        Inl e \<Rightarrow> (Inl e, db) | Inr (m, t) \<Rightarrow> (Inr (), db\<lparr>fd_token_tracker := t\<rparr>))"

definition tracker_commit_batch :: "'t tracker_ops \<Rightarrow> (('s, 'c, 'l, 't) fees_db, unit) proc" where
  "tracker_commit_batch tr db =
     (case tr_commit_batch tr (fd_token_tracker db) of
        Inl e \<Rightarrow> (Inl e, db) | Inr (m, t) \<Rightarrow> (Inr (), db\<lparr>fd_token_tracker := t\<rparr>))"

section \<open>DomainFeeBatchHandler\<close>

definition fee_post_batch_applied :: "'s state_store \<Rightarrow> 'c kv_store \<Rightarrow> 'l ledger_ops \<Rightarrow> 't tracker_ops
    \<Rightarrow> ('s, 'c, 'l, 't) fees_db \<Rightarrow> ('s, 'c, 'l, 't) fees_db" where
  "fee_post_batch_applied st kv lg tr db =
     (let state_root = st_headHash st (tk_state db);
          db = db\<lparr>fd_token_tracker := tr_apply_batch tr (fd_token_tracker db) state_root
            (lg_uncommitted_root_hash lg (fd_ledger db)) (lg_uncommitted_size lg (fd_ledger db))\<rparr>
      in if fees_in_current_batch (fd_fees_tracker db) > 0
         then db\<lparr>tk_cache := kv_create_batch_from_current kv (tk_cache db) (RootBytes state_root),
           fd_fees_tracker := (fd_fees_tracker db)\<lparr>fees_in_current_batch := 0\<rparr>\<rparr>
         else db)"

definition fee_post_batch_rejected :: "'s state_store \<Rightarrow> 'c kv_store \<Rightarrow> 'l ledger_ops \<Rightarrow> 't tracker_ops
    \<Rightarrow> (('s, 'c, 'l, 't) fees_db, unit) proc" where
  "fee_post_batch_rejected st kv lg tr db =
     (case tr_reject_batch tr (fd_token_tracker db) of
        Inl e \<Rightarrow> (Inl e, db)
      | Inr ((uncommitted_hash, uncommitted_txn_root, txn_count), t) \<Rightarrow>
          (let db = db\<lparr>fd_token_tracker := t\<rparr> in
           if txn_count = 0 \<or> lg_uncommitted_root_hash lg (fd_ledger db) = uncommitted_txn_root \<or>
              st_headHash st (tk_state db) = uncommitted_hash
           then (Inr (), db)
           else let db = db\<lparr>tk_state := st_revertToHead st (tk_state db) uncommitted_hash,
                    fd_ledger := lg_discardTxns lg (fd_ledger db) txn_count\<rparr> in
             case kv_reject_batch kv (tk_cache db) of
               Inl e \<Rightarrow> (Inl e, db)
             | Inr (count_reverted, c) \<Rightarrow> (Inr (), db\<lparr>tk_cache := c\<rparr>)))"

text \<open>A batch of the three-phase commit in full.\<close>

record pc_batch = three_pc_batch +
  pb_ledger_id :: int
  pb_inst_id :: int
  pb_view_no :: int
  pb_pp_seq_no :: int
  pb_pp_time :: int
  pb_txn_root :: string
  pb_primaries :: "string list"
  pb_valid_digests :: "nat list"
  pb_pp_digest :: string

definition token_fake_three_pc_batch :: "(string \<Rightarrow> string) \<Rightarrow> pc_batch \<Rightarrow> string \<Rightarrow> string \<Rightarrow> nat \<Rightarrow> pc_batch" where
  "token_fake_three_pc_batch serialize_root batch token_state_root token_txn_root n_fees =
     \<lparr>tpc_state_root = RootBytes token_state_root, pb_ledger_id = TOKEN_LEDGER_ID,
      pb_inst_id = pb_inst_id batch, pb_view_no = pb_view_no batch, pb_pp_seq_no = pb_pp_seq_no batch,
      pb_pp_time = pb_pp_time batch, pb_txn_root = serialize_root token_txn_root,
      pb_primaries = pb_primaries batch, pb_valid_digests = [0..<n_fees], pb_pp_digest = pb_pp_digest batch\<rparr>"

text \<open>\<open>txn[FEES] = committed_token_txns[i]; i += 1\<close> for the transactions with fees.\<close>

fun attach_fees :: "int list \<Rightarrow> fee_txn list \<Rightarrow> domain_txn list \<Rightarrow> exn + domain_txn list" where
  "attach_fees seq_nos fee_txns [] = Inr []"
| "attach_fees seq_nos fee_txns (t # ts) =
     (if dt_seqNo t \<in> set seq_nos
      then (case fee_txns of
          [] \<Rightarrow> Inl IndexError
        | x # xs \<Rightarrow> ebind (attach_fees seq_nos xs ts) (\<lambda>ts'. Inr (t\<lparr>dt_fees := Some x\<rparr> # ts')))
      else ebind (attach_fees seq_nos fee_txns ts) (\<lambda>ts'. Inr (t # ts')))"

text \<open>\<open>base_commit\<close> is \<open>BatchRequestHandler._commit\<close> on the token ledger and state: it returns the
  committed token transactions.\<close>

definition fee_commit_batch :: "(string \<Rightarrow> string option) \<Rightarrow> (string \<Rightarrow> string) \<Rightarrow> 'c kv_store \<Rightarrow> 't tracker_ops
    \<Rightarrow> ('l \<Rightarrow> 's \<Rightarrow> pc_batch \<Rightarrow> exn + (fee_txn list \<times> 'l \<times> 's)) \<Rightarrow> pc_batch \<Rightarrow> domain_txn list
    \<Rightarrow> (('s, 'c, 'l, 't) fees_db, domain_txn list) proc" where
  "fee_commit_batch b58decode serialize_root kv tr base_commit batch committed_txns db =
     (case tr_commit_batch tr (fd_token_tracker db) of
        Inl e \<Rightarrow> (Inl e, db)
      | Inr ((token_state_root, token_txn_root, _), t) \<Rightarrow>
          (let db = db\<lparr>fd_token_tracker := t\<rparr>;
               committed_seq_nos_with_fees = map dt_seqNo
                 (filter (\<lambda>x. has_deducted_fees (dt_type x) (dt_seqNo x) (fd_fees_tracker db)) committed_txns) in
           if committed_seq_nos_with_fees = [] then (Inr committed_txns, db)
           else let fake = token_fake_three_pc_batch serialize_root batch token_state_root token_txn_root
                      (length committed_seq_nos_with_fees) in
             case base_commit (fd_ledger db) (tk_state db) fake of
               Inl e \<Rightarrow> (Inl e, db)
             | Inr (committed_token_txns, ledger, state) \<Rightarrow>
                 (let db = db\<lparr>fd_ledger := ledger, tk_state := state\<rparr> in
                  case commit_to_utxo_cache b58decode kv (RootBytes token_state_root) (tk_cache db) of
                    Inl e \<Rightarrow> (Inl e, db)
                  | Inr c \<Rightarrow>
                      (let db = db\<lparr>tk_cache := c\<rparr> in
                       case attach_fees committed_seq_nos_with_fees committed_token_txns committed_txns of
                         Inl e \<Rightarrow> (Inl e, db)
                       | Inr txns \<Rightarrow> (Inr txns, db\<lparr>fd_fees_tracker :=
                           (fd_fees_tracker db)\<lparr>fees_in_current_batch := 0\<rparr>\<rparr>)))))"

section \<open>The requests of a batch\<close>

text \<open>The requests of a batch, applied one after the other; a request that raises is rejected by the
  node but leaves its partial effects for the batch to be reverted.\<close>

fun apply_requests :: "'s state_store \<Rightarrow> 'c kv_store \<Rightarrow> 'l ledger_ops \<Rightarrow> int \<Rightarrow> (request \<times> domain_txn) list
    \<Rightarrow> ('s, 'c, 'l, 't) fees_db \<Rightarrow> ('s, 'c, 'l, 't) fees_db" where
  "apply_requests st kv lg ledger_id [] db = db"
| "apply_requests st kv lg ledger_id ((req, prev) # rs) db =
     apply_requests st kv lg ledger_id rs (snd (domain_apply_request st kv lg ledger_id req prev db))"

lemma domain_apply_inv:
  fixes db :: "('s, 'c, 'l, 't) fees_db" and P :: "('s, 'c, 'l, 't) fees_db \<Rightarrow> bool"
  assumes "\<And>a n d. P d \<Longrightarrow> P (snd (spend_input st kv a n False True d))"
    and "\<And>out d. P d \<Longrightarrow> P (snd (add_new_output st kv out False d))"
    and "\<And>t d. P d \<Longrightarrow> P (d\<lparr>fd_ledger := lg_appendTxns lg (fd_ledger d) t\<rparr>)" "\<And>f d. P d \<Longrightarrow> P (d\<lparr>fd_fees_tracker := f\<rparr>)" "P db"
  shows "P (snd (domain_apply_request st kv lg ledger_id req prev db))"
proof -
  have u: "P (snd (update_token_state st kv t False d))" if "P d" for t d
    using update_token_state_inv [of P, OF assms(1,2) that] .
  have s: "P (snd (pseq (update_token_state st kv t False) (pseq (\<lambda>e. (Inr (), e\<lparr>fd_fees_tracker := g e\<rparr>)) (preturn prev)) d))"
    if "P d" for t g d
    by (rule pseq_inv [where P = P]) (auto simp: u assms(4) that pseq_def pbind_def)
  then show ?thesis
    using assms(3,5)
    by (auto simp: domain_apply_request_def pbind_def pseq_def [of "\<lambda>db. (Inr (), db\<lparr>fd_ledger := lg_appendTxns lg (fd_ledger db) t\<rparr>)" for t]
        split: sum.splits)
qed

lemma apply_requests_inv:
  fixes db :: "('s, 'c, 'l, 't) fees_db" and P :: "('s, 'c, 'l, 't) fees_db \<Rightarrow> bool"
  assumes "\<And>a n d. P d \<Longrightarrow> P (snd (spend_input st kv a n False True d))"
    and "\<And>out d. P d \<Longrightarrow> P (snd (add_new_output st kv out False d))"
    and "\<And>t d. P d \<Longrightarrow> P (d\<lparr>fd_ledger := lg_appendTxns lg (fd_ledger d) t\<rparr>)" "\<And>f d. P d \<Longrightarrow> P (d\<lparr>fd_fees_tracker := f\<rparr>)" "P db"
  shows "P (apply_requests st kv lg ledger_id rs db)"
  using assms(5)
proof (induction rs arbitrary: db)
  case (Cons r rs)
  obtain req prev where "r = (req, prev)" by (cases r)
  then show ?case
    using Cons.IH domain_apply_inv [where P = P, OF assms(1-4) Cons.prems] by simp
qed simp

lemma on_cache_state: "tk_state (snd (on_cache f db)) = tk_state db"
  by (simp add: on_cache_def split: sum.splits)

lemma apply_requests_writes:
  "cache_writes kv (tk_cache db) (tk_cache (apply_requests st kv lg ledger_id rs db))"
  by (rule apply_requests_inv [where P = "\<lambda>d. cache_writes kv (tk_cache db) (tk_cache d)"])
    (auto intro: cache_writes_trans spend_input_writes add_new_output_writes cache_writes.no_write)

lemma apply_requests_tracker:
  fixes db :: "('s, 'c, 'l, 't) fees_db"
  shows "fd_token_tracker (apply_requests st kv lg ledger_id rs db) = fd_token_tracker db"
proof (rule apply_requests_inv [where P = "\<lambda>d. fd_token_tracker d = fd_token_tracker db"])
  fix a n out and d :: "('s, 'c, 'l, 't) fees_db"
  have "token_db.more (snd (spend_input st kv a n False True d)) = token_db.more d"
    "token_db.more (snd (add_new_output st kv out False d)) = token_db.more d"
    by (simp_all add: spend_input_def add_new_output_def Let_def on_cache_more)
  from more_fields(2) [OF this(1)] more_fields(2) [OF this(2)]
  show "fd_token_tracker d = fd_token_tracker db \<Longrightarrow>
      fd_token_tracker (snd (spend_input st kv a n False True d)) = fd_token_tracker db"
    "fd_token_tracker d = fd_token_tracker db \<Longrightarrow>
      fd_token_tracker (snd (add_new_output st kv out False d)) = fd_token_tracker db"
    by simp_all
qed simp_all


context state_head_store
begin

lemma apply_requests_known:
  "known (tk_state db) r \<Longrightarrow> known (tk_state (apply_requests st kv lg ledger_id rs db)) r"
  by (rule apply_requests_inv [where P = "\<lambda>d. known (tk_state d) r"])
    (auto simp: spend_input_def add_new_output_def Let_def on_cache_state known_set known_remove)

end

lemma apply_requests_no_fees:
  "\<forall>r\<in>set rs. \<not> has_fees (fst r) \<Longrightarrow> apply_requests st kv lg ledger_id rs db = db"
  by (induction rs) (auto simp: domain_apply_request_def)

section \<open>Rejecting a batch\<close>

text \<open>Between batches: the tracker's newest mark is that of the token state and ledger, no fee was
  counted yet and the cache has no changes outside a batch.\<close>

definition in_step :: "'s state_store \<Rightarrow> 'l ledger_ops \<Rightarrow> ('t \<Rightarrow> mark \<times> mark list) \<Rightarrow> ('c \<Rightarrow> (string \<rightharpoonup> string))
    \<Rightarrow> ('s, 'c, 'l, 't) fees_db \<Rightarrow> bool" where
  "in_step st lg view cur db \<longleftrightarrow>
     last (fst (view (fd_token_tracker db)) # snd (view (fd_token_tracker db))) =
       (st_headHash st (tk_state db), lg_uncommitted_root_hash lg (fd_ledger db), lg_uncommitted_size lg (fd_ledger db)) \<and>
     fees_in_current_batch (fd_fees_tracker db) = 0 \<and> cur (tk_cache db) = Map.empty"

text \<open>Rejecting a domain batch with fees undoes it on the token side: whatever its requests did, the
  token state reads as before the batch, the token ledger drops the transactions that were
  added, the UTXO cache has the committed and uncommitted contents of before, and the tracker
  is back at its mark.\<close>

theorem fee_batch_reject_restores:
  fixes db :: "('s, 'c, 'l, 't) fees_db"
  assumes "state_head_store st known" "kv_batch_store kv com unc cur rd rd_new" "batch_tracker tr view"
    and "in_step st lg view cur db" "db1 = apply_requests st kv lg ledger_id rs db"
    and "fees_in_current_batch (fd_fees_tracker db1) > 0"
    and "st_headHash st (tk_state db1) \<noteq> st_headHash st (tk_state db)"
    and "lg_uncommitted_root_hash lg (fd_ledger db1) \<noteq> lg_uncommitted_root_hash lg (fd_ledger db)"
    and "lg_uncommitted_size lg (fd_ledger db1) \<noteq> lg_uncommitted_size lg (fd_ledger db)"
  shows "\<exists>db2. fee_post_batch_rejected st kv lg tr (fee_post_batch_applied st kv lg tr db1) = (Inr (), db2) \<and>
    (\<forall>k. st_get st (tk_state db2) k False = st_get st (tk_state db) k False) \<and>
    fd_ledger db2 = lg_discardTxns lg (fd_ledger db1)
      (lg_uncommitted_size lg (fd_ledger db1) - lg_uncommitted_size lg (fd_ledger db)) \<and>
    com (tk_cache db2) = com (tk_cache db) \<and> unc (tk_cache db2) = unc (tk_cache db) \<and>
    cur (tk_cache db2) = Map.empty \<and> view (fd_token_tracker db2) = view (fd_token_tracker db)"
proof -
  obtain lc us where v: "view (fd_token_tracker db) = (lc, us)" by (cases "view (fd_token_tracker db)")
  let ?h = "st_headHash st (tk_state db1)" and ?old = "st_headHash st (tk_state db)"
  let ?x = "lg_uncommitted_root_hash lg (fd_ledger db1)" and ?n = "lg_uncommitted_size lg (fd_ledger db1)"
  let ?size = "lg_uncommitted_size lg (fd_ledger db)"
  let ?t = "tr_apply_batch tr (fd_token_tracker db) ?h ?x ?n"
  have tr1: "fd_token_tracker db1 = fd_token_tracker db" by (simp add: assms(5) apply_requests_tracker)
  have l: "last (lc # us) = (?old, lg_uncommitted_root_hash lg (fd_ledger db), ?size)"
    using assms(4) unfolding in_step_def v by simp
  obtain t' where t': "tr_reject_batch tr ?t = Inr ((?old, lg_uncommitted_root_hash lg (fd_ledger db), ?n - ?size), t')"
    "view t' = (lc, us)"
    using batch_tracker.reject_law [OF assms(3) batch_tracker.apply_law [OF assms(3) v] l] by blast
  have w: "com (tk_cache db1) = com (tk_cache db)" "unc (tk_cache db1) = unc (tk_cache db)"
    using kv_batch_store.writes_views [OF assms(2) apply_requests_writes [of kv db st lg ledger_id rs]] assms(5)
    by simp_all
  obtain k c where c: "kv_reject_batch kv (kv_create_batch_from_current kv (tk_cache db1) (RootBytes ?h)) = Inr (k, c)"
    "com c = com (tk_cache db)" "unc c = unc (tk_cache db)" "cur c = Map.empty"
    using kv_batch_store.reject [OF assms(2), of "kv_create_batch_from_current kv (tk_cache db1) (RootBytes ?h)"
        "unc (tk_cache db)" "RootBytes ?h" "cur (tk_cache db1)"] kv_batch_store.create [OF assms(2)] w
    by auto
  have "known (tk_state db1) ?old"
    using state_head_store.apply_requests_known [OF assms(1) state_head_store.known_head [OF assms(1)]] assms(5) by simp
  then have s: "st_get st (st_revertToHead st (tk_state db1) ?old) k False = st_get st (tk_state db) k False" for k
    by (rule state_head_store.revert_get [OF assms(1)])
  show ?thesis
    using t' c s v assms(6-9)
    by (simp add: fee_post_batch_applied_def fee_post_batch_rejected_def Let_def tr1)
qed

text \<open>A domain batch without fees leaves the token side alone: applying and rejecting it returns to
  the same token state, ledger, cache and tracker mark.\<close>

theorem no_fee_batch_reject:
  fixes db :: "('s, 'c, 'l, 't) fees_db"
  assumes "batch_tracker tr view" "in_step st lg view cur db" "\<forall>r\<in>set rs. \<not> has_fees (fst r)"
  shows "\<exists>t. fee_post_batch_rejected st kv lg tr (fee_post_batch_applied st kv lg tr
      (apply_requests st kv lg ledger_id rs db)) = (Inr (), db\<lparr>fd_token_tracker := t\<rparr>) \<and>
    view t = view (fd_token_tracker db)"
proof -
  obtain lc us where v: "view (fd_token_tracker db) = (lc, us)" by (cases "view (fd_token_tracker db)")
  have l: "last (lc # us) = (st_headHash st (tk_state db), lg_uncommitted_root_hash lg (fd_ledger db),
      lg_uncommitted_size lg (fd_ledger db))"
    using assms(2) unfolding in_step_def v by simp
  obtain t' where "tr_reject_batch tr (tr_apply_batch tr (fd_token_tracker db) (st_headHash st (tk_state db))
      (lg_uncommitted_root_hash lg (fd_ledger db)) (lg_uncommitted_size lg (fd_ledger db))) =
      Inr ((st_headHash st (tk_state db), lg_uncommitted_root_hash lg (fd_ledger db), 0), t')" "view t' = (lc, us)"
    using batch_tracker.reject_law [OF assms(1) batch_tracker.apply_law [OF assms(1) v] l] by (metis diff_self)
  then show ?thesis
    using assms(2) v
    by (simp add: apply_requests_no_fees [OF assms(3)] fee_post_batch_applied_def fee_post_batch_rejected_def
        in_step_def Let_def) blast
qed

section \<open>Committing a batch\<close>

lemma attach_fees_spec:
  assumes "length fts = length (filter (\<lambda>t. dt_seqNo t \<in> set seqs) ts)"
  shows "\<exists>ts'. attach_fees seqs fts ts = Inr ts' \<and> map dt_seqNo ts' = map dt_seqNo ts \<and>
    map dt_fees (filter (\<lambda>t. dt_seqNo t \<in> set seqs) ts') = map Some fts \<and>
    filter (\<lambda>t. dt_seqNo t \<notin> set seqs) ts' = filter (\<lambda>t. dt_seqNo t \<notin> set seqs) ts"
  using assms
proof (induction ts arbitrary: fts)
  case (Cons t ts)
  show ?case
  proof (cases "dt_seqNo t \<in> set seqs")
    case True
    then obtain x xs where "fts = x # xs" "length xs = length (filter (\<lambda>t. dt_seqNo t \<in> set seqs) ts)"
      using Cons.prems by (cases fts) auto
    then show ?thesis using Cons.IH [of xs] True by auto
  next
    case False
    then show ?thesis using Cons.IH [of fts] Cons.prems by auto
  qed
qed simp

definition with_fees :: "fees_tracker \<Rightarrow> domain_txn list \<Rightarrow> int list" where
  "with_fees ft txns = map dt_seqNo (filter (\<lambda>x. has_deducted_fees (dt_type x) (dt_seqNo x) ft) txns)"

text \<open>In a batch the sequence numbers differ, so that they name the transactions with fees.\<close>

lemma with_fees_count:
  assumes "distinct (map dt_seqNo txns)"
  shows "length (filter (\<lambda>t. dt_seqNo t \<in> set (with_fees ft txns)) txns) = length (with_fees ft txns)"
proof -
  have "dt_seqNo t \<in> set (with_fees ft txns) \<longleftrightarrow> has_deducted_fees (dt_type t) (dt_seqNo t) ft" if "t \<in> set txns" for t
    using assms that by (auto simp: with_fees_def distinct_map dest: inj_onD)
  then have "filter (\<lambda>t. dt_seqNo t \<in> set (with_fees ft txns)) txns = filter (\<lambda>x. has_deducted_fees (dt_type x) (dt_seqNo x) ft) txns"
    by (rule filter_cong [OF refl])
  then show ?thesis by (simp add: with_fees_def)
qed

lemma fee_commit_unfold:
  assumes "tr_commit_batch tr (fd_token_tracker db) = Inr ((sr, xr, n), t)"
    and "with_fees (fd_fees_tracker db) txns \<noteq> []"
    and "base_commit (fd_ledger db) (tk_state db)
      (token_fake_three_pc_batch serialize_root batch sr xr (length (with_fees (fd_fees_tracker db) txns))) = Inr (fts, l, s)"
  shows "fee_commit_batch dec serialize_root kv tr base_commit batch txns db =
    (let db = db\<lparr>fd_token_tracker := t, fd_ledger := l, tk_state := s\<rparr> in
     case commit_to_utxo_cache dec kv (RootBytes sr) (tk_cache db) of
       Inl e \<Rightarrow> (Inl e, db)
     | Inr c \<Rightarrow> (case attach_fees (with_fees (fd_fees_tracker db) txns) fts txns of
           Inl e \<Rightarrow> (Inl e, db\<lparr>tk_cache := c\<rparr>)
         | Inr ts \<Rightarrow> (Inr ts, db\<lparr>tk_cache := c,
             fd_fees_tracker := (fd_fees_tracker db)\<lparr>fees_in_current_batch := 0\<rparr>\<rparr>)))"
  using assms
  by (cases "commit_to_utxo_cache dec kv (RootBytes sr) (tk_cache db)";
      cases "attach_fees (with_fees (fd_fees_tracker db) txns) fts txns")
    (simp_all add: fee_commit_batch_def Let_def with_fees_def)

text \<open>C17: Committing a domain batch with fees commits the token side with it: the oldest batch of the
  UTXO cache moves to the committed view, uncommitted readers see no difference, the tracker's
  mark advances, and each committed transaction with fees carries its fee transaction, in
  order, while the others are returned unchanged.\<close>

theorem fee_batch_commit:
  fixes db :: "('s, 'c, 'l, 't) fees_db"
  assumes "kv_batch_store kv com unc cur rd rd_new" "batch_tracker tr view"
    and "view (fd_token_tracker db) = ((lsr, lxr, ln), (sr, xr, n) # us)"
    and "unc (tk_cache db) = (RootBytes sr, b) # bs"
    and "seqs = with_fees (fd_fees_tracker db) txns" "seqs \<noteq> []"
    and "base_commit (fd_ledger db) (tk_state db)
      (token_fake_three_pc_batch serialize_root batch sr xr (length seqs)) = Inr (fts, l, s)"
    and "length fts = length (filter (\<lambda>t. dt_seqNo t \<in> set seqs) txns)"
  shows "\<exists>ts db'. fee_commit_batch dec serialize_root kv tr base_commit batch txns db = (Inr ts, db') \<and>
    com (tk_cache db') = com (tk_cache db) ++ b \<and> unc (tk_cache db') = bs \<and>
    visible (com (tk_cache db')) (unc (tk_cache db')) (cur (tk_cache db')) =
      visible (com (tk_cache db)) (unc (tk_cache db)) (cur (tk_cache db)) \<and>
    view (fd_token_tracker db') = ((sr, xr, n), us) \<and> fd_ledger db' = l \<and> tk_state db' = s \<and>
    map dt_seqNo ts = map dt_seqNo txns \<and>
    map dt_fees (filter (\<lambda>t. dt_seqNo t \<in> set seqs) ts) = map Some fts \<and>
    filter (\<lambda>t. dt_seqNo t \<notin> set seqs) ts = filter (\<lambda>t. dt_seqNo t \<notin> set seqs) txns"
proof -
  obtain t where t: "tr_commit_batch tr (fd_token_tracker db) = Inr ((sr, xr, n - ln), t)"
    "view t = ((sr, xr, n), us)"
    using batch_tracker.commit_law [OF assms(2,3)] by blast
  obtain c where c: "kv_commit_batch kv (tk_cache db) = Inr c" "com c = com (tk_cache db) ++ b" "unc c = bs"
    "visible (com c) (unc c) (cur c) = visible (com (tk_cache db)) (unc (tk_cache db)) (cur (tk_cache db))"
    using kv_batch_store.commit_seen [OF assms(1,4)] by blast
  have cc: "commit_to_utxo_cache dec kv (RootBytes sr) (tk_cache db) = Inr c"
    using c(1) kv_batch_store.first [OF assms(1,4)] by (simp add: commit_to_utxo_cache_def)
  obtain ts where ts: "attach_fees seqs fts txns = Inr ts" "map dt_seqNo ts = map dt_seqNo txns"
    "map dt_fees (filter (\<lambda>t. dt_seqNo t \<in> set seqs) ts) = map Some fts"
    "filter (\<lambda>t. dt_seqNo t \<notin> set seqs) ts = filter (\<lambda>t. dt_seqNo t \<notin> set seqs) txns"
    using attach_fees_spec [OF assms(8)] by blast
  show ?thesis
    using c(2-4) t(2) ts
      fee_commit_unfold [of tr db sr xr "n - ln" t txns base_commit serialize_root batch fts l s dec kv]
      t(1) assms(5-7)
    by (simp add: cc)
qed

text \<open>The example request in a batch, and a node whose token side has one uncommitted batch.\<close>

definition ex_bdb :: "(ms, okv, fee_txn list, mark \<times> mark list) fees_db" where
  "ex_bdb = \<lparr>tk_state = tk_state ex_db, tk_cache = okv_create (tk_cache ex_db) (RootBytes ''g''), fd_ledger = [],
     fd_token_tracker = ((enc_head (ms_head (tk_state ex_db)), ''1'', 1), []), fd_fees_tracker = tracker_init\<rparr>"

definition ex_batch :: pc_batch where
  "ex_batch = \<lparr>tpc_state_root = RootBytes ''d'', pb_ledger_id = 1, pb_inst_id = 0, pb_view_no = 0,
     pb_pp_seq_no = 3, pb_pp_time = 100, pb_txn_root = ''x'', pb_primaries = [''Alpha''],
     pb_valid_digests = [], pb_pp_digest = ''p''\<rparr>"

lemma ex_bdb_in_step: "in_step ms_store ref_ledger (\<lambda>t. t) okv_cur ex_bdb"
  by (simp add: in_step_def ex_bdb_def ref_ledger_def ms_store_def tracker_init_def py_str_def okv_create_def, code_simp)

theorem no_fee_batch_reject_witness:
  "\<exists>t. fee_post_batch_rejected ms_store okv_store ref_ledger ref_tracker
      (fee_post_batch_applied ms_store okv_store ref_ledger ref_tracker
        (apply_requests ms_store okv_store ref_ledger 1 [(ex_request, ex_domain_txn)] ex_bdb)) =
      (Inr (), ex_bdb\<lparr>fd_token_tracker := t\<rparr>)"
proof -
  have "\<forall>r\<in>set [(ex_request, ex_domain_txn)]. \<not> has_fees (fst r)"
    by (simp add: has_fees_def ex_request_def)
  from no_fee_batch_reject [OF ref_tracker.batch_tracker_axioms ex_bdb_in_step this] show ?thesis by blast
qed

definition ex_paid :: fees_tracker where
  "ex_paid = add_deducted_fees ''1'' 5 4 (tracker_init\<lparr>fees_in_current_batch := 1\<rparr>)"

definition ex_cdb :: "(ms, okv, fee_txn list, mark \<times> mark list) fees_db" where
  "ex_cdb = \<lparr>tk_state = ms_empty, tk_cache = okv_empty\<lparr>okv_unc := [(RootBytes ''sr'', [''A'' \<mapsto> ''2:6''])]\<rparr>,
     fd_ledger = [], fd_token_tracker = ((''l'', ''x'', 0), [(''sr'', ''xr'', 1)]), fd_fees_tracker = ex_paid\<rparr>"

definition ex_fee_txn :: fee_txn where
  "ex_fee_txn = make_fee_txn 1 ex_nym ex_domain_txn [ex_input] [ex_change] [''sig''] 4 2"

definition ex_base_commit :: "fee_txn list \<Rightarrow> ms \<Rightarrow> pc_batch \<Rightarrow> exn + (fee_txn list \<times> fee_txn list \<times> ms)" where
  "ex_base_commit l s f = Inr (map (\<lambda>_. ex_fee_txn) (pb_valid_digests f), l, s)"

theorem fee_batch_commit_witness:
  "\<exists>ts db'. fee_commit_batch Some (\<lambda>r. r) okv_store ref_tracker ex_base_commit ex_batch
      [ex_domain_txn] ex_cdb = (Inr ts, db') \<and> okv_unc (tk_cache db') = [] \<and> map dt_seqNo ts = [5]"
proof -
  have seqs: "[5] = with_fees (fd_fees_tracker ex_cdb) [ex_domain_txn]" by code_simp
  have v: "(\<lambda>t. t) (fd_token_tracker ex_cdb) = ((''l'', ''x'', 0), [(''sr'', ''xr'', 1)])"
    "okv_unc (tk_cache ex_cdb) = [(RootBytes ''sr'', [''A'' \<mapsto> ''2:6''])]" by (simp_all add: ex_cdb_def)
  have len: "length [ex_fee_txn] = length (filter (\<lambda>t. dt_seqNo t \<in> set [5]) [ex_domain_txn])"
    and n: "map dt_seqNo [ex_domain_txn] = [5]" by (simp_all add: ex_domain_txn_def)
  have ne: "[5] \<noteq> ([] :: int list)" by simp
  have bc: "ex_base_commit (fd_ledger ex_cdb) (tk_state ex_cdb)
      (token_fake_three_pc_batch (\<lambda>r. r) ex_batch ''sr'' ''xr'' (length [5::int])) =
      Inr ([ex_fee_txn], fd_ledger ex_cdb, tk_state ex_cdb)" by (simp add: ex_base_commit_def token_fake_three_pc_batch_def)
  show ?thesis
    using fee_batch_commit [where view = "\<lambda>t. t" and unc = okv_unc and db = ex_cdb and base_commit = ex_base_commit
        and dec = Some, OF okv.kv_batch_store_axioms ref_tracker.batch_tracker_axioms v seqs ne bc len]
    unfolding n by (elim exE conjE) (intro exI conjI)
qed

end
