(* ===== verification/Batch_Runs.thy ===== *)
theory Batch_Runs
  imports Fee_Batches "HOL-Library.Sublist"
begin

text \<open>
  The token side of a node over any sequence of batches of the domain ledger (handlers of
  \<open>Fee_Batches\<close>) and of the token ledger (handlers of \<open>Token_Batches\<close> and \<open>TrackerBatchHandler\<close>, in the
  order in which the plugins register them): batches are applied, the newest uncommitted one is
  rejected, the oldest one is committed (\<open>batch_run\<close>).

  The abstract machine is a queue of snapshots, one for the committed state and one for each
  uncommitted batch: applying adds one at the end, rejecting drops the last, committing drops the
  first. \<open>queue_ok\<close> is the invariant that ties the four stores (token state, token ledger, UTXO
  cache, tracker of marks) to the queue; the properties are that the stores always show the last
  snapshot and that rejecting never fails.
\<close>

section \<open>Batches of the token ledger\<close>

text \<open>What belongs to plenum: the stores; \<open>be_append\<close>, by which \<open>WriteRequestHandler.apply_request\<close> adds the
  transaction of a token request to the ledger; \<open>be_base_commit\<close>, which is
  \<open>BatchRequestHandler._commit\<close> on the token ledger and state. \<open>be_seen\<close> reads what the uncommitted
  readers of the cache see.\<close>

record ('s, 'c, 'l, 't) batch_env =
  be_st :: "'s state_store"
  be_kv :: "'c kv_store"
  be_lg :: "'l ledger_ops"
  be_tr :: "'t tracker_ops"
  be_b58decode :: "string \<Rightarrow> string option"
  be_serialize_root :: "string \<Rightarrow> string"
  be_base_commit :: "'l \<Rightarrow> 's \<Rightarrow> pc_batch \<Rightarrow> exn + (fee_txn list \<times> 'l \<times> 's)"
  be_append :: "'l \<Rightarrow> txn \<Rightarrow> 'l"
  be_ledger_id :: int
  be_seen :: "'c \<Rightarrow> (string \<rightharpoonup> string)"

text \<open>A request of the token ledger: its transaction is appended, then \<open>update_state\<close> of its handler runs;
  one that raises leaves its partial effects for the batch to be reverted.\<close>

definition apply_token_txn :: "('s, 'c, 'l, 't) batch_env \<Rightarrow> txn \<Rightarrow> ('s, 'c, 'l, 't) fees_db \<Rightarrow> ('s, 'c, 'l, 't) fees_db" where
  "apply_token_txn B t db =
     (let d = db\<lparr>fd_ledger := be_append B (fd_ledger db) t\<rparr> in
      if tx_type t = MINT_PUBLIC then snd (mint_update_state (be_st B) (be_kv B) t False d)
      else snd (xfer_update_state (be_st B) (be_kv B) t False d))"

definition apply_token_txns :: "('s, 'c, 'l, 't) batch_env \<Rightarrow> txn list \<Rightarrow> ('s, 'c, 'l, 't) fees_db \<Rightarrow> ('s, 'c, 'l, 't) fees_db" where
  "apply_token_txns B ts db = foldl (\<lambda>d t. apply_token_txn B t d) db ts"

text \<open>\<open>TokenBatchHandler\<close>, \<open>UTXOBatchHandler\<close> and \<open>TrackerBatchHandler\<close>, one after the other. The state root of
  an applied batch is the head of the token state.\<close>

definition token_batch_applied :: "('s, 'c, 'l, 't) batch_env \<Rightarrow> ('s, 'c, 'l, 't) fees_db \<Rightarrow> ('s, 'c, 'l, 't) fees_db" where
  "token_batch_applied B db =
     (let d = token_post_batch_applied db;
          batch = \<lparr>tpc_state_root = RootBytes (st_headHash (be_st B) (tk_state d))\<rparr>
      in tracker_post_batch_applied (be_st B) (be_lg B) (be_tr B)
           (d\<lparr>tk_cache := utxo_post_batch_applied (be_kv B) batch (tk_cache d)\<rparr>))"

text \<open>The node first takes the token state back to the root before the batch and drops the batch's
  \<open>n\<close> transactions from the token ledger.\<close>

definition token_batch_rejected :: "('s, 'c, 'l, 't) batch_env \<Rightarrow> string \<Rightarrow> int \<Rightarrow> (('s, 'c, 'l, 't) fees_db, unit) proc" where
  "token_batch_rejected B root n db =
     (let d = token_post_batch_rejected (db\<lparr>tk_state := st_revertToHead (be_st B) (tk_state db) root,
            fd_ledger := lg_discardTxns (be_lg B) (fd_ledger db) n\<rparr>)
      in case utxo_post_batch_rejected (be_kv B) (tk_cache d) of
           Inl e \<Rightarrow> (Inl e, d)
         | Inr c \<Rightarrow> tracker_post_batch_rejected (be_tr B) (d\<lparr>tk_cache := c\<rparr>))"

definition token_batch_committed :: "('s, 'c, 'l, 't) batch_env \<Rightarrow> pc_batch \<Rightarrow> (('s, 'c, 'l, 't) fees_db, unit) proc" where
  "token_batch_committed B batch db =
     (case be_base_commit B (fd_ledger db) (tk_state db) batch of
        Inl e \<Rightarrow> (Inl e, db)
      | Inr (txns, l, s) \<Rightarrow>
          (let d = db\<lparr>fd_ledger := l, tk_state := s\<rparr> in
           case utxo_commit_batch (be_b58decode B) (be_kv B) (three_pc_batch.truncate batch) (tk_cache d) of
             Inl e \<Rightarrow> (Inl e, d)
           | Inr c \<Rightarrow> tracker_commit_batch (be_tr B) (d\<lparr>tk_cache := c\<rparr>)))"

section \<open>The machine\<close>

text \<open>A snapshot: token state, token ledger, visible cache entries, and the kind of its batch. A plain
  batch is one of the domain ledger without fees.\<close>

datatype batch_kind = PlainBatch | FeeBatch | TokenBatch

record ('s, 'l) snapshot =
  sn_state :: 's
  sn_ledger :: 'l
  sn_seen :: "string \<rightharpoonup> string"
  sn_kind :: batch_kind

definition mark_of :: "('s, 'c, 'l, 't) batch_env \<Rightarrow> 's \<Rightarrow> 'l \<Rightarrow> mark" where
  "mark_of B s l = (st_headHash (be_st B) s, lg_uncommitted_root_hash (be_lg B) l, lg_uncommitted_size (be_lg B) l)"

definition sn_mark :: "('s, 'c, 'l, 't) batch_env \<Rightarrow> ('s, 'l) snapshot \<Rightarrow> mark" where
  "sn_mark B p = mark_of B (sn_state p) (sn_ledger p)"

definition snap :: "('s, 'c, 'l, 't) batch_env \<Rightarrow> batch_kind \<Rightarrow> ('s, 'c, 'l, 't) fees_db \<Rightarrow> ('s, 'l) snapshot" where
  "snap B kind db = \<lparr>sn_state = tk_state db, sn_ledger = fd_ledger db, sn_seen = be_seen B (tk_cache db), sn_kind = kind\<rparr>"

text \<open>All three components of two marks differ.\<close>

definition apart :: "mark \<Rightarrow> mark \<Rightarrow> bool" where
  "apart m m' \<longleftrightarrow> fst m \<noteq> fst m' \<and> fst (snd m) \<noteq> fst (snd m') \<and> snd (snd m) \<noteq> snd (snd m')"

text \<open>Rejecting the newest batch, whose snapshot \<open>s\<close> follows \<open>p\<close>: for a batch of the token ledger the node
  has kept the root before it and the number of its transactions.\<close>

definition reject_batch :: "('s, 'c, 'l, 't) batch_env \<Rightarrow> ('s, 'l) snapshot \<Rightarrow> ('s, 'l) snapshot
    \<Rightarrow> (('s, 'c, 'l, 't) fees_db, unit) proc" where
  "reject_batch B p s =
     (if sn_kind s = TokenBatch
      then token_batch_rejected B (fst (sn_mark B p)) (snd (snd (sn_mark B s)) - snd (snd (sn_mark B p)))
      else fee_post_batch_rejected (be_st B) (be_kv B) (be_lg B) (be_tr B))"

text \<open>Applying a batch: \<open>db1\<close> is the state after its requests, \<open>db2\<close> that after the handlers of the batch. A
  domain batch with fees changes the roots of state and ledger; in a plain batch no request has
  fees.\<close>

inductive batch_applied :: "('s, 'c, 'l, 't) batch_env \<Rightarrow> ('s, 'c, 'l, 't) fees_db \<Rightarrow> batch_kind
    \<Rightarrow> ('s, 'c, 'l, 't) fees_db \<Rightarrow> ('s, 'c, 'l, 't) fees_db \<Rightarrow> bool" for B db where
  fees_applied: "db1 = apply_requests (be_st B) (be_kv B) (be_lg B) (be_ledger_id B) rs db \<Longrightarrow>
    fees_in_current_batch (fd_fees_tracker db1) > 0 \<Longrightarrow>
    apart (mark_of B (tk_state db1) (fd_ledger db1)) (mark_of B (tk_state db) (fd_ledger db)) \<Longrightarrow>
    db2 = fee_post_batch_applied (be_st B) (be_kv B) (be_lg B) (be_tr B) db1 \<Longrightarrow>
    batch_applied B db FeeBatch db1 db2"
| plain_applied: "\<forall>r\<in>set rs. \<not> has_fees (fst r) \<Longrightarrow>
    db1 = apply_requests (be_st B) (be_kv B) (be_lg B) (be_ledger_id B) rs db \<Longrightarrow>
    db2 = fee_post_batch_applied (be_st B) (be_kv B) (be_lg B) (be_tr B) db1 \<Longrightarrow>
    batch_applied B db PlainBatch db1 db2"
| tokens_applied: "db1 = apply_token_txns B ts db \<Longrightarrow> db2 = token_batch_applied B db1 \<Longrightarrow>
    batch_applied B db TokenBatch db1 db2"

text \<open>Committing the oldest batch, whose snapshot is \<open>s\<close>. A domain commit is called with transactions that
  the tracker takes for ones with fees exactly when the batch had fees.\<close>

inductive batch_committed :: "('s, 'c, 'l, 't) batch_env \<Rightarrow> ('s, 'l) snapshot \<Rightarrow> ('s, 'c, 'l, 't) fees_db
    \<Rightarrow> ('s, 'c, 'l, 't) fees_db \<Rightarrow> bool" for B s db where
  domain_committed: "sn_kind s \<noteq> TokenBatch \<Longrightarrow>
    sn_kind s = FeeBatch \<longleftrightarrow> with_fees (fd_fees_tracker db) txns \<noteq> [] \<Longrightarrow>
    fee_commit_batch (be_b58decode B) (be_serialize_root B) (be_kv B) (be_tr B) (be_base_commit B) batch txns db = (Inr ts, db1) \<Longrightarrow>
    batch_committed B s db db1"
| tokens_committed: "sn_kind s = TokenBatch \<Longrightarrow> token_batch_committed B batch db = (Inr (), db1) \<Longrightarrow>
    batch_committed B s db db1"

inductive batch_run :: "('s, 'c, 'l, 't) batch_env \<Rightarrow> ('s, 'c, 'l, 't) fees_db \<Rightarrow> ('s, 'c, 'l, 't) fees_db
    \<Rightarrow> ('s, 'l) snapshot list \<Rightarrow> bool" for B db0 where
  at_start: "batch_run B db0 db0 [snap B PlainBatch db0]"
| apply_batch: "batch_run B db0 db q \<Longrightarrow> batch_applied B db kind db1 db2 \<Longrightarrow>
    batch_run B db0 db2 (q @ [snap B kind db2])"
| reject_last: "batch_run B db0 db (q @ [p, s]) \<Longrightarrow> reject_batch B p s db = (Inr (), db1) \<Longrightarrow>
    batch_run B db0 db1 (q @ [p])"
| commit_first: "batch_run B db0 db (p # s # q) \<Longrightarrow> batch_committed B s db db1 \<Longrightarrow>
    batch_run B db0 db1 (s # q)"

section \<open>The queue and the stores\<close>

text \<open>What the newest snapshot \<open>p\<close> says of the stores.\<close>

definition shows_snapshot :: "('s, 'c, 'l, 't) batch_env \<Rightarrow> ('s, 'l) snapshot \<Rightarrow> ('s, 'c, 'l, 't) fees_db \<Rightarrow> bool" where
  "shows_snapshot B p db \<longleftrightarrow>
     (\<forall>k. st_get (be_st B) (tk_state db) k False = st_get (be_st B) (sn_state p) k False) \<and>
     mark_of B (tk_state db) (fd_ledger db) = sn_mark B p \<and> be_seen B (tk_cache db) = sn_seen p"

text \<open>The uncommitted batches of the cache belong to the snapshots that are not plain, in order.\<close>

fun layered :: "('s, 'c, 'l, 't) batch_env \<Rightarrow> ('s, 'l) snapshot \<Rightarrow> (state_root \<times> (string \<rightharpoonup> string)) list
    \<Rightarrow> ('s, 'l) snapshot list \<Rightarrow> bool" where
  "layered B p unc [] \<longleftrightarrow> unc = []"
| "layered B p unc (s # ss) \<longleftrightarrow>
     (if sn_kind s = PlainBatch
      then sn_mark B s = sn_mark B p \<and> sn_seen s = sn_seen p \<and> layered B s unc ss
      else (sn_kind s = FeeBatch \<longrightarrow> apart (sn_mark B s) (sn_mark B p)) \<and>
        (case unc of [] \<Rightarrow> False | (r, b) # rest \<Rightarrow>
           r = RootBytes (fst (sn_mark B s)) \<and> sn_seen s = sn_seen p ++ b \<and> layered B s rest ss))"

definition layer :: "('s, 'c, 'l, 't) batch_env \<Rightarrow> ('s, 'l) snapshot \<Rightarrow> ('s, 'l) snapshot
    \<Rightarrow> (state_root \<times> (string \<rightharpoonup> string)) list \<Rightarrow> bool" where
  "layer B p s layers \<longleftrightarrow>
     (if sn_kind s = PlainBatch
      then sn_mark B s = sn_mark B p \<and> sn_seen s = sn_seen p \<and> layers = []
      else (sn_kind s = FeeBatch \<longrightarrow> apart (sn_mark B s) (sn_mark B p)) \<and>
        (\<exists>b. layers = [(RootBytes (fst (sn_mark B s)), b)] \<and> sn_seen s = sn_seen p ++ b))"

lemma layered_Cons: "layered B p unc (s # ss) \<longleftrightarrow>
    (\<exists>us vs. unc = us @ vs \<and> layer B p s us \<and> layered B s vs ss)"
proof (cases "sn_kind s = PlainBatch")
  case False
  then have "layered B p unc (s # ss) \<longleftrightarrow> (sn_kind s = FeeBatch \<longrightarrow> apart (sn_mark B s) (sn_mark B p)) \<and>
      (\<exists>b rest. unc = (RootBytes (fst (sn_mark B s)), b) # rest \<and> sn_seen s = sn_seen p ++ b \<and> layered B s rest ss)"
    by (cases unc) auto
  also have "\<dots> \<longleftrightarrow> (\<exists>us vs. unc = us @ vs \<and> layer B p s us \<and> layered B s vs ss)"
    using False by (auto simp: layer_def) (metis append_Cons append_Nil)+
  finally show ?thesis .
qed (auto simp: layer_def)

lemma layered_snoc: "layered B p unc (ss @ [s]) \<longleftrightarrow>
    (\<exists>us vs. unc = us @ vs \<and> layered B p us ss \<and> layer B (last (p # ss)) s vs)"
proof (induction ss arbitrary: p unc)
  case Nil
  show ?case by (simp only: append_Nil layered_Cons) simp
next
  case (Cons t ss)
  have "layered B p unc ((t # ss) @ [s]) \<longleftrightarrow>
      (\<exists>us vs ws. unc = us @ vs @ ws \<and> layer B p t us \<and> layered B t vs ss \<and> layer B (last (t # ss)) s ws)"
    by (simp only: append_Cons layered_Cons Cons.IH) blast
  also have "\<dots> \<longleftrightarrow> (\<exists>us vs. unc = us @ vs \<and> layered B p us (t # ss) \<and> layer B (last (p # t # ss)) s vs)"
    by (simp only: layered_Cons last.simps list.distinct if_False) (metis append_assoc)
  finally show ?case .
qed

lemma layered_seen: "layered B p unc ss \<Longrightarrow> visible (sn_seen p) unc Map.empty = sn_seen (last (p # ss))"
proof (induction ss arbitrary: p unc)
  case (Cons s ss)
  then obtain us vs where "unc = us @ vs" "layer B p s us" "layered B s vs ss" by (auto simp only: layered_Cons)
  moreover from this have "visible (sn_seen p) unc Map.empty = visible (sn_seen s) vs Map.empty"
    by (auto simp: layer_def visible_def split: if_splits)
  ultimately show ?case using Cons.IH [of s vs] by simp
qed (simp add: visible_def)

text \<open>The token ledger holds its transactions in order, its root depends on them only.\<close>

locale fee_ledger =
  fixes lg :: "'l ledger_ops"
    and append_txn :: "'l \<Rightarrow> txn \<Rightarrow> 'l"
    and txns :: "'l \<Rightarrow> 'x list"
    and base :: int
  assumes append_law: "\<exists>x. txns (lg_appendTxns lg l t) = txns l @ [x]"
    and append_txn_law: "\<exists>x. txns (append_txn l t') = txns l @ [x]"
    and discard_law: "txns l = xs @ ys \<Longrightarrow> txns (lg_discardTxns lg l (int (length ys))) = xs"
    and size_law: "lg_uncommitted_size lg l = base + int (length (txns l))"
    and root_law: "txns l = txns l' \<Longrightarrow> lg_uncommitted_root_hash lg l = lg_uncommitted_root_hash lg l'"
begin

lemma prefix_append: "prefix xs (txns l) \<Longrightarrow> prefix xs (txns (lg_appendTxns lg l t))"
  "prefix xs (txns l) \<Longrightarrow> prefix xs (txns (append_txn l t'))"
  using append_law [of l t] append_txn_law [of l t'] by (auto simp: prefix_def)

end

text \<open>Spending and adding outputs leaves the ledger and the trackers alone.\<close>

lemma spend_add_fields:
  fixes d :: "('s, 'c, 'l, 't) fees_db"
  shows "fd_ledger (snd (spend_input st kv a n ic rs d)) = fd_ledger d"
    "fd_ledger (snd (add_new_output st kv out ic d)) = fd_ledger d"
    "fd_token_tracker (snd (spend_input st kv a n ic rs d)) = fd_token_tracker d"
    "fd_token_tracker (snd (add_new_output st kv out ic d)) = fd_token_tracker d"
    "fd_fees_tracker (snd (spend_input st kv a n ic rs d)) = fd_fees_tracker d"
    "fd_fees_tracker (snd (add_new_output st kv out ic d)) = fd_fees_tracker d"
proof -
  have m: "token_db.more (snd (spend_input st kv a n ic rs d)) = token_db.more d"
    "token_db.more (snd (add_new_output st kv out ic d)) = token_db.more d"
    by (simp_all add: spend_input_def add_new_output_def Let_def on_cache_more)
  show "fd_ledger (snd (spend_input st kv a n ic rs d)) = fd_ledger d"
    "fd_token_tracker (snd (spend_input st kv a n ic rs d)) = fd_token_tracker d"
    "fd_fees_tracker (snd (spend_input st kv a n ic rs d)) = fd_fees_tracker d"
    by (rule more_fields [OF m(1)])+
  show "fd_ledger (snd (add_new_output st kv out ic d)) = fd_ledger d"
    "fd_token_tracker (snd (add_new_output st kv out ic d)) = fd_token_tracker d"
    "fd_fees_tracker (snd (add_new_output st kv out ic d)) = fd_fees_tracker d"
    by (rule more_fields [OF m(2)])+
qed

context fee_ledger
begin

lemma apply_requests_txns:
  "prefix (txns (fd_ledger db)) (txns (fd_ledger (apply_requests st kv lg ledger_id rs db)))"
  by (rule apply_requests_inv [where P = "\<lambda>d. prefix (txns (fd_ledger db)) (txns (fd_ledger d))"])
    (simp_all add: spend_add_fields prefix_append)

end

lemma apply_token_inv:
  fixes db :: "('s, 'c, 'l, 't) fees_db" and P :: "('s, 'c, 'l, 't) fees_db \<Rightarrow> bool"
  assumes "\<And>a n d. P d \<Longrightarrow> P (snd (spend_input (be_st B) (be_kv B) a n False True d))"
    and "\<And>out d. P d \<Longrightarrow> P (snd (add_new_output (be_st B) (be_kv B) out False d))"
    and "\<And>t d. P d \<Longrightarrow> P (d\<lparr>fd_ledger := be_append B (fd_ledger d) t\<rparr>)" "P db"
  shows "P (apply_token_txns B ts db)"
  unfolding apply_token_txns_def
  using assms(4)
proof (induction ts arbitrary: db)
  case (Cons t ts)
  have "P (apply_token_txn B t db)"
    using add_outputs_inv [where P = P, OF assms(2)] update_token_state_inv [where P = P, OF assms(1,2)]
      assms(3) [OF Cons.prems, of t]
    by (auto simp: apply_token_txn_def Let_def mint_update_state_snd xfer_update_state_snd)
  with Cons.IH show ?case by simp
qed simp

lemma apply_token_frame:
  fixes db :: "('s, 'c, 'l, 't) fees_db"
  shows "cache_writes (be_kv B) (tk_cache db) (tk_cache (apply_token_txns B ts db))"
    "fd_token_tracker (apply_token_txns B ts db) = fd_token_tracker db"
    "fd_fees_tracker (apply_token_txns B ts db) = fd_fees_tracker db"
proof -
  show "cache_writes (be_kv B) (tk_cache db) (tk_cache (apply_token_txns B ts db))"
    by (rule apply_token_inv [where P = "\<lambda>d. cache_writes (be_kv B) (tk_cache db) (tk_cache d)"])
      (auto intro: cache_writes_trans spend_input_writes add_new_output_writes cache_writes.no_write)
  show "fd_token_tracker (apply_token_txns B ts db) = fd_token_tracker db"
    by (rule apply_token_inv [where P = "\<lambda>d. fd_token_tracker d = fd_token_tracker db"]) (simp_all add: spend_add_fields)
  show "fd_fees_tracker (apply_token_txns B ts db) = fd_fees_tracker db"
    by (rule apply_token_inv [where P = "\<lambda>d. fd_fees_tracker d = fd_fees_tracker db"]) (simp_all add: spend_add_fields)
qed

section \<open>The invariant\<close>

locale batch_machine = S: state_head_store "be_st B" known + K: kv_batch_store "be_kv B" com unc cur rd rd_new +
    T: batch_tracker "be_tr B" view + L: fee_ledger "be_lg B" "be_append B" txns base
  for B :: "('s, 'c, 'l, 't) batch_env" and known com unc cur rd rd_new view txns base +
  assumes seen_law: "be_seen B c = visible (com c) (unc c) (cur c)"
    and commit_law: "be_base_commit B l s batch = Inr (fts, l', s') \<Longrightarrow>
      txns l' = txns l \<and> st_headHash (be_st B) s' = st_headHash (be_st B) s \<and> (\<forall>r. known s r \<longrightarrow> known s' r)"
begin

lemma apply_token_known: "known (tk_state db) r \<Longrightarrow> known (tk_state (apply_token_txns B ts db)) r"
  by (rule apply_token_inv [where P = "\<lambda>d. known (tk_state d) r"])
    (auto simp: spend_input_def add_new_output_def Let_def on_cache_state S.known_set S.known_remove)

lemma apply_token_prefix: "prefix (txns (fd_ledger db)) (txns (fd_ledger (apply_token_txns B ts db)))"
  by (rule apply_token_inv [where P = "\<lambda>d. prefix (txns (fd_ledger db)) (txns (fd_ledger d))"])
    (simp_all add: spend_add_fields L.prefix_append)

definition queue_ok :: "('s, 'c, 'l, 't) fees_db \<Rightarrow> ('s, 'l) snapshot list \<Rightarrow> bool" where
  "queue_ok db q \<longleftrightarrow> q \<noteq> [] \<and> layered B (hd q) (unc (tk_cache db)) (tl q) \<and>
     sn_seen (hd q) = com (tk_cache db) \<and> cur (tk_cache db) = Map.empty \<and>
     fees_in_current_batch (fd_fees_tracker db) = 0 \<and>
     view (fd_token_tracker db) = (sn_mark B (hd q), map (sn_mark B) (tl q)) \<and>
     st_headHash (be_st B) (tk_state db) = st_headHash (be_st B) (sn_state (last q)) \<and>
     txns (fd_ledger db) = txns (sn_ledger (last q)) \<and>
     (\<forall>s\<in>set q. known (tk_state db) (fst (sn_mark B s))) \<and>
     sorted_wrt (\<lambda>s t. prefix (txns (sn_ledger s)) (txns (sn_ledger t))) q"

lemma same_ledger:
  "txns l = txns l' \<Longrightarrow> lg_uncommitted_root_hash (be_lg B) l = lg_uncommitted_root_hash (be_lg B) l' \<and>
    lg_uncommitted_size (be_lg B) l = lg_uncommitted_size (be_lg B) l'"
  using L.root_law [of l l'] by (simp add: L.size_law)

lemma queue_ok_mark: "queue_ok db q \<Longrightarrow> mark_of B (tk_state db) (fd_ledger db) = sn_mark B (last q)"
  using same_ledger [of "fd_ledger db" "sn_ledger (last q)"] by (simp add: queue_ok_def sn_mark_def mark_of_def)

lemma queue_ok_shows:
  assumes "queue_ok db q"
  shows "shows_snapshot B (last q) db"
proof -
  obtain p ss where q: "q = p # ss" using assms by (cases q) (auto simp: queue_ok_def)
  have "be_seen B (tk_cache db) = sn_seen (last q)"
    using assms layered_seen [of B p "unc (tk_cache db)" ss] by (simp add: queue_ok_def q seen_law)
  moreover have "st_get (be_st B) (tk_state db) k False = st_get (be_st B) (sn_state (last q)) k False" for k
    by (rule S.head_contents) (use assms in \<open>simp add: queue_ok_def\<close>)
  ultimately show ?thesis using queue_ok_mark [OF assms] by (simp add: shows_snapshot_def)
qed

lemma queue_ok_start:
  assumes "in_step (be_st B) (be_lg B) view cur db" "snd (view (fd_token_tracker db)) = []" "unc (tk_cache db) = []"
  shows "queue_ok db [snap B fees db]"
  using assms S.known_head
  by (cases "view (fd_token_tracker db)")
    (auto simp: queue_ok_def in_step_def snap_def sn_mark_def mark_of_def seen_law visible_def)


lemma queue_ok_snoc:
  assumes "queue_ok db q" "layer B (last q) s vs" "unc (tk_cache db') = unc (tk_cache db) @ vs"
    and "com (tk_cache db') = com (tk_cache db)" "cur (tk_cache db') = Map.empty"
    and "fees_in_current_batch (fd_fees_tracker db') = 0"
    and "view (fd_token_tracker db') = (sn_mark B (hd q), map (sn_mark B) (tl q) @ [sn_mark B s])"
    and "st_headHash (be_st B) (tk_state db') = st_headHash (be_st B) (sn_state s)"
    and "txns (fd_ledger db') = txns (sn_ledger s)" "prefix (txns (fd_ledger db)) (txns (sn_ledger s))"
    and "\<And>r. known (tk_state db) r \<Longrightarrow> known (tk_state db') r"
  shows "queue_ok db' (q @ [s])"
proof -
  obtain p ss where q: "q = p # ss" using assms(1) by (cases q) (auto simp: queue_ok_def)
  have "layered B p (unc (tk_cache db)) ss" "layer B (last (p # ss)) s vs"
    using assms(1,2) by (simp_all add: queue_ok_def q)
  then have "layered B p (unc (tk_cache db')) (ss @ [s])"
    unfolding layered_snoc assms(3) by blast
  moreover have "known (tk_state db') (fst (sn_mark B s))"
    using S.known_head [of "tk_state db'"] assms(8) by (simp add: sn_mark_def mark_of_def)
  moreover have "prefix (txns (sn_ledger t)) (txns (sn_ledger s))" if "t \<in> set q" for t
  proof -
    have "t = last q \<or> prefix (txns (sn_ledger t)) (txns (sn_ledger (last q)))"
      using assms(1) that unfolding queue_ok_def
      by (metis append_butlast_last_id in_set_conv_decomp_last insert_iff list.set(2) set_append
          append_is_Nil_conv last_in_set sorted_wrt_append Un_iff empty_iff list.set(1))
    then show ?thesis
      using assms(1,10) by (auto simp: queue_ok_def intro: prefix_order.trans)
  qed
  ultimately show ?thesis
    using assms by (auto simp: queue_ok_def q sorted_wrt_append)
qed

lemma apply_fees_ok:
  fixes db :: "('s, 'c, 'l, 't) fees_db"
  assumes "queue_ok db q" "db1 = apply_requests (be_st B) (be_kv B) (be_lg B) (be_ledger_id B) rs db"
    and "fees_in_current_batch (fd_fees_tracker db1) > 0"
    and "apart (mark_of B (tk_state db1) (fd_ledger db1)) (mark_of B (tk_state db) (fd_ledger db))"
    and "db2 = fee_post_batch_applied (be_st B) (be_kv B) (be_lg B) (be_tr B) db1"
  shows "queue_ok db2 (q @ [snap B FeeBatch db2])"
proof (rule queue_ok_snoc [OF assms(1)])
  let ?r = "RootBytes (st_headHash (be_st B) (tk_state db1))"
  have w: "com (tk_cache db1) = com (tk_cache db)" "unc (tk_cache db1) = unc (tk_cache db)"
    using K.writes_views [OF apply_requests_writes [of "be_kv B" db "be_st B" "be_lg B" "be_ledger_id B" rs]] assms(2)
    by simp_all
  have d: "tk_state db2 = tk_state db1" "fd_ledger db2 = fd_ledger db1"
    "tk_cache db2 = kv_create_batch_from_current (be_kv B) (tk_cache db1) ?r"
    "fees_in_current_batch (fd_fees_tracker db2) = 0"
    "fd_token_tracker db2 = tr_apply_batch (be_tr B) (fd_token_tracker db1) (st_headHash (be_st B) (tk_state db1))
      (lg_uncommitted_root_hash (be_lg B) (fd_ledger db1)) (lg_uncommitted_size (be_lg B) (fd_ledger db1))"
    using assms(3,5) by (simp_all add: fee_post_batch_applied_def Let_def)
  show "unc (tk_cache db2) = unc (tk_cache db) @ [(?r, cur (tk_cache db1))]"
    "com (tk_cache db2) = com (tk_cache db)" "cur (tk_cache db2) = Map.empty"
    by (simp_all add: d(3) K.create w)
  have m: "sn_mark B (snap B FeeBatch db2) = mark_of B (tk_state db1) (fd_ledger db1)"
    by (simp add: sn_mark_def snap_def d)
  have "be_seen B (tk_cache db) = sn_seen (last q)"
    using queue_ok_shows [OF assms(1)] by (simp add: shows_snapshot_def)
  moreover have "cur (tk_cache db) = Map.empty" using assms(1) by (simp add: queue_ok_def)
  ultimately show "layer B (last q) (snap B FeeBatch db2) [(?r, cur (tk_cache db1))]"
    using assms(4) queue_ok_mark [OF assms(1)]
    by (simp add: layer_def m) (simp add: snap_def mark_of_def seen_law visible_def d(3) K.create w)
  have "view (fd_token_tracker db1) = (sn_mark B (hd q), map (sn_mark B) (tl q))"
    using assms(1,2) by (simp add: queue_ok_def apply_requests_tracker)
  from T.apply_law [OF this]
  show "view (fd_token_tracker db2) = (sn_mark B (hd q), map (sn_mark B) (tl q) @ [sn_mark B (snap B FeeBatch db2)])"
    unfolding d(5) m mark_of_def .
  show "prefix (txns (fd_ledger db)) (txns (sn_ledger (snap B FeeBatch db2)))"
    using L.apply_requests_txns [of db] by (simp add: snap_def d assms(2))
  show "known (tk_state db) r \<Longrightarrow> known (tk_state db2) r" for r
    using S.apply_requests_known [of db] by (simp add: d assms(2))
qed (use assms(3,5) in \<open>simp_all add: snap_def fee_post_batch_applied_def Let_def\<close>)

lemma apply_plain_ok:
  fixes db :: "('s, 'c, 'l, 't) fees_db"
  assumes "queue_ok db q" "\<forall>r\<in>set rs. \<not> has_fees (fst r)"
    and "db1 = apply_requests (be_st B) (be_kv B) (be_lg B) (be_ledger_id B) rs db"
    and "db2 = fee_post_batch_applied (be_st B) (be_kv B) (be_lg B) (be_tr B) db1"
  shows "queue_ok db2 (q @ [snap B PlainBatch db2])"
proof (rule queue_ok_snoc [OF assms(1)])
  have d: "db2 = db\<lparr>fd_token_tracker := tr_apply_batch (be_tr B) (fd_token_tracker db) (st_headHash (be_st B) (tk_state db))
      (lg_uncommitted_root_hash (be_lg B) (fd_ledger db)) (lg_uncommitted_size (be_lg B) (fd_ledger db))\<rparr>"
    using assms(1) unfolding assms(3,4) apply_requests_no_fees [OF assms(2)] queue_ok_def
    by (simp add: fee_post_batch_applied_def Let_def)
  have m: "sn_mark B (snap B PlainBatch db2) = mark_of B (tk_state db) (fd_ledger db)"
    by (simp add: sn_mark_def snap_def d)
  show "unc (tk_cache db2) = unc (tk_cache db) @ []" by (simp add: d)
  show "layer B (last q) (snap B PlainBatch db2) []"
    using queue_ok_shows [OF assms(1)] queue_ok_mark [OF assms(1)]
    by (simp add: layer_def m shows_snapshot_def) (simp add: snap_def d)
  have "view (fd_token_tracker db) = (sn_mark B (hd q), map (sn_mark B) (tl q))"
    using assms(1) by (simp add: queue_ok_def)
  from T.apply_law [OF this]
  show "view (fd_token_tracker db2) = (sn_mark B (hd q), map (sn_mark B) (tl q) @ [sn_mark B (snap B PlainBatch db2)])"
    unfolding m mark_of_def by (simp add: d)
  show "com (tk_cache db2) = com (tk_cache db)" "cur (tk_cache db2) = Map.empty"
    "fees_in_current_batch (fd_fees_tracker db2) = 0"
    "st_headHash (be_st B) (tk_state db2) = st_headHash (be_st B) (sn_state (snap B PlainBatch db2))"
    "txns (fd_ledger db2) = txns (sn_ledger (snap B PlainBatch db2))"
    "prefix (txns (fd_ledger db)) (txns (sn_ledger (snap B PlainBatch db2)))"
    "\<And>r. known (tk_state db) r \<Longrightarrow> known (tk_state db2) r"
    using assms(1) by (simp_all add: d snap_def queue_ok_def)
qed


lemma apply_tokens_ok:
  fixes db :: "('s, 'c, 'l, 't) fees_db"
  assumes "queue_ok db q" "db1 = apply_token_txns B ts db" "db2 = token_batch_applied B db1"
  shows "queue_ok db2 (q @ [snap B TokenBatch db2])"
proof (rule queue_ok_snoc [OF assms(1)])
  let ?r = "RootBytes (st_headHash (be_st B) (tk_state db1))"
  have w: "com (tk_cache db1) = com (tk_cache db)" "unc (tk_cache db1) = unc (tk_cache db)"
    using K.writes_views [OF apply_token_frame(1) [of B db ts]] assms(2) by simp_all
  have d: "tk_state db2 = tk_state db1" "fd_ledger db2 = fd_ledger db1"
    "tk_cache db2 = kv_create_batch_from_current (be_kv B) (tk_cache db1) ?r"
    "fd_fees_tracker db2 = fd_fees_tracker db1"
    "fd_token_tracker db2 = tr_apply_batch (be_tr B) (fd_token_tracker db1) (st_headHash (be_st B) (tk_state db1))
      (lg_uncommitted_root_hash (be_lg B) (fd_ledger db1)) (lg_uncommitted_size (be_lg B) (fd_ledger db1))"
    by (simp_all add: assms(3) token_batch_applied_def token_post_batch_applied_def tracker_post_batch_applied_def
        utxo_post_batch_applied_def Let_def)
  show "unc (tk_cache db2) = unc (tk_cache db) @ [(?r, cur (tk_cache db1))]"
    "com (tk_cache db2) = com (tk_cache db)" "cur (tk_cache db2) = Map.empty"
    by (simp_all add: d(3) K.create w)
  have m: "sn_mark B (snap B TokenBatch db2) = mark_of B (tk_state db1) (fd_ledger db1)"
    by (simp add: sn_mark_def snap_def d)
  have "be_seen B (tk_cache db) = sn_seen (last q)"
    using queue_ok_shows [OF assms(1)] by (simp add: shows_snapshot_def)
  moreover have "cur (tk_cache db) = Map.empty" using assms(1) by (simp add: queue_ok_def)
  ultimately show "layer B (last q) (snap B TokenBatch db2) [(?r, cur (tk_cache db1))]"
    by (simp add: layer_def m) (simp add: snap_def mark_of_def seen_law visible_def d(3) K.create w)
  have "view (fd_token_tracker db1) = (sn_mark B (hd q), map (sn_mark B) (tl q))"
    using assms(1,2) by (simp add: queue_ok_def apply_token_frame)
  from T.apply_law [OF this]
  show "view (fd_token_tracker db2) = (sn_mark B (hd q), map (sn_mark B) (tl q) @ [sn_mark B (snap B TokenBatch db2)])"
    unfolding d(5) m mark_of_def .
  show "fees_in_current_batch (fd_fees_tracker db2) = 0"
    using assms(1,2) by (simp add: d queue_ok_def apply_token_frame)
  show "prefix (txns (fd_ledger db)) (txns (sn_ledger (snap B TokenBatch db2)))"
    using apply_token_prefix [of db] by (simp add: snap_def d assms(2))
  show "known (tk_state db) r \<Longrightarrow> known (tk_state db2) r" for r
    using apply_token_known [of db] by (simp add: d assms(2))
  show "st_headHash (be_st B) (tk_state db2) = st_headHash (be_st B) (sn_state (snap B TokenBatch db2))"
    "txns (fd_ledger db2) = txns (sn_ledger (snap B TokenBatch db2))"
    by (simp_all add: snap_def)
qed

lemma queue_ok_last:
  assumes "queue_ok db (q @ [s])" "q \<noteq> []"
  obtains us vs where "unc (tk_cache db) = us @ vs" "layered B (hd q) us (tl q)" "layer B (last q) s vs"
    "view (fd_token_tracker db) = (sn_mark B (hd q), map (sn_mark B) (tl q) @ [sn_mark B s])"
    "last (sn_mark B (hd q) # map (sn_mark B) (tl q)) = sn_mark B (last q)"
    "prefix (txns (sn_ledger (last q))) (txns (fd_ledger db))" "known (tk_state db) (fst (sn_mark B (last q)))"
    "mark_of B (tk_state db) (fd_ledger db) = sn_mark B s"
proof -
  obtain p ss where q: "q = p # ss" using assms(2) by (cases q) auto
  have "layered B p (unc (tk_cache db)) (ss @ [s])" using assms(1) by (simp add: queue_ok_def q)
  then obtain us vs where "unc (tk_cache db) = us @ vs" "layered B p us ss" "layer B (last (p # ss)) s vs"
    unfolding layered_snoc by blast
  moreover have "last q \<in> set q" using assms(2) by simp
  then have "prefix (txns (sn_ledger (last q))) (txns (fd_ledger db))" "known (tk_state db) (fst (sn_mark B (last q)))"
    using assms(1) by (auto simp: queue_ok_def sorted_wrt_append)
  moreover have "last (sn_mark B p # map (sn_mark B) ss) = sn_mark B (last q)"
    by (simp add: q last_map)
  moreover have "view (fd_token_tracker db) = (sn_mark B p, map (sn_mark B) ss @ [sn_mark B s])"
    using assms(1) by (simp add: queue_ok_def q)
  ultimately show thesis
    using that [of us vs] queue_ok_mark [OF assms(1)] by (simp add: q)
qed

text \<open>Going back to the snapshot before the newest one.\<close>

lemma queue_ok_reverted:
  assumes "queue_ok db (q @ [s])" "q \<noteq> []" "sn_kind s \<noteq> PlainBatch"
    and "sn_mark B s = (sr, xr, n)" "sn_mark B (last q) = (psr, pxr, pn)"
  obtains k c where "kv_reject_batch (be_kv B) (tk_cache db) = Inr (k, c)"
    "\<And>t'. view t' = (sn_mark B (hd q), map (sn_mark B) (tl q)) \<Longrightarrow>
       queue_ok (db\<lparr>tk_state := st_revertToHead (be_st B) (tk_state db) psr,
         fd_ledger := lg_discardTxns (be_lg B) (fd_ledger db) (n - pn), tk_cache := c, fd_token_tracker := t'\<rparr>) q"
proof -
  obtain us vs where ls: "unc (tk_cache db) = us @ vs" "layered B (hd q) us (tl q)" "layer B (last q) s vs"
    and pre: "prefix (txns (sn_ledger (last q))) (txns (fd_ledger db))" "known (tk_state db) (fst (sn_mark B (last q)))"
    and m: "mark_of B (tk_state db) (fd_ledger db) = sn_mark B s"
    using queue_ok_last [OF assms(1,2)] by blast
  have old: "sn_seen (hd q) = com (tk_cache db)" "cur (tk_cache db) = Map.empty" "fees_in_current_batch (fd_fees_tracker db) = 0"
    "\<forall>p\<in>set q. known (tk_state db) (fst (sn_mark B p))"
    "sorted_wrt (\<lambda>s t. prefix (txns (sn_ledger s)) (txns (sn_ledger t))) q"
    using assms(1,2) by (auto simp: queue_ok_def sorted_wrt_append hd_append)
  have last_now: "psr = st_headHash (be_st B) (sn_state (last q))" "pn = base + int (length (txns (sn_ledger (last q))))"
    "n = base + int (length (txns (fd_ledger db)))"
    using assms(4,5) m by (simp_all add: sn_mark_def mark_of_def L.size_law)
  obtain b where b: "unc (tk_cache db) = us @ [(RootBytes sr, b)]"
    using ls(1,3) assms(3,4) by (auto simp: layer_def)
  obtain k c where c: "kv_reject_batch (be_kv B) (tk_cache db) = Inr (k, c)" "com c = com (tk_cache db)" "unc c = us"
    "cur c = Map.empty"
    using K.reject [OF b old(2)] by blast
  obtain ys where ys: "txns (fd_ledger db) = txns (sn_ledger (last q)) @ ys" using pre(1) by (auto simp: prefix_def)
  have "n - pn = int (length ys)" using ys last_now(2,3) by simp
  then have l: "txns (lg_discardTxns (be_lg B) (fd_ledger db) (n - pn)) = txns (sn_ledger (last q))"
    using L.discard_law [OF ys] by simp
  have k: "known (tk_state db) psr" using pre(2) by (simp add: assms(5))
  show thesis
    using that [OF c(1)] assms(2) ls(2) c(2-4) old(1,3-5) l S.revert_head [OF k] S.known_revert [OF k] last_now(1)
    by (simp add: queue_ok_def)
qed

lemma queue_ok_tracker:
  assumes "queue_ok db (q @ [s])" "q \<noteq> []" "sn_mark B s = (sr, xr, n)" "sn_mark B (last q) = (psr, pxr, pn)"
  obtains t' where "tr_reject_batch (be_tr B) (fd_token_tracker db) = Inr ((psr, pxr, n - pn), t')"
    "view t' = (sn_mark B (hd q), map (sn_mark B) (tl q))"
    "st_headHash (be_st B) (tk_state db) = sr" "lg_uncommitted_root_hash (be_lg B) (fd_ledger db) = xr"
    "lg_uncommitted_size (be_lg B) (fd_ledger db) = n"
proof -
  have v: "view (fd_token_tracker db) = (sn_mark B (hd q), map (sn_mark B) (tl q) @ [sn_mark B s])"
      "last (sn_mark B (hd q) # map (sn_mark B) (tl q)) = sn_mark B (last q)"
    and m: "mark_of B (tk_state db) (fd_ledger db) = sn_mark B s"
    using queue_ok_last [OF assms(1,2)] by blast+
  show thesis
    using T.reject_law [OF v(1) [unfolded assms(3)] v(2) [unfolded assms(4)]] m assms(3) that
    by (auto simp: mark_of_def)
qed

lemma reject_ok:
  assumes "queue_ok db (q @ [s])" "q \<noteq> []"
  shows "\<exists>db1. reject_batch B (last q) s db = (Inr (), db1) \<and> queue_ok db1 q"
proof -
  obtain sr xr n psr pxr pn where ms: "sn_mark B s = (sr, xr, n)" "sn_mark B (last q) = (psr, pxr, pn)"
    by (metis prod_cases3)
  obtain t' where t': "tr_reject_batch (be_tr B) (fd_token_tracker db) = Inr ((psr, pxr, n - pn), t')"
      "view t' = (sn_mark B (hd q), map (sn_mark B) (tl q))"
    and now: "st_headHash (be_st B) (tk_state db) = sr" "lg_uncommitted_root_hash (be_lg B) (fd_ledger db) = xr"
    using queue_ok_tracker [OF assms ms] by blast
  obtain us vs where ls: "unc (tk_cache db) = us @ vs" "layered B (hd q) us (tl q)" "layer B (last q) s vs"
    and pre: "prefix (txns (sn_ledger (last q))) (txns (fd_ledger db))"
    using queue_ok_last [OF assms] by blast
  show ?thesis
  proof (cases "sn_kind s = PlainBatch")
    case False
    obtain k c where c: "kv_reject_batch (be_kv B) (tk_cache db) = Inr (k, c)"
      "queue_ok (db\<lparr>tk_state := st_revertToHead (be_st B) (tk_state db) psr,
         fd_ledger := lg_discardTxns (be_lg B) (fd_ledger db) (n - pn), tk_cache := c, fd_token_tracker := t'\<rparr>) q"
      by (rule queue_ok_reverted [OF assms False ms]) (rule that, assumption, simp add: t'(2))
    show ?thesis
    proof (cases "sn_kind s = TokenBatch")
      case True
      then show ?thesis
        using c t'(1) ms by (simp add: reject_batch_def token_batch_rejected_def token_post_batch_rejected_def
            utxo_post_batch_rejected_def tracker_post_batch_rejected_def Let_def)
    next
      case other: False
      with False have "sn_kind s = FeeBatch" by (cases "sn_kind s") simp_all
      then have "sr \<noteq> psr" "xr \<noteq> pxr" "n \<noteq> pn"
        using ls(3) ms by (simp_all add: layer_def apart_def)
      then have r: "reject_batch B (last q) s db = (Inr (), db\<lparr>fd_token_tracker := t',
          tk_state := st_revertToHead (be_st B) (tk_state db) psr,
          fd_ledger := lg_discardTxns (be_lg B) (fd_ledger db) (n - pn), tk_cache := c\<rparr>)" (is "_ = (_, ?db1)")
        using c(1) t'(1) now other by (simp add: reject_batch_def fee_post_batch_rejected_def Let_def)
      have "?db1 = db\<lparr>tk_state := st_revertToHead (be_st B) (tk_state db) psr,
          fd_ledger := lg_discardTxns (be_lg B) (fd_ledger db) (n - pn), tk_cache := c, fd_token_tracker := t'\<rparr>"
        by (cases db) simp
      with c(2) have "queue_ok ?db1 q" by (simp only:)
      with r show ?thesis by blast
    qed
  next
    case True
    then have eq: "vs = []" "sr = psr" "xr = pxr" "n = pn" using ls(3) ms by (auto simp: layer_def)
    have old: "sn_seen (hd q) = com (tk_cache db)" "cur (tk_cache db) = Map.empty" "fees_in_current_batch (fd_fees_tracker db) = 0"
      "\<forall>p\<in>set q. known (tk_state db) (fst (sn_mark B p))"
      "sorted_wrt (\<lambda>s t. prefix (txns (sn_ledger s)) (txns (sn_ledger t))) q"
      "txns (fd_ledger db) = txns (sn_ledger s)"
      using assms by (auto simp: queue_ok_def sorted_wrt_append hd_append)
    have "sn_mark B s = sn_mark B (last q)" using ms eq by simp
    then have "txns (sn_ledger (last q)) = txns (fd_ledger db)"
      using pre old(6) by (auto simp: sn_mark_def mark_of_def L.size_law prefix_def)
    moreover have "reject_batch B (last q) s db = (Inr (), db\<lparr>fd_token_tracker := t'\<rparr>)"
      using eq True by (simp add: reject_batch_def fee_post_batch_rejected_def t'(1) Let_def)
    moreover have "st_headHash (be_st B) (tk_state db) = st_headHash (be_st B) (sn_state (last q))"
      using now(1) eq(2) ms(2) by (simp add: sn_mark_def mark_of_def)
    ultimately show ?thesis
      using assms(2) ls(1,2) t'(2) old(1-5) eq(1) by (simp add: queue_ok_def)
  qed
qed

lemma commit_domain_ok:
  fixes db :: "('s, 'c, 'l, 't) fees_db"
  assumes "queue_ok db (p # s # q)" "sn_kind s \<noteq> TokenBatch" "sn_kind s = FeeBatch \<longleftrightarrow> with_fees (fd_fees_tracker db) ts \<noteq> []"
    and "fee_commit_batch (be_b58decode B) (be_serialize_root B) (be_kv B) (be_tr B) (be_base_commit B) batch ts db = (Inr ts', db1)"
  shows "queue_ok db1 (s # q)"
proof -
  obtain sr xr n psr pxr pn where ms: "sn_mark B s = (sr, xr, n)" "sn_mark B p = (psr, pxr, pn)"
    by (metis prod_cases3)
  then have "view (fd_token_tracker db) = ((psr, pxr, pn), (sr, xr, n) # map (sn_mark B) q)"
    using assms(1) by (simp add: queue_ok_def)
  then obtain t where t: "tr_commit_batch (be_tr B) (fd_token_tracker db) = Inr ((sr, xr, n - pn), t)"
    "view t = (sn_mark B s, map (sn_mark B) q)"
    using T.commit_law ms(1) by metis
  show ?thesis
  proof (cases "sn_kind s = FeeBatch")
    case True
    then obtain b bs where b: "unc (tk_cache db) = (RootBytes sr, b) # bs" "sn_seen s = sn_seen p ++ b" "layered B s bs q"
      using True assms(1) ms(1) by (auto simp: queue_ok_def split: list.splits)
    have w: "with_fees (fd_fees_tracker db) ts \<noteq> []" using True assms(3) by simp
    let ?fake = "token_fake_three_pc_batch (be_serialize_root B) batch sr xr (length (with_fees (fd_fees_tracker db) ts))"
    obtain fts l st' where bc: "be_base_commit B (fd_ledger db) (tk_state db) ?fake = Inr (fts, l, st')"
      using assms(4) t(1) w
      by (cases "be_base_commit B (fd_ledger db) (tk_state db) ?fake")
        (auto simp: fee_commit_batch_def with_fees_def Let_def)
    obtain c where c: "kv_commit_batch (be_kv B) (tk_cache db) = Inr c" "com c = com (tk_cache db) ++ b" "unc c = bs"
      "cur c = cur (tk_cache db)"
      using K.commit [OF b(1)] by blast
    then have "commit_to_utxo_cache (be_b58decode B) (be_kv B) (RootBytes sr) (tk_cache db) = Inr c"
      using K.first [OF b(1)] by (simp add: commit_to_utxo_cache_def)
    then have "db1 = db\<lparr>fd_token_tracker := t, fd_ledger := l, tk_state := st', tk_cache := c,
        fd_fees_tracker := (fd_fees_tracker db)\<lparr>fees_in_current_batch := 0\<rparr>\<rparr>"
      using assms(4) fee_commit_unfold [where base_commit = "be_base_commit B", OF t(1) w bc]
      by (cases "attach_fees (with_fees (fd_fees_tracker db) ts) fts ts") (simp_all add: Let_def)
    then show ?thesis
      using assms(1) b c(2-4) t(2) commit_law [OF bc] by (auto simp: queue_ok_def)
  next
    case False
    then have plain: "sn_kind s = PlainBatch" using assms(2) by (cases "sn_kind s") simp_all
    have "db1 = db\<lparr>fd_token_tracker := t\<rparr>"
      using False assms(3,4) t(1) by (simp add: fee_commit_batch_def with_fees_def Let_def)
    then show ?thesis
      using assms(1) plain t(2) by (auto simp: queue_ok_def)
  qed
qed

lemma commit_tokens_ok:
  fixes db :: "('s, 'c, 'l, 't) fees_db"
  assumes "queue_ok db (p # s # q)" "sn_kind s = TokenBatch" "token_batch_committed B batch db = (Inr (), db1)"
  shows "queue_ok db1 (s # q)"
proof -
  obtain sr xr n psr pxr pn where ms: "sn_mark B s = (sr, xr, n)" "sn_mark B p = (psr, pxr, pn)"
    by (metis prod_cases3)
  then have "view (fd_token_tracker db) = ((psr, pxr, pn), (sr, xr, n) # map (sn_mark B) q)"
    using assms(1) by (simp add: queue_ok_def)
  then obtain t where t: "tr_commit_batch (be_tr B) (fd_token_tracker db) = Inr ((sr, xr, n - pn), t)"
    "view t = (sn_mark B s, map (sn_mark B) q)"
    using T.commit_law ms(1) by metis
  obtain b bs where b: "unc (tk_cache db) = (RootBytes sr, b) # bs" "sn_seen s = sn_seen p ++ b" "layered B s bs q"
    using assms(1,2) ms(1) by (auto simp: queue_ok_def split: list.splits)
  obtain fts l st' where bc: "be_base_commit B (fd_ledger db) (tk_state db) batch = Inr (fts, l, st')"
    using assms(3) by (cases "be_base_commit B (fd_ledger db) (tk_state db) batch") (auto simp: token_batch_committed_def)
  obtain c where c: "kv_commit_batch (be_kv B) (tk_cache db) = Inr c" "com c = com (tk_cache db) ++ b" "unc c = bs"
    "cur c = cur (tk_cache db)"
    using K.commit [OF b(1)] by blast
  obtain c' where c': "utxo_commit_batch (be_b58decode B) (be_kv B) (three_pc_batch.truncate batch) (tk_cache db) = Inr c'"
    using assms(3) bc by (auto simp: token_batch_committed_def Let_def split: sum.splits)
  then have "kv_commit_batch (be_kv B) (tk_cache db) = Inr c'"
    by (auto simp: utxo_commit_batch_def commit_to_utxo_cache_def ebind_Inr_iff split: if_splits)
  then have "c' = c" using c(1) by simp
  then have "db1 = db\<lparr>fd_ledger := l, tk_state := st', tk_cache := c, fd_token_tracker := t\<rparr>"
    using assms(3) bc c' t(1) by (simp add: token_batch_committed_def tracker_commit_batch_def Let_def)
  then show ?thesis
    using assms(1) b c(2-4) t(2) commit_law [OF bc] by (auto simp: queue_ok_def)
qed

lemma applied_ok:
  assumes "queue_ok db q" "batch_applied B db kind db1 db2"
  shows "queue_ok db2 (q @ [snap B kind db2])"
  using assms(2)
proof cases
  case (fees_applied rs)
  then show ?thesis using apply_fees_ok [OF assms(1)] by simp
next
  case (plain_applied rs)
  then show ?thesis using apply_plain_ok [OF assms(1)] by simp
next
  case (tokens_applied ts)
  then show ?thesis using apply_tokens_ok [OF assms(1)] by simp
qed

lemma committed_ok:
  assumes "queue_ok db (p # s # q)" "batch_committed B s db db1"
  shows "queue_ok db1 (s # q)"
  using assms(2)
proof cases
  case (domain_committed txns batch ts)
  then show ?thesis using commit_domain_ok [OF assms(1)] by simp
next
  case (tokens_committed batch)
  then show ?thesis using commit_tokens_ok [OF assms(1)] by simp
qed

lemma run_ok:
  assumes "batch_run B db0 db q" "queue_ok db0 [snap B PlainBatch db0]"
  shows "queue_ok db q"
  using assms(1)
proof induction
  case (apply_batch db q kind db1 db2)
  then show ?case by (simp add: applied_ok)
next
  case (reject_last db q p s db1)
  then show ?case using reject_ok [of db "q @ [p]" s] by auto
next
  case (commit_first db p s q db1)
  then show ?case by (metis committed_ok)
qed (fact assms(2))

lemma run_from_start:
  assumes "batch_run B db0 db q" "in_step (be_st B) (be_lg B) view cur db0"
    and "snd (view (fd_token_tracker db0)) = []" "unc (tk_cache db0) = []"
  shows "queue_ok db q"
  using run_ok [OF assms(1)] queue_ok_start [OF assms(2-4)] by blast

lemma run_shows:
  assumes "batch_run B db0 db q" "in_step (be_st B) (be_lg B) view cur db0"
    and "snd (view (fd_token_tracker db0)) = []" "unc (tk_cache db0) = []"
  shows "shows_snapshot B (last q) db"
    and "q = ps @ [p, s] \<Longrightarrow> \<exists>db1. reject_batch B p s db = (Inr (), db1) \<and> shows_snapshot B p db1"
proof -
  have ok: "queue_ok db q" by (rule run_from_start [OF assms])
  then show "shows_snapshot B (last q) db" by (rule queue_ok_shows)
  assume "q = ps @ [p, s]"
  then show "\<exists>db1. reject_batch B p s db = (Inr (), db1) \<and> shows_snapshot B p db1"
    using reject_ok [of db "ps @ [p]" s] ok queue_ok_shows [of _ "ps @ [p]"] by auto
qed

end

section \<open>Runs from a node between batches\<close>

text \<open>The reference stores as one environment.\<close>

definition ref_append :: "fee_txn list \<Rightarrow> txn \<Rightarrow> fee_txn list" where
  "ref_append l t = l @ [ex_fee_txn\<lparr>fx_txn := t\<rparr>]"

definition ref_env :: "(ms, okv, fee_txn list, mark \<times> mark list) batch_env" where
  "ref_env = \<lparr>be_st = ms_store, be_kv = okv_store, be_lg = ref_ledger, be_tr = ref_tracker,
     be_b58decode = Some, be_serialize_root = (\<lambda>r. r), be_base_commit = ex_base_commit, be_append = ref_append, be_ledger_id = 1,
     be_seen = (\<lambda>c. visible (okv_com c) (okv_unc c) (okv_cur c))\<rparr>"

lemma ref_env_sel [simp]:
  "be_st ref_env = ms_store" "be_kv ref_env = okv_store" "be_lg ref_env = ref_ledger" "be_tr ref_env = ref_tracker"
  "be_b58decode ref_env = Some" "be_serialize_root ref_env = (\<lambda>r. r)" "be_base_commit ref_env = ex_base_commit"
  "be_append ref_env = ref_append" "be_ledger_id ref_env = 1" "be_seen ref_env = (\<lambda>c. visible (okv_com c) (okv_unc c) (okv_cur c))"
  by (simp_all add: ref_env_def)

interpretation ref_ledger: fee_ledger ref_ledger ref_append "\<lambda>l. l" 1
  by unfold_locales (auto simp: ref_ledger_def ref_append_def)

interpretation ref_runs: batch_machine ref_env ms_known okv_com okv_unc okv_cur SBytes SStr "\<lambda>t. t" "\<lambda>l. l" 1
  unfolding batch_machine_def batch_machine_axioms_def ref_env_sel
  by (simp add: ms.state_head_store_axioms okv.kv_batch_store_axioms ref_tracker.batch_tracker_axioms
      ref_ledger.fee_ledger_axioms ex_base_commit_def)

text \<open>C15: Whatever sequence of batches of the domain and the token ledger a node applies, rejects from the
  back and commits from the front, its token state, token ledger and UTXO cache show what they
  showed after the newest batch that is still there, and rejecting that batch succeeds and
  brings back what they showed before it.\<close>

theorem batches_show_newest:
  fixes db0 :: "('s, 'c, 'l, 't) fees_db"
  assumes "batch_machine B known com unc cur rd rd_new view txns base"
    and "in_step (be_st B) (be_lg B) view cur db0" "snd (view (fd_token_tracker db0)) = []" "unc (tk_cache db0) = []"
    and "batch_run B db0 db (q @ [p, s])"
  shows "shows_snapshot B s db \<and> (\<exists>db1. reject_batch B p s db = (Inr (), db1) \<and> shows_snapshot B p db1)"
  using batch_machine.run_shows [OF assms(1,5,2-4)] by simp

text \<open>A run: a domain batch with fees is applied, then a token batch that spends the change; the first
  is committed.\<close>

definition ex_rdb :: "(ms, okv, fee_txn list, mark \<times> mark list) fees_db" where
  "ex_rdb = ex_bdb\<lparr>tk_cache := okv_empty\<lparr>okv_com := okv_cur (tk_cache ex_db)\<rparr>\<rparr>"

definition ex_rdb1 :: "(ms, okv, fee_txn list, mark \<times> mark list) fees_db" where
  "ex_rdb1 = apply_requests ms_store okv_store ref_ledger 1 [(ex_nym, ex_domain_txn)] ex_rdb"

definition ex_rdb2 :: "(ms, okv, fee_txn list, mark \<times> mark list) fees_db" where
  "ex_rdb2 = fee_post_batch_applied ms_store okv_store ref_ledger ref_tracker ex_rdb1"

definition ex_spend :: txn where
  "ex_spend = \<lparr>tx_type = XFER_PUBLIC, tx_inputs = Some [\<lparr>inp_address = pay_address ex_change, inp_seqNo = 2\<rparr>],
     tx_outputs = Some [\<lparr>pay_address = ''C'', pay_amount = 6\<rparr>], tx_seqNo = 3, tx_sig_type = None, tx_sig_values = None\<rparr>"

definition ex_rdb3 :: "(ms, okv, fee_txn list, mark \<times> mark list) fees_db" where
  "ex_rdb3 = token_batch_applied ref_env (apply_token_txns ref_env [ex_spend] ex_rdb2)"

definition ex_rdb4 :: "(exn + domain_txn list) \<times> (ms, okv, fee_txn list, mark \<times> mark list) fees_db" where
  "ex_rdb4 = fee_commit_batch Some (\<lambda>r. r) okv_store ref_tracker ex_base_commit ex_batch [ex_domain_txn] ex_rdb3"

lemma ex_rdb_facts:
  "fees_in_current_batch (fd_fees_tracker ex_rdb1) > 0"
  "apart (mark_of ref_env (tk_state ex_rdb1) (fd_ledger ex_rdb1)) (mark_of ref_env (tk_state ex_rdb) (fd_ledger ex_rdb))"
  by code_simp+

lemma ex_rdb3_paid: "with_fees (fd_fees_tracker ex_rdb3) [ex_domain_txn] \<noteq> []"
  by code_simp

lemma ex_rdb4_commits: "\<not> isl (fst ex_rdb4)"
  by code_simp

lemma ex_rdb3_spends: "cache_utxos okv_store False (tk_cache ex_rdb3) ''C'' = [(3, 6)]"
  by code_simp

lemma ex_rdb_in_step: "in_step ms_store ref_ledger (\<lambda>t. t) okv_cur ex_rdb"
  using ex_bdb_in_step by (simp add: in_step_def ex_rdb_def okv_empty_def)

lemma ex_steps:
  "batch_applied ref_env ex_rdb FeeBatch ex_rdb1 ex_rdb2"
  "batch_applied ref_env ex_rdb2 TokenBatch (apply_token_txns ref_env [ex_spend] ex_rdb2) ex_rdb3"
  "batch_committed ref_env (snap ref_env FeeBatch ex_rdb2) ex_rdb3 (snd ex_rdb4)"
proof -
  show "batch_applied ref_env ex_rdb FeeBatch ex_rdb1 ex_rdb2"
    by (rule batch_applied.fees_applied [where rs = "[(ex_nym, ex_domain_txn)]"])
      (use ex_rdb_facts in \<open>simp_all only: ref_env_sel ex_rdb1_def ex_rdb2_def\<close>)
  show "batch_applied ref_env ex_rdb2 TokenBatch (apply_token_txns ref_env [ex_spend] ex_rdb2) ex_rdb3"
    by (rule batch_applied.tokens_applied [OF refl ex_rdb3_def])
  show "batch_committed ref_env (snap ref_env FeeBatch ex_rdb2) ex_rdb3 (snd ex_rdb4)"
    by (rule batch_committed.domain_committed [where txns = "[ex_domain_txn]" and ts = "projr (fst ex_rdb4)" and batch = ex_batch])
      (use ex_rdb3_paid ex_rdb4_commits in \<open>simp_all add: ex_rdb4_def [symmetric] prod_eq_iff snap_def\<close>)
qed

lemma ex_batch_run: "batch_run ref_env ex_rdb (snd ex_rdb4) [snap ref_env FeeBatch ex_rdb2, snap ref_env TokenBatch ex_rdb3]"
  using batch_run.commit_first [OF _ ex_steps(3), where p = "snap ref_env PlainBatch ex_rdb" and q = "[snap ref_env TokenBatch ex_rdb3]"]
    batch_run.apply_batch [OF batch_run.apply_batch [OF batch_run.at_start ex_steps(1)] ex_steps(2)]
  by simp

lemma ex_rdb_clean: "snd (fd_token_tracker ex_rdb) = []" "okv_unc (tk_cache ex_rdb) = []"
  by (simp_all add: ex_rdb_def ex_bdb_def okv_empty_def)

theorem batches_show_newest_witness:
  "\<exists>db1. reject_batch ref_env (snap ref_env FeeBatch ex_rdb2) (snap ref_env TokenBatch ex_rdb3) (snd ex_rdb4) = (Inr (), db1) \<and>
    shows_snapshot ref_env (snap ref_env FeeBatch ex_rdb2) db1"
  using batches_show_newest [OF ref_runs.batch_machine_axioms, where ?db0.0 = ex_rdb and q = "[]"
      and p = "snap ref_env FeeBatch ex_rdb2" and s = "snap ref_env TokenBatch ex_rdb3" and db = "snd ex_rdb4"]
    ex_rdb_in_step ex_batch_run ex_rdb_clean by simp

end
