(* ===== verification/Node_History.thy ===== *)
theory Node_History
  imports Token_History Batch_Runs
begin

text \<open>
  The accepted operations of \<open>Token_History\<close> in the batches of \<open>Batch_Runs\<close>: \<open>node_run\<close> is the relation
  of the states a node reaches when every batch it applies is a history of accepted operations,
  and batches are rejected from the back and committed from the front. Beside the queue of
  snapshots it keeps the account of each: last sequence number, tokens minted and tokens burned.

  What the account says of a snapshot depends only on what the stores show, so that it is true of
  every later state that shows the snapshot again, whatever was rejected in between.
\<close>

section \<open>What the stores show\<close>

context kv_batch_store
begin

lemma get_by_seen:
  "(case kv_get kv c a False of None \<Rightarrow> P | Some v \<Rightarrow> Q (text_of v)) =
   (case seen c a of None \<Rightarrow> P | Some s \<Rightarrow> Q (Some s))"
proof (cases "kv_get kv c a False")
  case None
  then show ?thesis using get_text(2) [of c a] by simp
next
  case (Some v)
  then have "text_of v = seen c a" "seen c a \<noteq> None" using get_text [of c a] by auto
  then show ?thesis using Some by auto
qed

lemma holds_by_seen: "holds_pairs kv False c a ps \<longleftrightarrow>
    (case seen c a of None \<Rightarrow> ps = [] | Some s \<Rightarrow> s = encode_str ps)"
  using get_by_seen [where c = c and a = a and P = "ps = []" and Q = "\<lambda>t. t = Some (encode_str ps)"] by (simp add: holds_pairs_def split: option.splits)

lemma amounts_by_seen: "get_amounts kv a c True False =
    (case seen c a of None \<Rightarrow> UTXOAmounts_init a SNone | Some s \<Rightarrow> parse_text a s)"
proof (cases "kv_get kv c a False")
  case None
  then show ?thesis using get_text(2) [of c a] by (simp add: get_amounts_def)
next
  case (Some v)
  then have "text_of v = seen c a" "seen c a \<noteq> None" using get_text [of c a] by auto
  then show ?thesis using Some by (auto simp: get_amounts_def UTXOAmounts_init_text simp del: parse_text.simps)
qed

lemma same_seen:
  assumes "seen c = seen d"
  shows "cache_wf kv False c \<longleftrightarrow> cache_wf kv False d" "cache_utxos kv False c = cache_utxos kv False d"
  by (simp_all add: cache_wf_def holds_by_seen assms cache_utxos_def get_unspent_outputs_def amounts_by_seen fun_eq_iff)

end

section \<open>Nodes\<close>

text \<open>The node of the history and the node of the batches have the same stores.\<close>

definition same_node :: "('s, 'c, 'l) node_env \<Rightarrow> ('s, 'c, 'l, 't) batch_env \<Rightarrow> bool" where
  "same_node N B \<longleftrightarrow> ne_st N = be_st B \<and> ne_kv N = be_kv B \<and> ne_lg N = be_lg B \<and> ne_ledger_id N = be_ledger_id B"

text \<open>An account: the last sequence number, the tokens minted and the tokens burned since the start.\<close>

type_synonym account = "int \<times> int \<times> int"

inductive node_run :: "('s, 'c, 'l) node_env \<Rightarrow> ('s, 'c, 'l, 't) batch_env \<Rightarrow> ('s, 'c, 'l, 't) fees_db \<Rightarrow> int
    \<Rightarrow> ('s, 'c, 'l, 't) fees_db \<Rightarrow> ('s, 'l) snapshot list \<Rightarrow> account list \<Rightarrow> bool" for N B db0 n0 where
  node_start: "node_run N B db0 n0 db0 [snap B PlainBatch db0] [(n0, 0, 0)]"
| node_apply: "node_run N B db0 n0 db q (as @ [(n, m, b)]) \<Longrightarrow> batch_applied B db kind db1 db2 \<Longrightarrow>
    token_run N db n ts minted burned db1 n' \<Longrightarrow>
    node_run N B db0 n0 db2 (q @ [snap B kind db2]) (as @ [(n, m, b), (n', m + minted, b + burned)])"
| node_reject: "node_run N B db0 n0 db (q @ [p, s]) (as @ [a, a']) \<Longrightarrow> reject_batch B p s db = (Inr (), db1) \<Longrightarrow>
    node_run N B db0 n0 db1 (q @ [p]) (as @ [a])"
| node_commit: "node_run N B db0 n0 db (p # s # q) (a # as) \<Longrightarrow> batch_committed B s db db1 \<Longrightarrow>
    node_run N B db0 n0 db1 (s # q) as"

lemma node_batch_run: "node_run N B db0 n0 db q as \<Longrightarrow> batch_run B db0 db q"
  by (induction rule: node_run.induct) (auto intro: batch_run.intros)

text \<open>The account \<open>a\<close> is true of the snapshot \<open>p\<close>: it holds for every state that shows \<open>p\<close>. \<open>s0\<close> is the
  supply at the start.\<close>

definition account_true :: "('s, 'c, 'l) node_env \<Rightarrow> ('s, 'c, 'l, 't) batch_env \<Rightarrow> ('s, 'c, 'l, 't) fees_db \<Rightarrow> int \<Rightarrow> int
    \<Rightarrow> ('s, 'l) snapshot \<Rightarrow> account \<Rightarrow> bool" where
  "account_true N B db0 n0 s0 p a \<longleftrightarrow> (case a of (n, m, b) \<Rightarrow>
     \<forall>db. shows_snapshot B p db \<longrightarrow> run_ok N db0 n0 (s0 + m - b) db n)"

lemma run_ok_trans:
  assumes "run_ok N db0 n0 s db n" "run_ok N db n s' db' n'"
  shows "run_ok N db0 n0 s' db' n'"
  using assms unfolding run_ok_def by (meson order_trans)

context batch_machine
begin

lemma shown_run_ok:
  fixes db db' :: "('s, 'c, 'l, 't) fees_db"
  assumes "same_node N B" "shows_snapshot B p db" "shows_snapshot B p db'"
  shows "run_ok N db0 n0 s db n \<longleftrightarrow> run_ok N db0 n0 s db' n"
proof -
  have "K.seen (tk_cache db) = K.seen (tk_cache db')"
    using assms(2,3) by (simp add: shows_snapshot_def seen_law)
  note c = K.same_seen [OF this]
  have "\<forall>k. st_get (be_st B) (tk_state db) k False = st_get (be_st B) (tk_state db') k False"
    using assms(2,3) by (simp add: shows_snapshot_def)
  then have "state_agrees (be_st B) (tk_state db) U = state_agrees (be_st B) (tk_state db') U" for U
    by (simp add: state_agrees_def)
  then show ?thesis
    using assms(1) c by (simp add: run_ok_def holds_supply_def token_wf_def token_utxos_def same_node_def)
qed

lemma snap_shows:
  fixes db :: "('s, 'c, 'l, 't) fees_db"
  shows "shows_snapshot B (snap B kind db) db"
  by (simp add: shows_snapshot_def snap_def sn_mark_def)

text \<open>The handlers of a batch that was applied change nothing that is shown.\<close>

lemma applied_shown:
  fixes db :: "('s, 'c, 'l, 't) fees_db"
  assumes "queue_ok db q" "batch_applied B db kind db1 db2"
  shows "shows_snapshot B (snap B kind db2) db1"
  using assms(2)
proof cases
  case (fees_applied rs)
  then show ?thesis
    by (simp add: shows_snapshot_def snap_def sn_mark_def fee_post_batch_applied_def Let_def seen_law K.create)
next
  case (plain_applied rs)
  then have "fees_in_current_batch (fd_fees_tracker db1) = 0"
    using assms(1) by (simp add: apply_requests_no_fees queue_ok_def)
  with plain_applied show ?thesis
    by (simp add: shows_snapshot_def snap_def sn_mark_def fee_post_batch_applied_def Let_def)
next
  case (tokens_applied ts)
  then show ?thesis
    by (simp add: shows_snapshot_def snap_def sn_mark_def token_batch_applied_def token_post_batch_applied_def
        tracker_post_batch_applied_def utxo_post_batch_applied_def Let_def seen_law K.create)
qed

end


context batch_machine
begin

lemma account_shown:
  fixes db :: "('s, 'c, 'l, 't) fees_db"
  assumes "same_node N B" "shows_snapshot B p db" "run_ok N db0 n0 (s0 + m - b) db n"
  shows "account_true N B db0 n0 s0 p (n, m, b)"
  using shown_run_ok [OF assms(1,2)] assms(3) by (auto simp: account_true_def)

lemma accounts_true:
  fixes db0 :: "('s, 'c, 'l, 't) fees_db"
  assumes "node_run N B db0 n0 db q as" "same_node N B" "finite (ne_addresses N)" "holds_supply N db0 n0 s0"
    and "queue_ok db0 [snap B PlainBatch db0]"
  shows "list_all2 (account_true N B db0 n0 s0) q as"
  using assms(1)
proof induction
  case node_start
  have "run_ok N db0 n0 (s0 + 0 - 0) db0 n0" using assms(4) by (simp add: run_ok_def)
  from account_shown [OF assms(2) snap_shows this] show ?case by simp
next
  case (node_apply db q as n m b kind db1 db2 ts minted burned n')
  have ok: "queue_ok db q" by (rule run_ok [OF node_batch_run [OF node_apply(1)] assms(5)])
  obtain r p where q: "q = r @ [p]" "list_all2 (account_true N B db0 n0 s0) r as" "account_true N B db0 n0 s0 p (n, m, b)"
    using node_apply(4) by (auto simp: list_all2_append2 list_all2_Cons2)
  have r: "run_ok N db0 n0 (s0 + m - b) db n"
    using q queue_ok_shows [OF ok] by (simp add: account_true_def)
  have h: "holds_supply N db n (s0 + m - b)" using r by (simp add: run_ok_def)
  have "token_stores (ne_st N) (ne_kv N) False"
    using assms(2) token_storesI [OF S.state_map_store_axioms K.uncommitted.kv_text_store_axioms]
    by (simp add: same_node_def)
  from run_ok_trans [OF r run_supply [OF node_apply(3) this assms(3) h]]
  have "run_ok N db0 n0 (s0 + (m + minted) - (b + burned)) db1 n'" by (simp add: algebra_simps)
  from account_shown [OF assms(2) applied_shown [OF ok node_apply(2)] this]
  show ?case using q by (simp add: list_all2_appendI)
next
  case (node_reject db q p s as a a' db1)
  have "length q = length as" using list_all2_lengthD [OF node_reject(3)] by simp
  then show ?case using node_reject(3) by (simp add: list_all2_append)
qed simp

lemma node_run_ok:
  fixes db0 :: "('s, 'c, 'l, 't) fees_db"
  assumes "node_run N B db0 n0 db q (as @ [(n, m, b)])" "same_node N B" "finite (ne_addresses N)" "holds_supply N db0 n0 s0"
    and "in_step (be_st B) (be_lg B) view cur db0" "snd (view (fd_token_tracker db0)) = []" "unc (tk_cache db0) = []"
  shows "run_ok N db0 n0 (s0 + m - b) db n"
proof -
  have ok: "queue_ok db q" by (rule run_from_start [OF node_batch_run [OF assms(1)] assms(5-7)])
  obtain r p where q: "q = r @ [p]" "account_true N B db0 n0 s0 p (n, m, b)"
    using accounts_true [OF assms(1-4) queue_ok_start [OF assms(5-7)]] by (auto simp: list_all2_append2 list_all2_Cons2)
  then show ?thesis using queue_ok_shows [OF ok] by (simp add: account_true_def)
qed

end

section \<open>Properties\<close>

text \<open>C1: Tokens are accounted for whatever a node does with its batches: it applies batches of the domain
  and the token ledger whose requests are accepted mints, transfers and fees, rejects the newest
  and commits the oldest in any order; at every moment state and cache agree, no output is
  numbered above the last transaction, the addresses hold what they held at the start plus what
  was minted minus the fees in the batches that are still there, and no output that was spent
  before the start is unspent again.\<close>

theorem node_accounts:
  fixes db0 :: "('s, 'c, 'l, 't) fees_db"
  assumes "batch_machine B known com unc cur rd rd_new view txns base"
    and "same_node N B" "finite (ne_addresses N)"
    and "in_step (be_st B) (be_lg B) view cur db0" "snd (view (fd_token_tracker db0)) = []" "unc (tk_cache db0) = []"
    and "token_wf (be_st B) (be_kv B) False db0" "below n0 (token_utxos (be_kv B) False db0)"
    and "node_run N B db0 n0 db q (as @ [(n, minted, burned)])"
  shows "token_wf (be_st B) (be_kv B) False db \<and> below n (token_utxos (be_kv B) False db) \<and>
    token_supply (ne_addresses N) (token_utxos (be_kv B) False db) =
      token_supply (ne_addresses N) (token_utxos (be_kv B) False db0) + minted - burned \<and>
    (\<forall>i. inp_seqNo i \<le> n0 \<longrightarrow> \<not> unspent (token_utxos (be_kv B) False db0) i \<longrightarrow>
      \<not> unspent (token_utxos (be_kv B) False db) i)"
  using batch_machine.node_run_ok [OF assms(1,9,2,3) _ assms(4-6), of
      "token_supply (ne_addresses N) (token_utxos (be_kv B) False db0)"] assms(2,7,8)
  by (simp add: run_ok_def holds_supply_def same_node_def)


section \<open>A run\<close>

text \<open>A token request changes the ledger first, then state and cache; the two commute.\<close>

definition ledger_free :: "(('s, 'c, 'l, 't) fees_db, 'a) proc \<Rightarrow> bool" where
  "ledger_free m \<longleftrightarrow> (\<forall>l d. m (d\<lparr>fd_ledger := l\<rparr>) = apsnd (fd_ledger_update (\<lambda>_. l)) (m d))"

lemma ledger_free_on_cache: "ledger_free (\<lambda>d :: ('s, 'c, 'l, 't) fees_db. on_cache f (d\<lparr>tk_state := s d\<rparr>))"
  if "\<And>l d. s (d\<lparr>fd_ledger := l\<rparr>) = s d"
  unfolding ledger_free_def
proof (intro allI)
  fix l and d :: "('s, 'c, 'l, 't) fees_db"
  show "on_cache f (d\<lparr>fd_ledger := l, tk_state := s (d\<lparr>fd_ledger := l\<rparr>)\<rparr>) =
      apsnd (fd_ledger_update (\<lambda>_. l)) (on_cache f (d\<lparr>tk_state := s d\<rparr>))"
    unfolding that by (cases d; cases "f (tk_cache d)") (simp_all add: on_cache_def)
qed

lemma ledger_free_spend: "ledger_free (spend_input st kv a n ic rs)"
  unfolding spend_input_def Let_def by (rule ledger_free_on_cache) simp

lemma ledger_free_add: "ledger_free (add_new_output st kv out ic)"
  unfolding add_new_output_def Let_def by (rule ledger_free_on_cache) simp

lemma ledger_free_pseq: "ledger_free m \<Longrightarrow> ledger_free k \<Longrightarrow> ledger_free (pseq m k)"
  by (auto simp: ledger_free_def pseq_def pbind_def apsnd_def split: prod.splits sum.splits)

lemma ledger_free_for_each: "(\<And>x. ledger_free (f x)) \<Longrightarrow> ledger_free (for_each f xs)"
  by (induction xs) (simp_all add: ledger_free_pseq, simp add: ledger_free_def)

lemma ledger_free_raise: "ledger_free (praise e)"
  by (simp add: ledger_free_def)

lemma ledger_free_inputs: "ledger_free (spend_inputs st kv rs t ic)"
  by (cases "tx_inputs t")
    (simp_all add: spend_inputs_def dict_get_def pbind_def plift_def ledger_free_raise ledger_free_for_each ledger_free_spend)

lemma ledger_free_outputs: "ledger_free (add_outputs st kv t ic)"
  by (cases "tx_outputs t")
    (simp_all add: add_outputs_def dict_get_def pbind_def plift_def ledger_free_raise ledger_free_for_each ledger_free_add)

lemma ledger_free_snd: "ledger_free m \<Longrightarrow> snd (m (d\<lparr>fd_ledger := l\<rparr>)) = (snd (m d))\<lparr>fd_ledger := l\<rparr>"
  by (simp add: ledger_free_def)

lemma token_txn_ledger:
  "apply_token_txn B t db =
    (if tx_type t = MINT_PUBLIC then snd (mint_update_state (be_st B) (be_kv B) t False db)
     else snd (xfer_update_state (be_st B) (be_kv B) t False db))\<lparr>fd_ledger := be_append B (fd_ledger db) t\<rparr>"
  by (simp add: apply_token_txn_def Let_def mint_update_state_snd xfer_update_state_snd update_token_state_def
      ledger_free_snd [OF ledger_free_outputs] ledger_free_snd [OF ledger_free_pseq [OF ledger_free_inputs ledger_free_outputs]])

text \<open>The run of \<open>Batch_Runs\<close> as one of accepted operations.\<close>

definition ex_batch_node :: "(ms, okv, fee_txn list) node_env" where
  "ex_batch_node = ex_node\<lparr>ne_addresses := {''A'', ''B'', ''C''}\<rparr>"

definition ex_spend_request :: request where
  "ex_spend_request = ex_request\<lparr>req_operation := (req_operation ex_request)\<lparr>op_inputs := tx_inputs ex_spend,
     op_outputs := tx_outputs ex_spend\<rparr>\<rparr>"

lemma ex_rdb_start:
  "token_wf ms_store okv_store False ex_rdb" "token_utxos okv_store False ex_rdb = ex_utxos"
proof -
  have "okv.seen (tk_cache ex_rdb) = okv.seen (tk_cache ex_db)"
    by (simp add: ex_rdb_def ex_db_def one_output_db_def visible_def okv_empty_def)
  from okv.same_seen [OF this] show "token_wf ms_store okv_store False ex_rdb" "token_utxos okv_store False ex_rdb = ex_utxos"
    using ex_db_wf ex_db_utxos by (simp_all add: token_wf_def token_utxos_def ex_rdb_def ex_bdb_def)
qed

lemma ex_fee_history: "\<exists>ts. token_run ex_batch_node ex_rdb 1 ts 0 4 ex_rdb1 2"
proof -
  have u: "\<forall>i\<in>set [ex_input]. unspent (token_utxos okv_store False ex_rdb) i"
    and f: "fresh (lg_next_seq_no ref_ledger (fd_ledger ex_rdb)) [ex_change] (token_utxos okv_store False ex_rdb)"
    unfolding ex_rdb_start(2) using ex_nym_facts(5)
    by (simp_all add: ex_rdb_def ex_bdb_def ref_ledger_def unspent_def ex_utxos_def)
  obtain db' where "domain_apply_request ms_store okv_store ref_ledger 1 ex_nym ex_domain_txn ex_rdb = (Inr ex_domain_txn, db')"
    using domain_apply_fees [OF token_storesI [OF ref_stores] ex_rdb_start(1) ex_nym_facts(2) _ u f refl refl, of 1 ex_domain_txn] by auto
  then have d: "domain_apply_request ms_store okv_store ref_ledger 1 ex_nym ex_domain_txn ex_rdb = (Inr ex_domain_txn, ex_rdb1)"
    by (simp add: ex_rdb1_def)
  have c: "cache_wf okv_store False (tk_cache ex_rdb)" "cache_utxos okv_store False (tk_cache ex_rdb) = ex_utxos"
    using ex_rdb_start by (simp_all add: token_wf_def token_utxos_def)
  obtain msg where a: "authorize ms_store ref_fs okv_store (\<lambda>_. ''no'') ex_nym ex_md ex_config (tk_cache ex_rdb) = Inr (True, msg)"
    using authorize_parts [OF c(1) ex_fee_due ex_nym_facts(3), of "\<lambda>_. ''no''"] ex_nym_facts(4) ex_pays by (auto simp: c(2))
  have "token_step ex_batch_node ex_rdb 1 (fx_txn (make_fee_txn 1 ex_nym ex_domain_txn [ex_input] [ex_change] [''sig''] 4 2)) 0 4 ex_rdb1"
    by (rule token_step.step_domain_fee [OF ex_nym_facts(2) _ _ _ ex_nym_facts(1),
        where c = ex_config and md = ex_md and msg = msg and prev = ex_domain_txn])
      (use d a ex_fee_due in \<open>simp_all add: ex_batch_node_def ex_node_def involved_def ex_change_def ex_rdb_def ex_bdb_def ref_ledger_def\<close>)
  from token_run.run_step [OF token_run.run_start this] show ?thesis by auto
qed

lemma ex_spend_history: "token_run ex_batch_node ex_rdb2 2 [ex_spend] 0 0 (apply_token_txns ref_env [ex_spend] ex_rdb2) 3"
proof -
  have "fst (xfer_update_state ms_store okv_store ex_spend False ex_rdb2) = Inr ()" by code_simp
  then have x: "xfer_update_state ms_store okv_store ex_spend False ex_rdb2 =
      (Inr (), snd (xfer_update_state ms_store okv_store ex_spend False ex_rdb2))" by (simp add: prod_eq_iff)
  have v: "xfer_dynamic_validation okv_store (\<lambda>_ _. Inr ()) ex_spend_request (tk_cache ex_rdb2) = Inr ()" by code_simp
  have t: "apply_token_txns ref_env [ex_spend] ex_rdb2 =
      (snd (xfer_update_state ms_store okv_store ex_spend False ex_rdb2))\<lparr>fd_ledger := ref_append (fd_ledger ex_rdb2) ex_spend\<rparr>"
    by (simp add: apply_token_txns_def token_txn_ledger ex_spend_def txn_type_defs)
  have "token_step ex_batch_node ex_rdb2 2 ex_spend 0 0 (apply_token_txns ref_env [ex_spend] ex_rdb2)"
    unfolding t
    by (rule token_step.step_xfer [where req = ex_spend_request
        and ins = "[\<lparr>inp_address = ''B'', inp_seqNo = 2\<rparr>]" and outs = "[\<lparr>pay_address = ''C'', pay_amount = 6\<rparr>]"])
      (use x v in \<open>simp_all add: ex_batch_node_def ex_node_def involved_def ex_spend_request_def ex_spend_def ex_change_def payment_txn_def\<close>)
  from token_run.run_step [OF token_run.run_start this] show ?thesis by simp
qed

theorem node_accounts_witness:
  "\<exists>db q. node_run ex_batch_node ref_env ex_rdb 1 db q [(2, 0, 4), (3, 0, 4)] \<and>
    token_supply {''A'', ''B'', ''C''} (token_utxos okv_store False db) = token_supply {''A'', ''B'', ''C''} ex_utxos - 4"
proof -
  have "node_run ex_batch_node ref_env ex_rdb 1 ex_rdb [snap ref_env PlainBatch ex_rdb] ([] @ [(1, 0, 0)])"
    using node_run.node_start by simp
  moreover obtain ts where ts: "token_run ex_batch_node ex_rdb 1 ts 0 4 ex_rdb1 2" using ex_fee_history by blast
  ultimately have "node_run ex_batch_node ref_env ex_rdb 1 ex_rdb2 ([snap ref_env PlainBatch ex_rdb] @ [snap ref_env FeeBatch ex_rdb2])
      ([] @ [(1, 0, 0), (2, 0 + 0, 0 + 4)])"
    using node_run.node_apply [OF _ ex_steps(1) ts] by blast
  then
  have "node_run ex_batch_node ref_env ex_rdb 1 ex_rdb2 [snap ref_env PlainBatch ex_rdb, snap ref_env FeeBatch ex_rdb2]
      ([(1, 0, 0)] @ [(2, 0, 4)])" by simp
  from node_run.node_apply [OF this ex_steps(2) ex_spend_history]
  have "node_run ex_batch_node ref_env ex_rdb 1 ex_rdb3
      [snap ref_env PlainBatch ex_rdb, snap ref_env FeeBatch ex_rdb2, snap ref_env TokenBatch ex_rdb3]
      [(1, 0, 0), (2, 0, 4), (3, 0, 4)]" by simp
  from node_run.node_commit [OF this ex_steps(3)]
  have r: "node_run ex_batch_node ref_env ex_rdb 1 (snd ex_rdb4) [snap ref_env FeeBatch ex_rdb2, snap ref_env TokenBatch ex_rdb3]
      ([(2, 0, 4)] @ [(3, 0, 4)])" by simp
  have "same_node ex_batch_node ref_env" "finite (ne_addresses ex_batch_node)"
    "below 1 (token_utxos (be_kv ref_env) False ex_rdb)"
    by (simp_all add: same_node_def ex_batch_node_def ex_node_def below_def ex_rdb_start ex_utxos_def)
  from node_accounts [OF ref_runs.batch_machine_axioms this(1,2) _ _ _ _ this(3) r] r
  show ?thesis
    using ex_rdb_in_step ex_rdb_clean ex_rdb_start
    by (auto simp: ex_batch_node_def intro!: exI [of _ "snd ex_rdb4"])
qed

end
