(* ===== verification/Catchup.thy ===== *)
theory Catchup
  imports Token_History
begin

text \<open>
  Catch-up: a node that was away receives the transactions of the token ledger and replays them. For
  each transaction plenum calls \<open>update_state\<close> of the handler registered for its type, with
  \<open>is_committed\<close> true: \<open>MintHandler\<close>, \<open>XferFeeHandler\<close> (which inherits the method of \<open>XferHandler\<close>) and
  \<open>FeeTxnCatchupHandler\<close>. The property: replaying the ledger of a history reaches the unspent outputs
  that the live nodes reached, although a domain request with fees was never applied by this node
  and its fee only appears as a transaction of the token ledger.
\<close>

definition catchup_update :: "'s state_store \<Rightarrow> 'c kv_store \<Rightarrow> txn \<Rightarrow> (('s, 'c, 'z) token_db_scheme, unit) proc" where
  "catchup_update st kv t =
     (if tx_type t = MINT_PUBLIC then mint_update_state st kv t True
      else if tx_type t = FEE_TXN then fee_catchup_update_state st kv t True
      else xfer_update_state st kv t True)"

definition replay :: "'s state_store \<Rightarrow> 'c kv_store \<Rightarrow> txn list \<Rightarrow> (('s, 'c, 'z) token_db_scheme, unit) proc" where
  "replay st kv ts = for_each (catchup_update st kv) ts"

lemma replay_snoc:
  "replay st kv ts c = (Inr (), c') \<Longrightarrow> catchup_update st kv t c' = (Inr (), c'') \<Longrightarrow> replay st kv (ts @ [t]) c = (Inr (), c'')"
  by (simp add: replay_def for_each_append pseq_ok)

lemma update_mint:
  assumes "token_stores st kv True" "token_wf st kv True c" "tx_type t = MINT_PUBLIC" "tx_outputs t = Some outs"
    and "tx_seqNo t = n" "fresh n outs (token_utxos kv True c)"
  shows "\<exists>c'. catchup_update st kv t c = (Inr (), c') \<and> token_wf st kv True c' \<and>
    token_utxos kv True c' = add_all n outs (token_utxos kv True c)"
  using token_stores.adding_ok [OF assms(1,2,4-6)] assms(3)
  by (auto simp: catchup_update_def mint_update_state_def pcatch_Inr_iff)

lemma update_payment:
  assumes "token_stores st kv True" "token_wf st kv True c" "tx_type t \<noteq> MINT_PUBLIC" "payment_txn ins outs n t"
    and "distinct ins" "\<forall>i\<in>set ins. unspent (token_utxos kv True c) i" "fresh n outs (token_utxos kv True c)"
  shows "\<exists>c'. catchup_update st kv t c = (Inr (), c') \<and> token_wf st kv True c' \<and>
    token_utxos kv True c' = paid ins outs n (token_utxos kv True c)"
  using token_stores.payment_ok [OF assms(1,2,4-7), of True] assms(3)
  by (auto simp: catchup_update_def fee_catchup_update_state_def xfer_update_state_def pcatch_Inr_iff)

lemma replay_step:
  fixes db :: "('s, 'c, 'l, 't) fees_db" and c :: "('s, 'c, 'z) token_db_scheme"
  assumes "token_step N db n t minted burned db'" "holds_supply N db n s"
    and "token_stores (ne_st N) (ne_kv N) False" "token_stores (ne_st N) (ne_kv N) True"
    and "token_wf (ne_st N) (ne_kv N) True c" "token_utxos (ne_kv N) True c = token_utxos (ne_kv N) False db"
  shows "\<exists>c'. catchup_update (ne_st N) (ne_kv N) t c = (Inr (), c') \<and> token_wf (ne_st N) (ne_kv N) True c' \<and>
    token_utxos (ne_kv N) True c' = token_utxos (ne_kv N) False db'"
proof -
  have w: "token_wf (ne_st N) (ne_kv N) False db" and b: "below n (token_utxos (ne_kv N) False db)"
    using assms(2) by (simp_all add: holds_supply_def)
  have types: "XFER_PUBLIC \<noteq> MINT_PUBLIC" "FEE_TXN \<noteq> MINT_PUBLIC"
    by (simp_all add: txn_type_defs FEE_TXN_def FEES_PREFIX_def)
  from assms(1,2) show ?thesis
  proof (cases rule: step_pays)
    case (mint outs db'' l)
    have "fresh (n + 1) outs (token_utxos (ne_kv N) True c)" using below_fresh [OF b mint(4)] assms(6) by simp
    from update_mint [OF assms(4,5) mint(1-3) this] show ?thesis
      using mint_paid [OF assms(3) w b mint(2-4,8)] mint(9) assms(6) by (simp add: token_utxos_def)
  next
    case (xfer ins outs db'' l)
    note u = exactly_inputs(1) [OF xfer(6,3)]
    have "fresh (n + 1) outs (token_utxos (ne_kv N) True c)" "\<forall>i\<in>set ins. unspent (token_utxos (ne_kv N) True c) i"
      using below_fresh [OF b xfer(4)] u assms(6) by simp_all
    from update_payment [OF assms(4,5) _ xfer(2,3) this(2,1)] show ?thesis
      using xfer_paid [OF assms(3) w b xfer(2-4) u xfer(8)] xfer(1,9) types assms(6) by (simp add: token_utxos_def)
  next
    case (domain_fee req ins outs sigs prev)
    note u = exactly_inputs(1) [OF domain_fee(5,2)]
    have "fresh (n + 1) outs (token_utxos (ne_kv N) True c)" "\<forall>i\<in>set ins. unspent (token_utxos (ne_kv N) True c) i"
      using below_fresh [OF b domain_fee(3)] u assms(6) by simp_all
    from update_payment [OF assms(4,5) _ domain_fee(10,2) this(2,1)] show ?thesis
      using domain_fee_paid [OF assms(3) w b domain_fee(1-3) u domain_fee(7,8)] domain_fee(9) types assms(6) by simp
  qed
qed

text \<open>C3: Catch-up is equivalent to taking part: a node that starts with the same unspent outputs as the
  others and replays the transactions of their token ledger, whatever mints, transfers and fees
  made them, replays every transaction without error and ends with exactly their unspent outputs,
  its state and its committed cache in agreement.\<close>

theorem catchup_same_tokens:
  fixes db0 :: "('s, 'c, 'l, 't) fees_db" and c0 :: "('s, 'c, 'z) token_db_scheme"
  assumes "state_map_store (ne_st N)" "kv_text_store (ne_kv N) False" "kv_text_store (ne_kv N) True"
    and "finite (ne_addresses N)"
    and "token_wf (ne_st N) (ne_kv N) False db0" "below n0 (token_utxos (ne_kv N) False db0)"
    and "token_wf (ne_st N) (ne_kv N) True c0" "token_utxos (ne_kv N) True c0 = token_utxos (ne_kv N) False db0"
    and "token_run N db0 n0 ts minted burned db n"
  shows "\<exists>c. replay (ne_st N) (ne_kv N) ts c0 = (Inr (), c) \<and> token_wf (ne_st N) (ne_kv N) True c \<and>
    token_utxos (ne_kv N) True c = token_utxos (ne_kv N) False db"
  using assms(9)
proof (induction rule: token_run.induct)
  case run_start
  then show ?case using assms(7,8) by (simp add: replay_def)
next
  case (run_step ts m b db n t minted burned db')
  note live = token_storesI [OF assms(1,2)] and caught = token_storesI [OF assms(1,3)]
  obtain s where h: "holds_supply N db n s"
    using run_supply [OF run_step(1) live assms(4), of "token_supply (ne_addresses N) (token_utxos (ne_kv N) False db0)"]
      assms(5,6) by (auto simp: run_ok_def holds_supply_def)
  obtain c where c: "replay (ne_st N) (ne_kv N) ts c0 = (Inr (), c)" "token_wf (ne_st N) (ne_kv N) True c"
    "token_utxos (ne_kv N) True c = token_utxos (ne_kv N) False db"
    using run_step(3) by blast
  from replay_step [OF run_step(2) h live caught c(2,3)] show ?case
    using replay_snoc [OF c(1)] by blast
qed

theorem catchup_same_tokens_witness:
  "\<exists>ts db c. token_run ex_node ex_fdb 1 ts 0 4 db 2 \<and> replay ms_store okv_store ts ex_behind = (Inr (), c) \<and>
    token_utxos okv_store True c = token_utxos okv_store False db"
proof -
  obtain ts db where r: "token_run ex_node ex_fdb 1 ts 0 4 db 2" using ex_run by blast
  have N: "ne_st ex_node = ms_store" "ne_kv ex_node = okv_store" by (simp_all add: ex_node_def)
  have "kv_text_store okv_store True" by (rule okv.committed.kv_text_store_axioms)
  then show ?thesis
    using catchup_same_tokens [OF ex_node_facts(1,2) _ ex_node_facts(3-5) _ _ r, of ex_behind] r ex_behind_facts
      ex_fdb_facts(2) by (auto simp: N)
qed

end
