(* ===== verification/Cache_Types.thy ===== *)
theory Cache_Types
  imports Batch_Runs
begin

text \<open>
  The types of the UTXO cache's entries, which the code does not declare: every entry is the text of a
  list of pairs of integers (\<open>cache_typed\<close>). Requests keep the cache typed, also those that raise
  half-way, and on a typed cache the handlers raise nothing but the errors that the node turns
  into a rejection: no entry ever fails to parse.

  \<open>sound I E m\<close> says of a computation that it keeps \<open>I\<close>, whether it returns or raises, and that
  it raises only exceptions that satisfy \<open>E\<close>; it is closed under the ways in which the handlers compose
  their steps.
\<close>

section \<open>Computations that keep an invariant and raise only certain errors\<close>

definition sound :: "('s \<Rightarrow> bool) \<Rightarrow> (exn \<Rightarrow> bool) \<Rightarrow> ('s, 'a) proc \<Rightarrow> bool" where
  "sound I E m \<longleftrightarrow> (\<forall>s. I s \<longrightarrow> I (snd (m s)) \<and> (\<forall>e. fst (m s) = Inl e \<longrightarrow> E e))"

lemma sound_keeps: "sound I E m \<Longrightarrow> I s \<Longrightarrow> I (snd (m s))"
  by (simp add: sound_def)

lemma sound_raises: "sound I E m \<Longrightarrow> I s \<Longrightarrow> m s = (Inl e, s') \<Longrightarrow> E e"
  by (simp add: sound_def)

named_theorems sound_intros

lemma sound_return [sound_intros]: "sound I E (preturn a)"
  by (simp add: sound_def)

lemma sound_raise: "E e \<Longrightarrow> sound I E (praise e)"
  by (simp add: sound_def)

lemma sound_lift: "(\<And>e. r = Inl e \<Longrightarrow> E e) \<Longrightarrow> sound I E (plift r)"
  by (auto simp: sound_def)

lemma sound_update: "(\<And>s. I s \<Longrightarrow> I (f s)) \<Longrightarrow> sound I E (\<lambda>s. (Inr a, f s))"
  by (simp add: sound_def)

lemma sound_pbind:
  assumes "sound I E m" "\<And>a. sound I E (k a)"
  shows "sound I E (pbind m k)"
  unfolding sound_def
proof (intro allI impI)
  fix s assume "I s"
  with assms(1) have m: "I (snd (m s))" "\<forall>e. fst (m s) = Inl e \<longrightarrow> E e" by (simp_all add: sound_def)
  show "I (snd (pbind m k s)) \<and> (\<forall>e. fst (pbind m k s) = Inl e \<longrightarrow> E e)"
  proof (cases "m s")
    case (Pair r t)
    then show ?thesis using m assms(2) by (cases r) (auto simp: pbind_def sound_def)
  qed
qed

lemma sound_pseq [sound_intros]: "sound I E m \<Longrightarrow> sound I E k \<Longrightarrow> sound I E (pseq m k)"
  unfolding pseq_def by (rule sound_pbind)

lemma sound_for_each [sound_intros]: "(\<And>x. sound I E (f x)) \<Longrightarrow> sound I E (for_each f xs)"
  by (induction xs) (simp_all add: sound_intros)

lemma sound_pcatch:
  assumes "sound I E m" "\<And>e. E e \<Longrightarrow> E' (if p e then h e else e)"
  shows "sound I E' (pcatch p h m)"
  unfolding sound_def
proof (intro allI impI)
  fix s assume "I s"
  with assms(1) have m: "I (snd (m s))" "\<forall>e. fst (m s) = Inl e \<longrightarrow> E e" by (simp_all add: sound_def)
  show "I (snd (pcatch p h m s)) \<and> (\<forall>e. fst (pcatch p h m s) = Inl e \<longrightarrow> E' e)"
  proof (cases "m s")
    case (Pair r t)
    then show ?thesis using m assms(2) by (cases r) (auto simp: pcatch_def)
  qed
qed

lemma sound_weaken: "sound I E m \<Longrightarrow> (\<And>e. E e \<Longrightarrow> E' e) \<Longrightarrow> sound I E' m"
  by (auto simp: sound_def)

section \<open>Typed caches\<close>

definition cache_typed :: "'c kv_store \<Rightarrow> 'c \<Rightarrow> bool" where
  "cache_typed kv c \<longleftrightarrow> (\<forall>a. \<exists>ps. holds_pairs kv False c a ps)"

abbreviation typed_db :: "'c kv_store \<Rightarrow> ('s, 'c, 'z) token_db_scheme \<Rightarrow> bool" where
  "typed_db kv db \<equiv> cache_typed kv (tk_cache db)"

abbreviation spend_error :: "exn \<Rightarrow> bool" where
  "spend_error e \<equiv> e = UTXOAddressNotFound \<or> e = UTXONotFound"

lemma typed_reads: "cache_typed kv c \<Longrightarrow> \<exists>os. get_unspent_outputs kv a False c = Inr os"
  unfolding cache_typed_def using cache_utxos_holds(2) by metis

locale typed_store = kv_text_store kv False for kv :: "'c kv_store"
begin

lemma typed_set: "cache_typed kv c \<Longrightarrow> cache_typed kv (kv_set kv c a (encode_str ps) False)"
  unfolding cache_typed_def
proof
  fix b assume c: "\<forall>a. \<exists>ps. holds_pairs kv False c a ps"
  show "\<exists>ps'. holds_pairs kv False (kv_set kv c a (encode_str ps) False) b ps'"
  proof (cases "b = a")
    case True
    then show ?thesis using get_set [of c a "encode_str ps"] by (auto simp: holds_pairs_def)
  next
    case False
    then show ?thesis using get_set_other [OF False, of c "encode_str ps"] c by (simp add: holds_pairs_def)
  qed
qed

lemma typed_add: "cache_typed kv c \<Longrightarrow> \<exists>c'. add_output kv (mk_output a n (Some v)) False c = Inr c' \<and> cache_typed kv c'"
proof -
  assume c: "cache_typed kv c"
  then obtain ps where ps: "holds_pairs kv False c a ps" unfolding cache_typed_def by blast
  have "add_output kv (mk_output a n (Some v)) False c = Inr (kv_set kv c a (encode_str (ps @ [(n, v)])) False)"
    using get_amounts_holds(1) [OF ps] by (simp add: add_output_def add_amount_def as_str_def encode_str_def)
  then show ?thesis using typed_set [OF c] by blast
qed

lemma typed_spend:
  assumes "cache_typed kv c"
  shows "(\<exists>c'. spend_output kv (mk_output a n v) False c = Inr c' \<and> cache_typed kv c') \<or>
    (\<exists>e. spend_output kv (mk_output a n v) False c = Inl e \<and> spend_error e)"
proof -
  obtain ps where ps: "holds_pairs kv False c a ps" using assms unfolding cache_typed_def by blast
  show ?thesis
    using get_amounts_holds(2) [OF ps] typed_set [OF assms] by (simp add: spend_output_def remove_seq_no_encode)
qed

lemma spend_sound [sound_intros]:
  fixes st :: "'s state_store"
  shows "sound (typed_db kv) spend_error (spend_input st kv a n False rs :: (('s, 'c, 'z) token_db_scheme, unit) proc)"
  unfolding sound_def
proof (intro allI impI)
  fix d :: "('s, 'c, 'z) token_db_scheme" assume "typed_db kv d"
  from typed_spend [OF this, of a n None]
  show "typed_db kv (snd (spend_input st kv a n False rs d)) \<and>
      (\<forall>e. fst (spend_input st kv a n False rs d) = Inl e \<longrightarrow> spend_error e)"
    using \<open>typed_db kv d\<close> by (auto simp: spend_input_def Let_def on_cache_def)
qed

lemma add_sound:
  fixes st :: "'s state_store"
  shows "sound (typed_db kv) E (add_new_output st kv (mk_output a n (Some v)) False :: (('s, 'c, 'z) token_db_scheme, unit) proc)"
  unfolding sound_def
proof (intro allI impI)
  fix d :: "('s, 'c, 'z) token_db_scheme" assume "typed_db kv d"
  from typed_add [OF this, of a n v]
  show "typed_db kv (snd (add_new_output st kv (mk_output a n (Some v)) False d)) \<and>
      (\<forall>e. fst (add_new_output st kv (mk_output a n (Some v)) False d) = Inl e \<longrightarrow> E e)"
    by (auto simp: add_new_output_def Let_def on_cache_def)
qed

lemma outputs_sound: "sound (typed_db kv) (\<lambda>e. e = KeyError \<and> tx_outputs t = None) (add_outputs st kv t False)"
  unfolding add_outputs_def
  by (rule sound_pbind; (rule sound_for_each add_sound sound_lift)+) (auto simp: dict_get_def split: option.splits)

lemma inputs_sound:
  "sound (typed_db kv) (\<lambda>e. spend_error e \<or> e = KeyError \<and> tx_inputs t = None) (spend_inputs st kv rs t False)"
  unfolding spend_inputs_def
  by (rule sound_pbind; (rule sound_for_each sound_lift sound_weaken [OF spend_sound])+)
    (auto simp: dict_get_def split: option.splits)

lemma payment_sound:
  "sound (typed_db kv) (\<lambda>e. spend_error e \<or> e = KeyError \<and> (tx_inputs t = None \<or> tx_outputs t = None))
     (pseq (spend_inputs st kv rs t False) (add_outputs st kv t False))"
  by (rule sound_pseq [OF sound_weaken [OF inputs_sound] sound_weaken [OF outputs_sound]]) auto

lemma xfer_sound:
  "sound (typed_db kv) (\<lambda>e. e = OperationError \<or> e = KeyError \<and> (tx_inputs t = None \<or> tx_outputs t = None))
     (xfer_update_state st kv t False)"
  unfolding xfer_update_state_def by (rule sound_pcatch [OF payment_sound]) auto

lemma mint_sound: "sound (typed_db kv) (\<lambda>e. e = KeyError \<and> tx_outputs t = None) (mint_update_state st kv t False)"
  unfolding mint_update_state_def by (rule sound_pcatch [OF outputs_sound]) auto

lemma token_txns_typed:
  "typed_db (be_kv B) db \<Longrightarrow> be_kv B = kv \<Longrightarrow> typed_db kv (apply_token_txns B ts db)"
  unfolding apply_token_txns_def
proof (induction ts arbitrary: db)
  case (Cons t ts)
  let ?d = "db\<lparr>fd_ledger := be_append B (fd_ledger db) t\<rparr>"
  have "typed_db kv ?d" using Cons.prems by simp
  then have "typed_db kv (apply_token_txn B t db)"
    by (simp add: apply_token_txn_def Let_def Cons.prems(2) sound_keeps [OF xfer_sound] sound_keeps [OF mint_sound])
  then show ?case using Cons by simp
qed simp

lemma domain_sound:
  fixes lg :: "'l ledger_ops" and st :: "'s state_store"
  shows "sound (typed_db kv) (\<lambda>_. True)
    (domain_apply_request st kv lg ledger_id req prev :: (('s, 'c, 'l, 't) fees_db, domain_txn) proc)"
proof -
  have read: "sound (typed_db kv) (\<lambda>_. True) (\<lambda>db :: ('s, 'c, 'l, 't) fees_db. (f db, db))" for f :: "_ \<Rightarrow> exn + 'a"
    by (simp add: sound_def)
  have pay: "sound (typed_db kv) (\<lambda>_. True) (update_token_state st kv t False :: (('s, 'c, 'l, 't) fees_db, unit) proc)" for t
    unfolding update_token_state_def by (rule sound_weaken [OF payment_sound]) simp
  have upd: "sound (typed_db kv) (\<lambda>_. True) (\<lambda>db :: ('s, 'c, 'l, 't) fees_db. (Inr (), db\<lparr>fd_ledger := g db\<rparr>))"
    "sound (typed_db kv) (\<lambda>_. True) (\<lambda>db :: ('s, 'c, 'l, 't) fees_db. (Inr (), db\<lparr>fd_fees_tracker := h db\<rparr>))" for g h
    by (simp_all add: sound_def)
  show ?thesis
    unfolding domain_apply_request_def
    by (auto intro!: sound_pbind sound_pseq sound_return sound_lift pay upd read split: prod.split)
qed

lemma requests_typed:
  "typed_db kv db \<Longrightarrow> typed_db kv (apply_requests st kv lg ledger_id rs db)"
proof (induction rs arbitrary: db)
  case (Cons r rs)
  obtain req prev where r: "r = (req, prev)" by (cases r)
  have "typed_db kv (snd (domain_apply_request st kv lg ledger_id req prev db))"
    by (rule sound_keeps [OF domain_sound Cons.prems])
  then show ?case using Cons.IH by (simp add: r)
qed simp

end

interpretation okv_typed: typed_store okv_store
  by (simp add: typed_store_def okv.uncommitted.kv_text_store_axioms)

section \<open>Properties\<close>

text \<open>C19: The UTXO cache is type-safe: on a cache whose entries are texts of pairs of integers, reading an
  address never raises, minting never raises, a transfer raises nothing but \<open>OperationError\<close>, and
  whatever the requests of a batch of either ledger do, even if they raise half-way, they leave
  such a cache.\<close>

theorem cache_type_safe:
  fixes db :: "('s, 'c, 'l, 't) fees_db"
  assumes "kv_text_store (be_kv B) False" "cache_typed (be_kv B) (tk_cache db)"
    and "tx_inputs t = Some ins" "tx_outputs t = Some outs"
  shows "(\<exists>os. get_unspent_outputs (be_kv B) a False (tk_cache db) = Inr os) \<and>
    fst (mint_update_state (be_st B) (be_kv B) t False db) = Inr () \<and>
    fst (xfer_update_state (be_st B) (be_kv B) t False db) \<in> {Inr (), Inl OperationError} \<and>
    cache_typed (be_kv B) (tk_cache (apply_token_txns B ts db)) \<and>
    cache_typed (be_kv B) (tk_cache (apply_requests (be_st B) (be_kv B) lg ledger_id rs db))"
proof -
  have T: "typed_store (be_kv B)" using assms(1) by (simp add: typed_store_def)
  have returns: "fst (m db) = Inr ()" if "\<And>e d. m db = (Inl e, d) \<Longrightarrow> False" for m :: "(('s, 'c, 'l, 't) fees_db, unit) proc"
    using that by (cases "m db"; cases "fst (m db)") auto
  have "fst (mint_update_state (be_st B) (be_kv B) t False db) = Inr ()"
    by (rule returns, drule sound_raises [OF typed_store.mint_sound [OF T] assms(2)]) (simp add: assms(4))
  moreover have "fst (xfer_update_state (be_st B) (be_kv B) t False db) \<in> {Inr (), Inl OperationError}"
  proof (cases "xfer_update_state (be_st B) (be_kv B) t False db")
    case (Pair r d)
    then show ?thesis
      using sound_raises [OF typed_store.xfer_sound [OF T] assms(2)] assms(3,4) by (cases r) force+
  qed
  ultimately show ?thesis
    using typed_reads [OF assms(2)] typed_store.token_txns_typed [OF T assms(2) refl] typed_store.requests_typed [OF T assms(2)]
    by blast
qed

text \<open>Two transfers of the same output: the second raises.\<close>

lemma ex_rdb_typed: "cache_typed okv_store (tk_cache ex_rdb)"
proof -
  have "holds_pairs okv_store False (tk_cache ex_rdb) a (ex_utxos a)" for a
    by (simp add: holds_pairs_def ex_rdb_def ex_db_def one_output_db_def ex_utxos_def okv_defs visible_def)
  then show ?thesis unfolding cache_typed_def by blast
qed

theorem cache_type_safe_witness:
  "cache_typed okv_store (tk_cache (apply_token_txns ref_env [ex_txn, ex_txn] ex_rdb)) \<and>
    fst (xfer_update_state ms_store okv_store ex_txn False (apply_token_txns ref_env [ex_txn] ex_rdb)) = Inl OperationError"
proof
  have "kv_text_store (be_kv ref_env) False" using ref_stores by simp
  from cache_type_safe [OF this, of ex_rdb ex_txn "[ex_input]" "[ex_payout]"] ex_rdb_typed
  show "cache_typed okv_store (tk_cache (apply_token_txns ref_env [ex_txn, ex_txn] ex_rdb))"
    by (simp add: ex_txn_def)
  show "fst (xfer_update_state ms_store okv_store ex_txn False (apply_token_txns ref_env [ex_txn] ex_rdb)) = Inl OperationError"
    by code_simp
qed

end
