(* ===== verification/Client_Authnr.thy ===== *)
theory Client_Authnr
  imports Fees_State Addresses
begin

text \<open>
  The authenticators \<open>sovtoken/client_authnr.py\<close> (\<open>TokenAuthNr\<close>, \<open>AddressSigVerifier\<close>) and
  \<open>sovtokenfees/client_authnr.py\<close> (\<open>FeesAuthNr\<close>).

  The signature scheme, the serialisation of the signed data and the inherited authenticator of
  indy-node are arguments (\<open>auth_env\<close>). The lemmas say that the payment signatures are accepted
  exactly when each input comes with a signature that the key in its address verifies on that
  input together with all outputs.
\<close>

section \<open>Data\<close>

text \<open>A verifier class: its constructor may raise; its instances check a signature on a message.\<close>

type_synonym verifier = "string \<Rightarrow> exn + (string \<Rightarrow> string \<Rightarrow> bool)"

text \<open>\<open>req_data\<close>: the operation, its optional \<open>extra\<close>, the optional acceptance of the transaction
  author agreement.\<close>

record auth_request =
  ar_operation :: operation
  ar_extra :: "jval option"
  ar_taa :: "jval option"

text \<open>\<open>serialize_msg_for_signing([inp, outputs, *extra])\<close>, \<open>NaclVerifier\<close> on key bytes, plenum's
  \<open>DidVerifier\<close>, and \<open>authenticate\<close> and \<open>getVerkey\<close> of \<open>LedgerBasedAuthNr\<close>.\<close>

record auth_env =
  ae_b58 :: base58_lib
  ae_ser :: "input \<Rightarrow> payout list \<Rightarrow> jval list \<Rightarrow> string"
  ae_nacl :: verifier
  ae_did :: verifier
  ae_base_authenticate :: "auth_request \<Rightarrow> string option \<Rightarrow> string option \<Rightarrow> verifier \<Rightarrow> exn + string list"
  ae_base_getVerkey :: "string \<Rightarrow> exn + string"

section \<open>Token authenticator\<close>

definition AddressSigVerifier :: "auth_env \<Rightarrow> verifier" where
  "AddressSigVerifier A verkey =
     (case b58decode (ae_b58 A) verkey of None \<Rightarrow> Inl ValueError | Some b \<Rightarrow> ae_nacl A b)"

text \<open>The loop of \<open>verify_signtures_on_payments\<close>: the identifiers with a correct signature, in order.
  The dictionary of incorrect signatures is only part of the exception.\<close>

fun verify_loop :: "auth_env \<Rightarrow> verifier \<Rightarrow> payout list \<Rightarrow> jval list \<Rightarrow> (input \<times> string) list
    \<Rightarrow> string list \<Rightarrow> exn + string list" where
  "verify_loop A verifier outs extra [] correct = Inr correct"
| "verify_loop A verifier outs extra ((inp, sig) # rest) correct =
     (case b58decode (ae_b58 A) sig of
        None \<Rightarrow> Inl InvalidSignatureFormat
      | Some sig_decoded \<Rightarrow>
          (case address_to_verkey (ae_b58 A) (inp_address inp) of
             Inl ValueError \<Rightarrow> verify_loop A verifier outs extra rest correct
           | Inl e \<Rightarrow> Inl e
           | Inr verkey \<Rightarrow>
               (case verifier verkey of
                  Inl e \<Rightarrow> Inl e
                | Inr verify \<Rightarrow>
                    if verify sig_decoded (ae_ser A inp outs extra)
                    then verify_loop A verifier outs extra rest (correct @ [inp_address inp])
                    else verify_loop A verifier outs extra rest correct)))"

definition verify_signtures_on_payments :: "auth_env \<Rightarrow> input list \<Rightarrow> payout list \<Rightarrow> string list
    \<Rightarrow> verifier \<Rightarrow> jval list \<Rightarrow> exn + string list" where
  "verify_signtures_on_payments A inputs outs sigs verifier extra =
     ebind (verify_loop A verifier outs extra (zip inputs sigs) []) (\<lambda>correct_sigs_from.
     if length correct_sigs_from \<noteq> length inputs
     then Inl (InsufficientCorrectSignatures (length inputs) (length correct_sigs_from))
     else Inr correct_sigs_from)"

definition authenticate_xfer :: "auth_env \<Rightarrow> auth_request \<Rightarrow> verifier \<Rightarrow> exn + string list" where
  "authenticate_xfer A req_data verifier =
     (let field = (\<lambda>v. case v of Some x \<Rightarrow> if j_true x then [x] else [] | None \<Rightarrow> []);
          extra_fields = field (ar_extra req_data) @ field (ar_taa req_data);
          operation = ar_operation req_data in
      ebind (dict_get (op_inputs operation)) (\<lambda>inputs.
      ebind (dict_get (op_outputs operation)) (\<lambda>outs.
      ebind (dict_get (op_signatures operation)) (\<lambda>sigs.
      verify_signtures_on_payments A inputs outs sigs verifier extra_fields))))"

text \<open>Other types are not verified here: the method returns \<open>None\<close>.\<close>

definition token_authenticate :: "auth_env \<Rightarrow> auth_request \<Rightarrow> string option \<Rightarrow> string option
    \<Rightarrow> verifier option \<Rightarrow> exn + string list option" where
  "token_authenticate A req_data identifier signature verifier =
     (let or_else = (\<lambda>d. case verifier of Some v \<Rightarrow> v | None \<Rightarrow> d) in
      if op_type (ar_operation req_data) = MINT_PUBLIC
      then ebind (ae_base_authenticate A req_data identifier signature (or_else (ae_did A))) (Inr \<circ> Some)
      else if op_type (ar_operation req_data) = XFER_PUBLIC
      then ebind (authenticate_xfer A req_data (or_else (AddressSigVerifier A))) (Inr \<circ> Some)
      else Inr None)"

definition getVerkey :: "auth_env \<Rightarrow> string \<Rightarrow> exn + string" where
  "getVerkey A ident =
     (if py_len ident \<notin> {21, 22}
      then ebind (address_to_verkey (ae_b58 A) ident) (\<lambda>vk.
        if py_len vk \<in> {43, 44} then Inr vk else ae_base_getVerkey A ident)
      else ae_base_getVerkey A ident)"

section \<open>Fees authenticator\<close>

text \<open>\<open>SET_FEES\<close> is the type of the only request the fees authenticator signs for.\<close>

definition fees_authenticate :: "auth_env \<Rightarrow> auth_request \<Rightarrow> string option \<Rightarrow> string option
    \<Rightarrow> verifier option \<Rightarrow> exn + string list" where
  "fees_authenticate A req_data identifier signature verifier =
     (if op_type (ar_operation req_data) = SET_FEES
      then ae_base_authenticate A req_data identifier signature
        (case verifier of Some v \<Rightarrow> v | None \<Rightarrow> ae_did A)
      else Inl InvalidClientRequest)"

text \<open>\<open>fees[1]\<close> and \<open>fees[2]\<close> raise \<open>IndexError\<close> on shorter lists, \<open>None[0]\<close> raises \<open>TypeError\<close>.\<close>

definition fees_verify_signature :: "auth_env \<Rightarrow> fees_attr \<Rightarrow> string \<Rightarrow> exn + string list option" where
  "fees_verify_signature A fees payload_digest =
     (case fees of
        FeesAbsent \<Rightarrow> Inr None
      | FeesNone \<Rightarrow> Inl TypeError
      | Fees1 _ \<Rightarrow> Inl IndexError
      | Fees2 _ _ \<Rightarrow> Inl IndexError
      | Fees3 inputs outs sigs \<Rightarrow>
          ebind (verify_signtures_on_payments A inputs outs sigs (AddressSigVerifier A) [JStr payload_digest])
            (Inr \<circ> Some))"

section \<open>Correct signatures\<close>

text \<open>The signature \<open>s\<close> for the input \<open>i\<close> is accepted by the key in the address of \<open>i\<close>, on that input,
  all outputs and the extra data.\<close>

definition signed :: "auth_env \<Rightarrow> verifier \<Rightarrow> payout list \<Rightarrow> jval list \<Rightarrow> input \<times> string \<Rightarrow> bool" where
  "signed A verifier outs extra p \<longleftrightarrow>
     (\<exists>d vk verify. b58decode (ae_b58 A) (snd p) = Some d \<and>
        address_to_verkey (ae_b58 A) (inp_address (fst p)) = Inr vk \<and> verifier vk = Inr verify \<and>
        verify d (ae_ser A (fst p) outs extra))"

text \<open>Every part of a signature can be evaluated, whether or not it verifies.\<close>

definition checkable :: "auth_env \<Rightarrow> verifier \<Rightarrow> input \<times> string \<Rightarrow> bool" where
  "checkable A verifier p \<longleftrightarrow>
     (\<exists>d vk verify. b58decode (ae_b58 A) (snd p) = Some d \<and>
        address_to_verkey (ae_b58 A) (inp_address (fst p)) = Inr vk \<and> verifier vk = Inr verify)"

lemma address_to_verkey_cases:
  "address_to_verkey b58 a = Inl e \<Longrightarrow> e = UnknownIdentifier"
  by (auto simp: address_to_verkey_def decode_address_to_vk_bytes_def split: option.splits)

lemma verify_loop_Inr:
  "verify_loop A v outs extra ps acc = Inr cs \<longleftrightarrow>
    (\<forall>p\<in>set ps. checkable A v p) \<and>
    cs = acc @ map (inp_address \<circ> fst) (filter (signed A v outs extra) ps)"
proof (induction ps arbitrary: acc)
  case (Cons p ps)
  obtain i s where p: "p = (i, s)" by (cases p)
  show ?case
  proof (cases "checkable A v p")
    case True
    then obtain d vk verify where c: "b58decode (ae_b58 A) s = Some d"
      "address_to_verkey (ae_b58 A) (inp_address i) = Inr vk" "v vk = Inr verify"
      using p by (auto simp: checkable_def)
    then have "signed A v outs extra p \<longleftrightarrow> verify d (ae_ser A i outs extra)"
      using p by (simp add: signed_def)
    then show ?thesis using Cons [of acc] Cons [of "acc @ [inp_address i]"] p c True by simp
  next
    case False
    then show ?thesis using p address_to_verkey_cases [of "ae_b58 A" "inp_address i"]
      by (auto simp: checkable_def split: option.splits sum.splits exn.splits)
  qed
qed auto

lemma verify_loop_checkable:
  assumes "\<forall>p\<in>set ps. checkable A v p"
  shows "verify_loop A v outs extra ps [] = Inr (map (inp_address \<circ> fst) (filter (signed A v outs extra) ps))"
  using assms verify_loop_Inr [of A v outs extra ps "[]"] by auto

lemma signed_checkable: "signed A v outs extra p \<Longrightarrow> checkable A v p"
  by (auto simp: signed_def checkable_def)

lemma signed_AddressSigVerifier:
  "signed A (AddressSigVerifier A) outs extra (i, s) \<Longrightarrow>
   \<exists>d vk b verify. b58decode (ae_b58 A) s = Some d \<and> address_to_verkey (ae_b58 A) (inp_address i) = Inr vk \<and>
     b58decode (ae_b58 A) vk = Some b \<and> ae_nacl A b = Inr verify \<and> verify d (ae_ser A i outs extra)"
  by (auto simp: signed_def AddressSigVerifier_def split: option.splits)

lemma filter_all_length: "length (filter P xs) = length xs \<longleftrightarrow> (\<forall>x\<in>set xs. P x)"
  using length_filter_less by (metis filter_True nat_neq_iff)

lemma map_fst_zip_long: "length xs \<le> length ys \<Longrightarrow> map (f \<circ> fst) (zip xs ys) = map f xs"
  by (metis map_fst_zip_take map_map min.absorb1 take_all_iff order_refl)

lemma verify_signtures_iff:
  "verify_signtures_on_payments A ins outs sigs v extra = Inr idrs \<longleftrightarrow>
    length ins \<le> length sigs \<and> (\<forall>p\<in>set (zip ins sigs). signed A v outs extra p) \<and>
    idrs = map inp_address ins"
proof -
  let ?ps = "zip ins sigs"
  let ?good = "filter (signed A v outs extra) ?ps"
  have "length ?good = length ins \<longleftrightarrow> length ins \<le> length sigs \<and> (\<forall>p\<in>set ?ps. signed A v outs extra p)"
    using filter_all_length [of "signed A v outs extra" ?ps] length_filter_le [of "signed A v outs extra" ?ps]
    by auto
  moreover have "(\<forall>p\<in>set ?ps. signed A v outs extra p) \<Longrightarrow> ?good = ?ps" by (simp add: filter_id_conv)
  ultimately show ?thesis
    unfolding verify_signtures_on_payments_def ebind_Inr_iff verify_loop_Inr
    using signed_checkable [of A v outs extra] map_fst_zip_long [of ins sigs inp_address] by auto
qed

section \<open>Properties\<close>

text \<open>The signatures of a payment are accepted exactly when there are at least as many of them as
  inputs and each input's signature is verified, by the key in the address of that input, on
  that input together with all outputs and the extra data; the result is the addresses of the
  inputs in order.\<close>

theorem payment_signatures_exact:
  "verify_signtures_on_payments A ins outs sigs v extra = Inr idrs \<longleftrightarrow>
    length ins \<le> length sigs \<and> (\<forall>k<length ins. signed A v outs extra (ins ! k, sigs ! k)) \<and>
    idrs = map inp_address ins"
  unfolding verify_signtures_iff by (auto simp: in_set_zip all_set_conv_all_nth)

text \<open>When every signature decodes and every address is valid but only some signatures verify, the
  exception \<open>InsufficientCorrectSignatures\<close> carries the number of inputs and the number of
  correct signatures.\<close>

theorem payment_signatures_count:
  assumes "\<forall>p\<in>set (zip ins sigs). checkable A v p"
    and "n = length (filter (signed A v outs extra) (zip ins sigs))" "n < length ins"
  shows "verify_signtures_on_payments A ins outs sigs v extra =
    Inl (InsufficientCorrectSignatures (length ins) n)"
  using assms verify_loop_checkable [OF assms(1), of outs extra]
  by (auto simp: verify_signtures_on_payments_def)

text \<open>The fields beside the operation that a transfer's signatures cover: the \<open>extra\<close> of the operation and
  the acceptance of the transaction author agreement, in this order, when they are there and
  truthful.\<close>

definition truthful_fields :: "auth_request \<Rightarrow> jval list" where
  "truthful_fields req = filter j_true (List.map_filter (\<lambda>v. v) [ar_extra req, ar_taa req])"

text \<open>Every input has the signature of the key in its address, on the input, the outputs and \<open>extra\<close>.\<close>

definition signed_by_keys :: "auth_env \<Rightarrow> input list \<Rightarrow> payout list \<Rightarrow> string list \<Rightarrow> jval list \<Rightarrow> bool" where
  "signed_by_keys A ins outs sigs extra \<longleftrightarrow> length ins \<le> length sigs \<and>
     (\<forall>k<length ins. \<exists>d vk b verify. b58decode (ae_b58 A) (sigs ! k) = Some d \<and>
        address_to_verkey (ae_b58 A) (inp_address (ins ! k)) = Inr vk \<and>
        b58decode (ae_b58 A) vk = Some b \<and> ae_nacl A b = Inr verify \<and>
        verify d (ae_ser A (ins ! k) outs extra))"

lemma authenticated_owners:
  assumes "op_type (ar_operation req) = XFER_PUBLIC" "token_authenticate A req identifier signature None = Inr r"
  shows "\<exists>ins outs sigs. op_inputs (ar_operation req) = Some ins \<and>
    op_outputs (ar_operation req) = Some outs \<and> op_signatures (ar_operation req) = Some sigs \<and>
    signed_by_keys A ins outs sigs (truthful_fields req) \<and> r = Some (map inp_address ins)"
proof -
  let ?f = "\<lambda>v. case v of Some x \<Rightarrow> if j_true x then [x] else [] | None \<Rightarrow> []"
  let ?extra = "truthful_fields req"
  have x: "?f (ar_extra req) @ ?f (ar_taa req) = ?extra"
    by (simp add: truthful_fields_def map_filter_simps split: option.splits)
  have "XFER_PUBLIC \<noteq> MINT_PUBLIC" by (simp add: txn_type_defs)
  then obtain ins outs sigs where o: "op_inputs (ar_operation req) = Some ins"
    "op_outputs (ar_operation req) = Some outs" "op_signatures (ar_operation req) = Some sigs"
    "verify_signtures_on_payments A ins outs sigs (AddressSigVerifier A) ?extra = Inr (the r)" "r \<noteq> None"
    using assms by (auto simp: token_authenticate_def authenticate_xfer_def Let_def ebind_Inr_iff dict_get_def x
        split: option.splits)
  then have "length ins \<le> length sigs" "\<forall>p\<in>set (zip ins sigs). signed A (AddressSigVerifier A) outs ?extra p"
    "r = Some (map inp_address ins)"
    by (auto simp: verify_signtures_iff)
  moreover have "(ins ! k, sigs ! k) \<in> set (zip ins sigs)" if "k < length ins" for k
    using that \<open>length ins \<le> length sigs\<close> by (auto simp: in_set_zip)
  ultimately show ?thesis
    using o(1-3) signed_AddressSigVerifier [of A outs ?extra] unfolding signed_by_keys_def by blast
qed

text \<open>C13: Whoever wants to transfer tokens must control the keys of all inputs: if \<open>TokenAuthNr\<close>, called
  without a verifier of its own, authenticates a transfer, every input of the operation has a
  signature that the key in the input's address verifies, on this input, the operation's
  outputs and exactly the fields \<open>extra\<close> and \<open>taaAcceptance\<close> of the request that are truthful, in
  this order; the result is the addresses of the inputs.\<close>

theorem xfer_authenticated_by_owners:
  assumes "op_type (ar_operation req) = XFER_PUBLIC" "token_authenticate A req identifier signature None = Inr r"
  shows "\<exists>ins outs sigs. op_inputs (ar_operation req) = Some ins \<and>
    op_outputs (ar_operation req) = Some outs \<and> op_signatures (ar_operation req) = Some sigs \<and>
    signed_by_keys A ins outs sigs (truthful_fields req) \<and> r = Some (map inp_address ins)"
  using assms by (rule authenticated_owners)

text \<open>C14: Fees are signed like payments, over the digest of the request they pay for: a request without
  fees passes, and three-part fees pass exactly when every fee input is signed by the key in
  its address on that input, the change outputs and the digest; shorter fees raise, and so do
  fees that are \<open>None\<close>, which static validation admits.\<close>

theorem fees_signatures_exact:
  "fees_verify_signature A FeesAbsent digest = Inr None \<and>
   (fees_verify_signature A (Fees3 ins outs sigs) digest = Inr (Some idrs) \<longleftrightarrow>
      length ins \<le> length sigs \<and>
      (\<forall>p\<in>set (zip ins sigs). signed A (AddressSigVerifier A) outs [JStr digest] p) \<and>
      idrs = map inp_address ins) \<and>
   fees_verify_signature A (Fees1 ins) digest = Inl IndexError \<and>
   fees_verify_signature A (Fees2 ins outs) digest = Inl IndexError \<and>
   fees_verify_signature A FeesNone digest = Inl TypeError"
  unfolding verify_signtures_iff [symmetric]
  by (auto simp: fees_verify_signature_def ebind_Inr_iff)

text \<open>An environment in which a key signs a message by the text of the key.\<close>

definition ex_auth :: auth_env where
  "ex_auth = \<lparr>ae_b58 = ref_b58, ae_ser = (\<lambda>i outs extra. inp_address i),
     ae_nacl = (\<lambda>k. Inr (\<lambda>sig msg. sig = k)), ae_did = (\<lambda>_. Inl KeyError),
     ae_base_authenticate = (\<lambda>_ _ _ _. Inl KeyError), ae_base_getVerkey = (\<lambda>_. Inl KeyError)\<rparr>"

definition ex_signed_input :: input where
  "ex_signed_input = \<lparr>inp_address = ''keyo'', inp_seqNo = 1\<rparr>"

lemma ex_signed:
  "signed ex_auth (AddressSigVerifier ex_auth) outs extra (ex_signed_input, s) \<longleftrightarrow> s = ''key''"
  "checkable ex_auth (AddressSigVerifier ex_auth) (ex_signed_input, s)"
  by (simp_all add: signed_def checkable_def ex_auth_def ex_signed_input_def ref_b58_def len_check_def
      AddressSigVerifier_def address_to_verkey_def decode_address_to_vk_bytes_def)

theorem payment_signatures_exact_witness:
  "verify_signtures_on_payments ex_auth [ex_signed_input] [] [''key''] (AddressSigVerifier ex_auth) [] =
    Inr [''keyo'']"
  unfolding payment_signatures_exact by (simp add: ex_signed) (simp add: ex_signed_input_def)

theorem payment_signatures_count_witness:
  "verify_signtures_on_payments ex_auth [ex_signed_input, ex_signed_input] [] [''key'', ''bad'']
     (AddressSigVerifier ex_auth) [] = Inl (InsufficientCorrectSignatures 2 1)"
  using payment_signatures_count [of "[ex_signed_input, ex_signed_input]" "[''key'', ''bad'']" ex_auth
      "AddressSigVerifier ex_auth" 1 "[]" "[]"]
  by (simp add: ex_signed numeral_eq_Suc)

text \<open>One in which the signed text tells the number of extra fields and their texts: the signature of a
  transfer with a memo and an accepted agreement covers both.\<close>

fun field_text :: "jval \<Rightarrow> string" where
  "field_text (JStr s) = s"
| "field_text _ = ''.''"

definition ex_auth_extra :: auth_env where
  "ex_auth_extra = ex_auth\<lparr>ae_ser := (\<lambda>i outs extra. inp_address i @ concat (map field_text extra)),
     ae_nacl := (\<lambda>k. Inr (\<lambda>sig msg. sig = k @ msg))\<rparr>"

definition ex_memo_transfer :: auth_request where
  "ex_memo_transfer = \<lparr>ar_operation = \<lparr>op_type = XFER_PUBLIC, op_inputs = Some [ex_signed_input], op_outputs = Some [],
     op_signatures = Some [''keykeyomemo.'']\<rparr>, ar_extra = Some (JStr ''memo''), ar_taa = Some (JMap [(''time'', JInt 1)])\<rparr>"

theorem xfer_authenticated_by_owners_witness:
  "signed_by_keys ex_auth_extra [ex_signed_input] [] [''keykeyomemo.''] [JStr ''memo'', JMap [(''time'', JInt 1)]]"
proof -
  have "token_authenticate ex_auth_extra ex_memo_transfer None None None = Inr (Some [''keyo''])" by code_simp
  moreover have "truthful_fields ex_memo_transfer = [JStr ''memo'', JMap [(''time'', JInt 1)]]" by code_simp
  ultimately show ?thesis
    using xfer_authenticated_by_owners [of ex_memo_transfer ex_auth_extra None None "Some [''keyo'']"]
    by (auto simp: ex_memo_transfer_def)
qed

theorem fees_signatures_exact_witness:
  "fees_verify_signature ex_auth (Fees3 [ex_signed_input] [] [''key'']) ''digest'' = Inr (Some [''keyo''])"
  using fees_signatures_exact [of ex_auth "''digest''" "[ex_signed_input]" "[]" "[''key'']" "[''keyo'']"]
  by (simp add: ex_signed) (simp add: ex_signed_input_def)

end
