(* ===== verification/Utxo_Queries.thy ===== *)
theory Utxo_Queries
  imports Get_Utxo "HOL-Library.Sublist"
begin

text \<open>
  What GET_UTXO tells a client and what a transfer lets it spend: the handler reads the token state,
  the validation of transfers reads the UTXO cache. On stores that agree (\<open>token_wf\<close>) the pages of
  an address are together exactly the cache's list for it.
\<close>

section \<open>Reading the state by prefix\<close>

text \<open>\<open>generate_state_proof_for_keys_with_prefix\<close> with \<open>get_value\<close>: the entries of the state whose keys start
  with the prefix, in some order, each value in RLP form.\<close>

definition reads_prefix :: "'s state_store \<Rightarrow> 's \<Rightarrow> ('p, 'm) read_env \<Rightarrow> string \<Rightarrow> bool" where
  "reads_prefix st s env a \<longleftrightarrow> distinct (map fst (snd (prefix_proof env a))) \<and>
     (\<forall>k v. (\<exists>e. (k, e) \<in> set (snd (prefix_proof env a)) \<and> rlp_decode env e = [v]) \<longleftrightarrow>
       prefix a k \<and> st_get st s k False = Some v) \<and>
     (\<forall>(k, e)\<in>set (snd (prefix_proof env a)). \<exists>v. rlp_decode env e = [v])"

text \<open>No key of another address starts with the address.\<close>

definition own_keys :: "'s state_store \<Rightarrow> 's \<Rightarrow> string \<Rightarrow> bool" where
  "own_keys st s a \<longleftrightarrow> (\<forall>k v. prefix a k \<longrightarrow> st_get st s k False = Some v \<longrightarrow> (\<exists>n. k = create_state_key a n))"

text \<open>The sequence number and the amount of an item.\<close>

definition item_of :: "string \<Rightarrow> utxos \<Rightarrow> (string \<Rightarrow> string list) \<Rightarrow> string \<times> string \<Rightarrow> int \<times> int option \<Rightarrow> bool" where
  "item_of a U rlp kv p \<longleftrightarrow> fst kv = create_state_key a (fst p) \<and> rlp (snd kv) = [item_text (snd p)] \<and>
     snd p = map_of (U a) (fst p)"

lemma item_exists:
  assumes "reads_prefix st s env a" "own_keys st s a" "state_agrees st s U" "kv \<in> set (snd (prefix_proof env a))"
  shows "\<exists>p. item_of a U (rlp_decode env) kv p"
proof -
  obtain k e where kv: "kv = (k, e)" by (cases kv)
  obtain v where v: "rlp_decode env e = [v]" "prefix a k" "st_get st s k False = Some v"
    using assms(1,4) kv unfolding reads_prefix_def by blast
  then obtain n where n: "k = create_state_key a n" using assms(2) unfolding own_keys_def by blast
  have "live (Some v) = map_option py_str (map_of (U a) n)"
    using assms(3) v(3) n unfolding state_agrees_def by metis
  then have "v = item_text (map_of (U a) n)"
    by (cases "map_of (U a) n") (auto simp: live_def item_text_def split: if_splits)
  then show ?thesis
    using kv v(1) n by (intro exI [of _ "(n, map_of (U a) n)"]) (simp add: item_of_def)
qed

lemma items_exist:
  assumes "reads_prefix st s env a" "own_keys st s a" "state_agrees st s U"
  shows "\<exists>ps. list_all2 (item_of a U (rlp_decode env)) (snd (prefix_proof env a)) ps"
proof -
  have "\<exists>ps. list_all2 (item_of a U (rlp_decode env)) kvs ps" if "set kvs \<subseteq> set (snd (prefix_proof env a))" for kvs
    using that
  proof (induction kvs)
    case Nil
    show ?case by (rule exI [of _ "[]"]) simp
  next
    case (Cons kv kvs)
    then show ?case using item_exists [OF assms, of kv] by (fastforce simp: list_all2_Cons1)
  qed
  then show ?thesis by blast
qed

lemma prefix_state_key: "prefix a (create_state_key a n)"
  by (simp add: create_state_key_def)

lemma items_hold:
  assumes "reads_prefix st s env a" "state_agrees st s U" "CHR '':'' \<notin> set a"
    and ps: "list_all2 (item_of a U (rlp_decode env)) (snd (prefix_proof env a)) ps"
  shows "holds_items (rlp_decode env) a ps (snd (prefix_proof env a))"
    and "(n, Some m) \<in> set ps \<longleftrightarrow> map_of (U a) n = Some m"
proof -
  have keys: "map fst (snd (prefix_proof env a)) = map (create_state_key a) (map fst ps)"
    using ps by (induction rule: list_all2_induct) (simp_all add: item_of_def)
  then have "distinct (map (create_state_key a) (map fst ps))"
    using assms(1) unfolding reads_prefix_def by metis
  then have d: "distinct (map fst ps)" by (simp only: distinct_map)
  have "list_all2 (\<lambda>p kv. fst kv = create_state_key a (fst p) \<and> rlp_decode env (snd kv) = [item_text (snd p)]) ps
      (snd (prefix_proof env a))"
    using ps by (induction rule: list_all2_induct) (simp_all add: item_of_def)
  then show "holds_items (rlp_decode env) a ps (snd (prefix_proof env a))"
    using d assms(3) by (simp add: holds_items_def)
  have vals: "\<forall>p\<in>set ps. snd p = map_of (U a) (fst p)"
    using ps by (induction rule: list_all2_induct) (simp_all add: item_of_def)
  show "(n, Some m) \<in> set ps \<longleftrightarrow> map_of (U a) n = Some m"
  proof
    assume "map_of (U a) n = Some m"
    then have "live (st_get st s (create_state_key a n) False) = Some (py_str m)"
      using assms(2) by (simp add: state_agrees_def)
    then have "st_get st s (create_state_key a n) False = Some (py_str m)" by (simp add: live_def split: if_splits)
    then obtain e where "(create_state_key a n, e) \<in> set (snd (prefix_proof env a))"
      using assms(1) prefix_state_key unfolding reads_prefix_def by blast
    then have "create_state_key a n \<in> set (map fst (snd (prefix_proof env a)))" by force
    then have "n \<in> set (map fst ps)" unfolding keys by (simp add: image_iff)
    then show "(n, Some m) \<in> set ps" using vals \<open>map_of (U a) n = Some m\<close> by force
  next
    assume "(n, Some m) \<in> set ps"
    then show "map_of (U a) n = Some m" using vals by force
  qed
qed

section \<open>The reply and the cache\<close>

text \<open>C27: On a node whose token state and UTXO cache agree, a client that follows the pages of GET_UTXO for
  an address receives, in ascending order of the sequence numbers, exactly the outputs that the
  cache lists for the address: what a client is told is exactly what validation takes for
  unspent, with the same amounts. (The state under the address has only keys of its own outputs,
  whose sequence numbers are not zero.)\<close>

theorem get_utxo_shows_cache:
  assumes "token_wf st kv False db" "reads_prefix st (tk_state db) env a" "own_keys st (tk_state db) a"
    and "CHR '':'' \<notin> set a" "asks_for a req" "rr_operation req FROM_SEQNO = None"
    and "\<forall>p\<in>set (token_utxos kv False db a). fst p \<noteq> 0"
  shows "\<exists>k us. fetch_pages k env req = Some (Inr us) \<and> sorted_wrt (\<lambda>u v. seqNo u < seqNo v) us \<and>
    set us = {mk_output a n (Some m) | n m. (n, m) \<in> set (token_utxos kv False db a)} \<and>
    (\<forall>n. unspent (token_utxos kv False db) \<lparr>inp_address = a, inp_seqNo = n\<rparr> \<longleftrightarrow> (\<exists>u\<in>set us. seqNo u = n))"
proof -
  let ?U = "token_utxos kv False db"
  have wf: "state_agrees st (tk_state db) ?U" "distinct (map fst (?U a))"
    using assms(1) cache_wf_utxos [of kv False "tk_cache db"] by (simp_all add: token_wf_def token_utxos_def utxos_wf_def)
  obtain ps where ps: "list_all2 (item_of a ?U (rlp_decode env)) (snd (prefix_proof env a)) ps"
    using items_exist [OF assms(2,3) wf(1)] by blast
  note hold = items_hold [OF assms(2) wf(1) assms(4) ps]
  have m: "(n, Some m) \<in> set ps \<longleftrightarrow> (n, m) \<in> set (?U a)" for n m
    using hold(2) wf(2) by simp
  have "(0, Some m) \<notin> set ps" for m using m assms(7) by force
  note all = fetch_all [OF assms(5,6) hold(1) this]
  have us: "set (all_utxos a ps) = {mk_output a n (Some m) | n m. (n, m) \<in> set (?U a)}"
    using all(3) m by simp
  then have "unspent ?U \<lparr>inp_address = a, inp_seqNo = n\<rparr> \<longleftrightarrow> (\<exists>u\<in>set (all_utxos a ps). seqNo u = n)" for n
    by (force simp: unspent_def)
  with all us show ?thesis by blast
qed

text \<open>The example database, whose address \<open>A\<close> has one output of ten tokens.\<close>

definition ex_query_env :: "(unit, unit) read_env" where
  "ex_query_env = ex_env\<lparr>prefix_proof := (\<lambda>_. ((), [(create_state_key ''A'' 1, py_str 10)]))\<rparr>"

lemma ex_query_state: "st_get ms_store (tk_state ex_db) k False = (if k = create_state_key ''A'' 1 then Some (py_str 10) else None)"
  by (simp add: ex_db_def one_output_db_def ms_store_def)

lemma ex_query_facts:
  "reads_prefix ms_store (tk_state ex_db) ex_query_env ''A''" "own_keys ms_store (tk_state ex_db) ''A''"
  by (auto simp: reads_prefix_def own_keys_def ex_query_state ex_query_env_def ex_env_def prefix_state_key)

theorem get_utxo_shows_cache_witness:
  "\<exists>k us. fetch_pages k ex_query_env ex_get = Some (Inr us) \<and> set us = {mk_output ''A'' 1 (Some 10)}"
proof -
  have c: "CHR '':'' \<notin> set ''A''" by simp
  have z: "\<forall>p\<in>set (token_utxos okv_store False ex_db ''A''). fst p \<noteq> 0"
    using ex_db_utxos by (simp add: ex_utxos_def)
  obtain k us where "fetch_pages k ex_query_env ex_get = Some (Inr us)"
    "set us = {mk_output ''A'' n (Some m) | n m. (n, m) \<in> set (token_utxos okv_store False ex_db ''A'')}"
    using get_utxo_shows_cache [OF ex_db_wf ex_query_facts c ex_get_facts(2,3) z]
    by (elim exE conjE) (erule (1) that)
  moreover from this(2) have "set us = {mk_output ''A'' 1 (Some 10)}" by (auto simp: ex_utxos_def)
  ultimately show ?thesis by blast
qed

end
