(* ===== verification/Fees_In_Force.thy ===== *)
theory Fees_In_Force
  imports Fees_Authorizer
begin

text \<open>
  The config ledger over time: SET_FEES transactions are applied in batches, uncommitted batches are
  rejected from the back by reverting the config state to the head before the batch, and committed
  from the front (\<open>config_run\<close>). Reverting and committing are plenum's.

  \<open>fee_in_force\<close> reads the fee of an alias off the history alone: it is what the newest transaction
  that is still there and names the alias has set. The property is that the authorizer charges
  exactly this fee.
\<close>

section \<open>The config ledger\<close>

text \<open>The transactions of a batch. An \<open>update_state\<close> that raises does so before it has written.\<close>

fun apply_set_fees :: "'s state_store \<Rightarrow> fees_serializer \<Rightarrow> fees_dict list \<Rightarrow> 's \<Rightarrow> 's" where
  "apply_set_fees st fs [] s = s"
| "apply_set_fees st fs (F # Fs) s =
     apply_set_fees st fs Fs (case set_fees_update_state st fs F s of Inl e \<Rightarrow> s | Inr s' \<Rightarrow> s')"

text \<open>A run ends in a config state, with the transactions of the committed batches and, for each
  uncommitted batch, the head before it and its transactions. A transaction's fees are a Python
  dictionary, which has each alias once. Other transactions of the config ledger write other keys.\<close>

inductive config_run :: "'s state_store \<Rightarrow> fees_serializer \<Rightarrow> ('s \<Rightarrow> 's) \<Rightarrow> 's \<Rightarrow> 's \<Rightarrow> fees_dict list
    \<Rightarrow> (string \<times> fees_dict list) list \<Rightarrow> bool" for st fs commit_state s0 where
  at_start: "config_run st fs commit_state s0 s0 [] []"
| apply_batch: "config_run st fs commit_state s0 s Fs bs \<Longrightarrow> \<forall>F\<in>set Gs. distinct (map fst F) \<Longrightarrow>
    config_run st fs commit_state s0 (apply_set_fees st fs Gs s) Fs (bs @ [(st_headHash st s, Gs)])"
| other_write: "config_run st fs commit_state s0 s Fs bs \<Longrightarrow> k \<noteq> build_path_for_set_fees None \<Longrightarrow>
    config_run st fs commit_state s0 (st_set st s k v) Fs bs"
| reject_last: "config_run st fs commit_state s0 s Fs (bs @ [(r, Gs)]) \<Longrightarrow>
    config_run st fs commit_state s0 (st_revertToHead st s r) Fs bs"
| commit_first: "config_run st fs commit_state s0 s Fs ((r, Gs) # bs) \<Longrightarrow>
    config_run st fs commit_state s0 (commit_state s) (Fs @ Gs) bs"

text \<open>The transactions that are still there, oldest first.\<close>

definition standing :: "fees_dict list \<Rightarrow> (string \<times> fees_dict list) list \<Rightarrow> fees_dict list" where
  "standing Fs bs = Fs @ concat (map snd bs)"

definition fee_in_force :: "fees_dict \<Rightarrow> fees_dict list \<Rightarrow> string \<Rightarrow> int" where
  "fee_in_force d Fs a = (case find (\<lambda>F. a \<in> fst ` set F) (rev Fs) of
     Some F \<Rightarrow> the (map_of F a)
   | None \<Rightarrow> (case map_of d a of Some n \<Rightarrow> n | None \<Rightarrow> 0))"

section \<open>The state holds the standing transactions\<close>

definition merged :: "fees_dict \<Rightarrow> fees_dict list \<Rightarrow> fees_dict" where
  "merged d Fs = foldl dict_update d Fs"

lemma merged_simps [simp]: "merged d [] = d" "merged d (Fs @ Gs) = merged (merged d Fs) Gs"
  "merged d (F # Fs) = merged (dict_update d F) Fs"
  by (simp_all add: merged_def)

lemma merged_in_force:
  assumes "\<forall>F\<in>set Fs. distinct (map fst F)"
  shows "fee_in_force d Fs a = (case map_of (merged d Fs) a of Some n \<Rightarrow> n | None \<Rightarrow> 0)"
  using assms
proof (induction Fs rule: rev_induct)
  case (snoc F Fs)
  then have m: "map_of (merged d (Fs @ [F])) a = (map_of (merged d Fs) ++ map_of F) a"
    by (simp add: map_of_dict_update)
  show ?case
  proof (cases "a \<in> fst ` set F")
    case True
    then obtain n where "map_of F a = Some n" by (metis map_of_eq_None_iff not_None_eq)
    with m True show ?thesis by (simp add: fee_in_force_def map_add_def)
  next
    case False
    then have "map_of F a = None" by (simp add: map_of_eq_None_iff)
    with m False snoc show ?thesis by (simp add: fee_in_force_def map_add_def)
  qed
qed (simp add: fee_in_force_def)

text \<open>What plenum's commit promises: the head stays what it is and no head is lost.\<close>

locale config_ledger = state_head_store st known + fees_codec fs
  for st :: "'s state_store" and known and fs :: fees_serializer +
  fixes commit_state :: "'s \<Rightarrow> 's"
  assumes commit_head: "st_headHash st (commit_state s) = st_headHash st s"
    and commit_known: "known s r \<Longrightarrow> known (commit_state s) r"

sublocale config_ledger \<subseteq> fees_store st fs
  by unfold_locales

context config_ledger
begin

definition holds :: "'s \<Rightarrow> fees_dict \<Rightarrow> bool" where
  "holds s d \<longleftrightarrow> get_fees_from_state st fs s = Inr (FeesDict d)"

lemma holds_head: "st_headHash st s = st_headHash st t \<Longrightarrow> holds s d = holds t d"
  using head_contents [of s t] by (simp add: holds_def get_fees_from_state_def)

lemma holds_other: "holds s d \<Longrightarrow> k \<noteq> build_path_for_set_fees None \<Longrightarrow> holds (st_set st s k v) d"
  by (simp add: holds_def get_fees_from_state_def st_get_set)

lemma holds_get: "holds s d \<Longrightarrow> \<exists>fees. get_fee_from_state st fs s None False = Inr fees \<and>
    (fees = None \<and> d = [] \<or> fees = Some (FeesDict d))"
  by (auto simp: holds_def get_fees_from_state_def get_fee_from_state_def read_fees_def swallow_KeyError_def
      split: option.splits list.splits)

lemma set_holds: "holds (set_to_state st fs (build_path_for_set_fees None) (FeesDict d) s) d"
  using serialize_nonempty [of "FeesDict d"] deserialize_serialize [of "FeesDict d"]
  by (auto simp: holds_def get_fees_from_state_def set_to_state_def st_get_set split: list.splits)

lemma holds_due: "holds s d \<Longrightarrow> fee_due st fs s (Some [(FEES_FIELD_NAME, a)]) = Inr (case map_of d a of Some n \<Rightarrow> n | None \<Rightarrow> 0)"
  by (auto simp: holds_def fee_due_def fees_get_def get_fees_alias_from_constraint_def split: option.splits)

lemma set_fees_holds:
  assumes "holds s d"
  shows "\<exists>s'. set_fees_update_state st fs F s = Inr s' \<and> holds s' (dict_update d F)"
  using holds_get [OF assms] set_holds
  by (auto simp: set_fees_update_state_def current_dict_def Let_def)

lemma set_fees_known: "set_fees_update_state st fs F s = Inr s' \<Longrightarrow> known s r \<Longrightarrow> known s' r"
proof -
  assume "set_fees_update_state st fs F s = Inr s'" "known s r"
  moreover have "known s r \<Longrightarrow> known (foldl (\<lambda>s p. set_to_state st fs (build_path_for_set_fees (Some (fst p))) (FeeAmount (snd p)) s) s F) r"
    for s by (induction F arbitrary: s) (simp_all add: set_to_state_def known_set)
  ultimately show ?thesis by (auto simp: set_fees_update_state_def ebind_Inr_iff Let_def set_to_state_def known_set)
qed

lemma apply_holds:
  assumes "holds s d" "known s r"
  shows "holds (apply_set_fees st fs Fs s) (merged d Fs)" "known (apply_set_fees st fs Fs s) r"
proof -
  have "holds (apply_set_fees st fs Fs s) (merged d Fs) \<and> known (apply_set_fees st fs Fs s) r"
    using assms
  proof (induction Fs arbitrary: s d)
    case (Cons F Fs)
    obtain s' where "set_fees_update_state st fs F s = Inr s'" "holds s' (dict_update d F)"
      using set_fees_holds [OF Cons.prems(1)] by blast
    then show ?case using Cons.IH [of s' "dict_update d F"] set_fees_known Cons.prems(2) by simp
  qed simp
  then show "holds (apply_set_fees st fs Fs s) (merged d Fs)" "known (apply_set_fees st fs Fs s) r" by blast+
qed

text \<open>The root kept for the uncommitted batch \<open>k\<close> is that of a state with the fees before it.\<close>

definition config_ok :: "fees_dict \<Rightarrow> 's \<Rightarrow> fees_dict list \<Rightarrow> (string \<times> fees_dict list) list \<Rightarrow> bool" where
  "config_ok d s Fs bs \<longleftrightarrow> holds s (merged d (standing Fs bs)) \<and>
     (\<forall>us r Gs vs. bs = us @ (r, Gs) # vs \<longrightarrow> known s r \<and>
       (\<exists>t. st_headHash st t = r \<and> holds t (merged d (standing Fs us)))) \<and>
     (\<forall>F\<in>set (standing Fs bs). distinct (map fst F))"

lemma config_run_ok:
  assumes "config_run st fs commit_state s0 s Fs bs" "holds s0 d"
  shows "config_ok d s Fs bs"
  using assms(1)
proof induction
  case at_start
  then show ?case using assms(2) by (simp add: config_ok_def standing_def)
next
  case (apply_batch s Fs bs Gs)
  let ?s = "apply_set_fees st fs Gs s"
  have old: "holds s (merged d (standing Fs bs))" using apply_batch.IH by (simp add: config_ok_def)
  have roots: "known ?s r \<and> (\<exists>t. st_headHash st t = r \<and> holds t (merged d (standing Fs us)))"
    if "bs @ [(st_headHash st s, Gs)] = us @ (r, Hs) # vs" for us r Hs vs
  proof (cases vs rule: rev_cases)
    case Nil
    then have "us = bs" "r = st_headHash st s" using that by auto
    then show ?thesis using old apply_holds(2) [OF old known_head] by blast
  next
    case (snoc ws w)
    then have "bs = us @ (r, Hs) # ws" using that by simp
    then show ?thesis using apply_batch.IH apply_holds(2) [OF old] unfolding config_ok_def by blast
  qed
  show ?case
    unfolding config_ok_def
    using roots apply_holds(1) [OF old known_head, of Gs] apply_batch.IH apply_batch.hyps(2)
    by (auto simp: standing_def config_ok_def)
next
  case (other_write s Fs bs k v)
  then have "holds (st_set st s k v) (merged d (standing Fs bs))" by (simp add: config_ok_def holds_other)
  moreover have "known (st_set st s k v) x" if "known s x" for x using that by (rule known_set)
  ultimately show ?case using other_write.IH unfolding config_ok_def by blast
next
  case (reject_last s Fs bs r Gs)
  then have r: "known s r" "\<exists>t. st_headHash st t = r \<and> holds t (merged d (standing Fs bs))"
    by (auto simp: config_ok_def)
  then have "holds (st_revertToHead st s r) (merged d (standing Fs bs))"
    using holds_head revert_head by metis
  moreover have "known (st_revertToHead st s r) x \<and> (\<exists>t. st_headHash st t = x \<and> holds t (merged d (standing Fs us)))"
    if "bs = us @ (x, Hs) # vs" for us x Hs vs
  proof -
    have "bs @ [(r, Gs)] = us @ (x, Hs) # (vs @ [(r, Gs)])" using that by simp
    then have "known s x \<and> (\<exists>t. st_headHash st t = x \<and> holds t (merged d (standing Fs us)))"
      using reject_last.IH unfolding config_ok_def by blast
    then show ?thesis using known_revert r(1) by blast
  qed
  ultimately show ?case using reject_last.IH by (auto simp: config_ok_def standing_def)
next
  case (commit_first s Fs r Gs bs)
  have "known (commit_state s) x \<and> (\<exists>t. st_headHash st t = x \<and> holds t (merged d (standing (Fs @ Gs) us)))"
    if "bs = us @ (x, Hs) # vs" for us x Hs vs
  proof -
    have "(r, Gs) # bs = ((r, Gs) # us) @ (x, Hs) # vs" using that by simp
    then have "known s x \<and> (\<exists>t. st_headHash st t = x \<and> holds t (merged d (standing Fs ((r, Gs) # us))))"
      using commit_first.IH unfolding config_ok_def by blast
    then show ?thesis using commit_known by (auto simp: standing_def)
  qed
  then show ?case
    using commit_first.IH holds_head [OF commit_head, of s] by (auto simp: config_ok_def standing_def)
qed

end

section \<open>The fees that are charged\<close>

text \<open>C6: Whatever batches of SET_FEES transactions a node has applied, rejected and committed, the fee of
  a rule is what the newest transaction that is still there has set for the rule's alias, and
  zero for an alias that none has set; the authorizer lets a transfer or a request with fees
  through exactly when it pays this fee from unspent inputs, no more and no less.\<close>

theorem fees_in_force_charged:
  assumes "config_ledger st known fs commit_state" "get_fees_from_state st fs s0 = Inr (FeesDict d)"
    and "config_run st fs commit_state s0 s Fs bs" "cache_wf kv False c" "fee_parts req ins outs"
    and "op_type (req_operation req) = XFER_PUBLIC \<or> has_fees req"
  shows "fee_due st fs s (Some [(FEES_FIELD_NAME, a)]) = Inr (fee_in_force d (standing Fs bs) a) \<and>
    (\<exists>msg. authorize st fs kv str_ex req (Some [(FEES_FIELD_NAME, a)]) s c =
      Inr (pays_exactly (cache_utxos kv False c) ins outs (fee_in_force d (standing Fs bs) a), msg))"
proof -
  have "config_ledger.config_ok st known fs d s Fs bs"
    by (rule config_ledger.config_run_ok [OF assms(1,3)]) (simp add: config_ledger.holds_def [OF assms(1)] assms(2))
  then have h: "config_ledger.holds st fs s (merged d (standing Fs bs))" "\<forall>F\<in>set (standing Fs bs). distinct (map fst F)"
    by (simp_all add: config_ledger.config_ok_def [OF assms(1)])
  have due: "fee_due st fs s (Some [(FEES_FIELD_NAME, a)]) = Inr (fee_in_force d (standing Fs bs) a)"
    using config_ledger.holds_due [OF assms(1) h(1)] merged_in_force [OF h(2)] by simp
  show ?thesis by (rule conjI [OF due authorize_parts [OF assms(4) due assms(5,6)]])
qed

text \<open>A fee of two is applied, one of four is applied and the first batch is committed; the example
  request pays four tokens.\<close>

interpretation ref_config: config_ledger ms_store ms_known ref_fs "\<lambda>s. s\<lparr>ms_committed := ms_head s\<rparr>"
  by unfold_locales (simp_all add: ms_store_def ms_known_def)

definition ex_config_state :: ms where
  "ex_config_state = (let s = apply_set_fees ms_store ref_fs [[(''nym'', 4)]] (apply_set_fees ms_store ref_fs [[(''nym'', 2)]] ms_empty)
     in s\<lparr>ms_committed := ms_head s\<rparr>)"

lemma ex_config_run: "config_run ms_store ref_fs (\<lambda>s. s\<lparr>ms_committed := ms_head s\<rparr>) ms_empty ex_config_state [[(''nym'', 2)]]
    [(st_headHash ms_store (apply_set_fees ms_store ref_fs [[(''nym'', 2)]] ms_empty), [[(''nym'', 4)]])]"
proof -
  let ?run = "config_run ms_store ref_fs (\<lambda>s. s\<lparr>ms_committed := ms_head s\<rparr>) ms_empty"
  let ?s1 = "apply_set_fees ms_store ref_fs [[(''nym'', 2)]] ms_empty"
  have "?run ?s1 [] [(st_headHash ms_store ms_empty, [[(''nym'', 2)]])]"
    using config_run.apply_batch [OF config_run.at_start, of "[[(''nym'', 2)]]"] by (simp del: apply_set_fees.simps)
  then have "?run (apply_set_fees ms_store ref_fs [[(''nym'', 4)]] ?s1) []
      [(st_headHash ms_store ms_empty, [[(''nym'', 2)]]), (st_headHash ms_store ?s1, [[(''nym'', 4)]])]"
    using config_run.apply_batch [where Gs = "[[(''nym'', 4)]]"] by (fastforce simp del: apply_set_fees.simps)
  from config_run.commit_first [OF this] show ?thesis
    by (simp add: ex_config_state_def Let_def del: apply_set_fees.simps)
qed

theorem fees_in_force_charged_witness:
  "fee_due ms_store ref_fs ex_config_state ex_md = Inr 4 \<and>
   (\<exists>msg. authorize ms_store ref_fs okv_store (\<lambda>_. ''no'') ex_nym ex_md ex_config_state (tk_cache ex_db) = Inr (True, msg))"
proof -
  have e: "get_fees_from_state ms_store ref_fs ms_empty = Inr (FeesDict [])" by code_simp
  have p: "fee_parts ex_nym [ex_input] [ex_change]" "op_type (req_operation ex_nym) = XFER_PUBLIC \<or> has_fees ex_nym"
    by (simp_all add: fee_parts_def ex_nym_def has_fees_def fees_inputs_def get_change_for_fees_def txn_type_defs)
  have "fee_in_force [] (standing [[(''nym'', 2)]] [(r, [[(''nym'', 4)]])]) ''nym'' = 4" for r
    by (simp add: fee_in_force_def standing_def)
  then show ?thesis
    using fees_in_force_charged [OF ref_config.config_ledger_axioms e ex_config_run ex_cache_wf(1) p, of "''nym''" "\<lambda>_. ''no''"]
      ex_pays ex_cache_wf(2) by (simp add: FEES_FIELD_NAME_def)
qed

end
