(* ===== verification/Tracked_Batches.thy ===== *)
theory Tracked_Batches
  imports Batch_Runs
begin

text \<open>
  What \<open>BatchFeesTracker\<close> knows over the runs of \<open>Batch_Runs\<close>. A commit of the domain ledger asks the
  tracker which of the batch's transactions had fees; the tracker answers from the type and the
  sequence number, and it never forgets an entry, not even when the batch is rejected.

  \<open>tracked_run\<close> is \<open>batch_run\<close> with the transactions of each queued batch beside its snapshot. The
  lemmas say that, as long as no number of a rejected fee is used again, the tracker tells the
  batches with fees from those without; the property says what happens when one is.
\<close>

section \<open>The transactions of a batch\<close>

text \<open>The requests of a domain batch that were applied without an exception.\<close>

fun applied :: "('s, 'c, 'l, 't) batch_env \<Rightarrow> (request \<times> domain_txn) list \<Rightarrow> ('s, 'c, 'l, 't) fees_db
    \<Rightarrow> (request \<times> domain_txn) list" where
  "applied B [] db = []"
| "applied B ((req, prev) # rs) db =
     (case domain_apply_request (be_st B) (be_kv B) (be_lg B) (be_ledger_id B) req prev db of
        (Inl e, d) \<Rightarrow> applied B rs d
      | (Inr t, d) \<Rightarrow> (req, t) # applied B rs d)"

abbreviation apply_batch_requests :: "('s, 'c, 'l, 't) batch_env \<Rightarrow> (request \<times> domain_txn) list
    \<Rightarrow> ('s, 'c, 'l, 't) fees_db \<Rightarrow> ('s, 'c, 'l, 't) fees_db" where
  "apply_batch_requests B \<equiv> apply_requests (be_st B) (be_kv B) (be_lg B) (be_ledger_id B)"

abbreviation domain_batch_applied :: "('s, 'c, 'l, 't) batch_env \<Rightarrow> ('s, 'c, 'l, 't) fees_db \<Rightarrow> ('s, 'c, 'l, 't) fees_db" where
  "domain_batch_applied B \<equiv> fee_post_batch_applied (be_st B) (be_kv B) (be_lg B) (be_tr B)"

text \<open>Where the transaction of a request has the request's type.\<close>

definition typed :: "(request \<times> domain_txn) list \<Rightarrow> bool" where
  "typed rs \<longleftrightarrow> (\<forall>r\<in>set rs. dt_type (snd r) = op_type (req_operation (fst r)))"

lemma update_keeps_tracker:
  fixes db :: "('s, 'c, 'l, 't) fees_db"
  shows "fd_fees_tracker (snd (update_token_state st kv t False db)) = fd_fees_tracker db"
  by (rule update_token_state_inv [where P = "\<lambda>d. fd_fees_tracker d = fd_fees_tracker db"])
    (simp_all add: spend_add_fields)

text \<open>A request changes the tracker when it has fees and is applied to the end.\<close>

lemma request_tracker:
  fixes db :: "('s, 'c, 'l, 't) fees_db"
  assumes "domain_apply_request st kv lg ledger_id req prev db = (r, d)"
  shows "r = Inl e \<Longrightarrow> fd_fees_tracker d = fd_fees_tracker db"
    and "r = Inr t \<Longrightarrow> t = prev \<and> (if has_fees req
      then \<exists>fees. fd_fees_tracker d = add_deducted_fees (op_type (req_operation req)) (dt_seqNo prev) fees
        ((fd_fees_tracker db)\<lparr>fees_in_current_batch := fees_in_current_batch (fd_fees_tracker db) + 1\<rparr>)
      else d = db)"
proof -
  have u: "fd_fees_tracker d' = fd_fees_tracker d" if "update_token_state st kv t False d = (r', d')"
    for t d' r' and d :: "('s, 'c, 'l, 't) fees_db"
    using update_keeps_tracker [of st kv t d] that by simp
  show "r = Inl e \<Longrightarrow> fd_fees_tracker d = fd_fees_tracker db"
    using assms u
    by (auto simp: domain_apply_request_def pbind_def pseq_def plift_def split: if_splits sum.splits prod.splits)
  show "r = Inr t \<Longrightarrow> t = prev \<and> (if has_fees req
      then \<exists>fees. fd_fees_tracker d = add_deducted_fees (op_type (req_operation req)) (dt_seqNo prev) fees
        ((fd_fees_tracker db)\<lparr>fees_in_current_batch := fees_in_current_batch (fd_fees_tracker db) + 1\<rparr>)
      else d = db)"
    using assms u
    by (auto simp: domain_apply_request_def pbind_def pseq_def plift_def split: if_splits sum.splits prod.splits)
qed

lemma applied_from: "set (applied B rs db) \<subseteq> set rs"
proof (induction rs arbitrary: db)
  case (Cons r rs)
  obtain req prev where r: "r = (req, prev)" by (cases r)
  obtain x d where d: "domain_apply_request (be_st B) (be_kv B) (be_lg B) (be_ledger_id B) req prev db = (x, d)" by fastforce
  show ?case
    using Cons.IH [of d] request_tracker(2) [OF d] d r by (cases x) auto
qed simp

lemma applied_all:
  "\<forall>r\<in>set rs. \<not> has_fees (fst r) \<Longrightarrow> applied B rs db = rs"
  by (induction rs) (auto simp: domain_apply_request_def)

lemma requests_step:
  assumes "domain_apply_request (be_st B) (be_kv B) (be_lg B) (be_ledger_id B) req prev db = (x, d)"
  shows "applied B ((req, prev) # rs) db = (case x of Inl e \<Rightarrow> applied B rs d | Inr t \<Rightarrow> (req, t) # applied B rs d)"
    "apply_batch_requests B ((req, prev) # rs) db = apply_batch_requests B rs d"
  by (simp_all add: assms)

lemma tracker_fields:
  "has_deducted_fees u m (t\<lparr>fees_in_current_batch := n\<rparr>) = has_deducted_fees u m t"
  "fees_in_current_batch (add_deducted_fees a b c t) = fees_in_current_batch t"
  by (simp_all add: has_deducted_fees_def add_deducted_fees_def)

text \<open>After the requests of a batch the tracker has the entries it had and those of the applied requests
  with fees, and has counted these.\<close>

lemma requests_deducted:
  "has_deducted_fees u m (fd_fees_tracker (apply_batch_requests B rs db)) \<longleftrightarrow>
    has_deducted_fees u m (fd_fees_tracker db) \<or>
    (\<exists>r\<in>set (applied B rs db). has_fees (fst r) \<and> u = op_type (req_operation (fst r)) \<and> m = dt_seqNo (snd r))"
proof (induction rs arbitrary: db)
  case (Cons r rs)
  obtain req prev where r: "r = (req, prev)" by (cases r)
  obtain x d where d: "domain_apply_request (be_st B) (be_kv B) (be_lg B) (be_ledger_id B) req prev db = (x, d)" by fastforce
  show ?case
    unfolding r requests_step [OF d] Cons.IH
    using request_tracker [OF d] by (cases x) (auto simp: tracker_exact tracker_fields split: if_splits)
qed simp

lemma requests_count:
  "fees_in_current_batch (fd_fees_tracker (apply_batch_requests B rs db)) =
    fees_in_current_batch (fd_fees_tracker db) + int (length (filter (\<lambda>r. has_fees (fst r)) (applied B rs db)))"
proof (induction rs arbitrary: db)
  case (Cons r rs)
  obtain req prev where r: "r = (req, prev)" by (cases r)
  obtain x d where d: "domain_apply_request (be_st B) (be_kv B) (be_lg B) (be_ledger_id B) req prev db = (x, d)" by fastforce
  show ?case
    unfolding r requests_step [OF d] Cons.IH
    using request_tracker [OF d] by (cases x) (auto simp: tracker_fields split: if_splits)
qed simp

lemma batch_tracker_applied:
  "has_deducted_fees u m (fd_fees_tracker (domain_batch_applied B db)) = has_deducted_fees u m (fd_fees_tracker db)"
  by (simp add: fee_post_batch_applied_def Let_def has_deducted_fees_def)

section \<open>A stale entry\<close>

lemma reject_keeps_tracker: "fd_fees_tracker (snd (reject_batch B p s db)) = fd_fees_tracker db"
  by (simp add: reject_batch_def token_batch_rejected_def token_post_batch_rejected_def fee_post_batch_rejected_def
      tracker_post_batch_rejected_def Let_def split: sum.split prod.split)

lemma with_fees_iff: "k \<in> set (with_fees ft ts) \<longleftrightarrow> (\<exists>t\<in>set ts. has_deducted_fees (dt_type t) (dt_seqNo t) ft \<and> dt_seqNo t = k)"
  by (auto simp: with_fees_def)

context batch_machine
begin

text \<open>A plain batch with nothing before it cannot be committed with transactions that the tracker takes
  for ones with fees: the cache has no batch to commit.\<close>

lemma plain_commit_raises:
  assumes "queue_ok db [p, s]" "sn_kind s = PlainBatch" "with_fees (fd_fees_tracker db) ts \<noteq> []"
  shows "\<exists>e db'. fee_commit_batch (be_b58decode B) (be_serialize_root B) (be_kv B) (be_tr B) (be_base_commit B) batch ts db =
    (Inl e, db')"
proof -
  obtain sr xr n psr pxr pn where ms: "sn_mark B s = (sr, xr, n)" "sn_mark B p = (psr, pxr, pn)"
    by (metis prod_cases3)
  then have "view (fd_token_tracker db) = ((psr, pxr, pn), [(sr, xr, n)])"
    using assms(1) by (simp add: queue_ok_def)
  then obtain t where t: "tr_commit_batch (be_tr B) (fd_token_tracker db) = Inr ((sr, xr, n - pn), t)"
    using T.commit_law by metis
  have none: "unc (tk_cache db) = []" using assms(1,2) by (simp add: queue_ok_def)
  let ?fake = "token_fake_three_pc_batch (be_serialize_root B) batch sr xr (length (with_fees (fd_fees_tracker db) ts))"
  show ?thesis
  proof (cases "be_base_commit B (fd_ledger db) (tk_state db) ?fake")
    case (Inl e)
    then show ?thesis using t assms(3) by (simp add: fee_commit_batch_def with_fees_def Let_def)
  next
    case (Inr r)
    obtain fts l st' where r: "r = (fts, l, st')" by (metis prod_cases3)
    obtain e where "commit_to_utxo_cache (be_b58decode B) (be_kv B) (RootBytes sr) (tk_cache db) = Inl e"
      by (rule K.commit_none [OF none])
    then show ?thesis
      using fee_commit_unfold [where base_commit = "be_base_commit B", OF t assms(3) Inr [unfolded r]] by (simp add: Let_def)
  qed
qed

lemma stale_run:
  assumes "batch_run B db0 db [p]" "in_step (be_st B) (be_lg B) view cur db0"
    and "snd (view (fd_token_tracker db0)) = []" "unc (tk_cache db0) = []"
    and "(req, t) \<in> set (applied B rs db)" "has_fees req" "db1 = apply_batch_requests B rs db"
    and "apart (mark_of B (tk_state db1) (fd_ledger db1)) (mark_of B (tk_state db) (fd_ledger db))"
    and "db2 = domain_batch_applied B db1"
    and "\<forall>r\<in>set rs'. \<not> has_fees (fst r)" "t' \<in> snd ` set rs'"
    and "dt_type t' = op_type (req_operation req)" "dt_seqNo t' = dt_seqNo t"
  shows "\<exists>db3 db4. reject_batch B p (snap B FeeBatch db2) db2 = (Inr (), db3) \<and>
    db4 = domain_batch_applied B (apply_batch_requests B rs' db3) \<and>
    dt_seqNo t' \<in> set (with_fees (fd_fees_tracker db4) (map snd rs')) \<and>
    (\<exists>e db5. fee_commit_batch (be_b58decode B) (be_serialize_root B) (be_kv B) (be_tr B) (be_base_commit B) batch
       (map snd rs') db4 = (Inl e, db5))"
proof -
  have ok: "queue_ok db [p]" by (rule run_from_start [OF assms(1-4)])
  have "filter (\<lambda>r. has_fees (fst r)) (applied B rs db) \<noteq> []"
    using assms(5,6) by (force simp: filter_empty_conv)
  then have "fees_in_current_batch (fd_fees_tracker db1) > 0"
    using ok requests_count [of B rs db] by (simp add: assms(7) queue_ok_def)
  from apply_fees_ok [OF ok assms(7) this assms(8,9)]
  obtain db3 where db3: "reject_batch B p (snap B FeeBatch db2) db2 = (Inr (), db3)" "queue_ok db3 [p]"
    using reject_ok [of db2 "[p]" "snap B FeeBatch db2"] by auto
  define db4 where "db4 = domain_batch_applied B (apply_batch_requests B rs' db3)"
  have ok4: "queue_ok db4 [p, snap B PlainBatch db4]"
    using apply_plain_ok [OF db3(2) assms(10) refl db4_def] by simp
  have "has_deducted_fees (dt_type t') (dt_seqNo t') (fd_fees_tracker db1)"
    unfolding assms(7,12,13) requests_deducted by (rule disjI2, rule bexI [OF _ assms(5)]) (simp add: assms(6))
  then have "has_deducted_fees (dt_type t') (dt_seqNo t') (fd_fees_tracker db3)"
    using reject_keeps_tracker [of B p "snap B FeeBatch db2" db2] db3(1) by (simp add: assms(9) batch_tracker_applied)
  then have "has_deducted_fees (dt_type t') (dt_seqNo t') (fd_fees_tracker db4)"
    by (simp add: db4_def batch_tracker_applied requests_deducted)
  then have w: "dt_seqNo t' \<in> set (with_fees (fd_fees_tracker db4) (map snd rs'))"
    using assms(11) by (auto simp: with_fees_iff)
  then have "with_fees (fd_fees_tracker db4) (map snd rs') \<noteq> []" by auto
  from plain_commit_raises [OF ok4 _ this] w db3(1) db4_def show ?thesis by (auto simp: snap_def)
qed

end

text \<open>C18: The tracker of deducted fees never forgets. Take a node with no uncommitted batch: a batch of the
  domain ledger with a request that pays a fee is applied (it changes root and size of the token ledger and the
  root of its state) and rejected, then a batch of requests
  without fees is applied, one of them with a transaction of the same type and sequence number.
  The tracker still takes this transaction for one with fees, and the commit of the batch
  raises, because the token side has no batch to commit.\<close>

theorem stale_deducted_fees:
  fixes db0 :: "('s, 'c, 'l, 't) fees_db"
  assumes "batch_machine B known com unc cur rd rd_new view txns base"
    and "in_step (be_st B) (be_lg B) view cur db0" "snd (view (fd_token_tracker db0)) = []" "unc (tk_cache db0) = []"
    and "batch_run B db0 db [p]"
    and "(req, t) \<in> set (applied B rs db)" "has_fees req" "db1 = apply_batch_requests B rs db"
    and "apart (mark_of B (tk_state db1) (fd_ledger db1)) (mark_of B (tk_state db) (fd_ledger db))"
    and "db2 = domain_batch_applied B db1"
    and "\<forall>r\<in>set rs'. \<not> has_fees (fst r)" "t' \<in> snd ` set rs'"
    and "dt_type t' = op_type (req_operation req)" "dt_seqNo t' = dt_seqNo t"
  shows "\<exists>db3 db4. reject_batch B p (snap B FeeBatch db2) db2 = (Inr (), db3) \<and>
    db4 = domain_batch_applied B (apply_batch_requests B rs' db3) \<and>
    dt_seqNo t' \<in> set (with_fees (fd_fees_tracker db4) (map snd rs')) \<and>
    (\<exists>e db5. fee_commit_batch (be_b58decode B) (be_serialize_root B) (be_kv B) (be_tr B) (be_base_commit B) batch
       (map snd rs') db4 = (Inl e, db5))"
  by (rule batch_machine.stale_run [OF assms(1,5,2-4,6-14)])

text \<open>The paying request of the example is rejected, then a request without fees gets its number.\<close>

definition ex_free :: request where
  "ex_free = ex_nym\<lparr>req_fees := FeesAbsent\<rparr>"

lemma ex_applied: "applied ref_env [(ex_nym, ex_domain_txn)] ex_rdb = [(ex_nym, ex_domain_txn)]"
proof -
  have "length (applied ref_env [(ex_nym, ex_domain_txn)] ex_rdb) = 1" by code_simp
  then obtain r where "applied ref_env [(ex_nym, ex_domain_txn)] ex_rdb = [r]" by (auto simp: length_Suc_conv)
  then show ?thesis using applied_from [of ref_env "[(ex_nym, ex_domain_txn)]" ex_rdb] by simp
qed

theorem stale_deducted_fees_witness:
  "\<exists>db3 db4. reject_batch ref_env (snap ref_env PlainBatch ex_rdb) (snap ref_env FeeBatch ex_rdb2) ex_rdb2 = (Inr (), db3) \<and>
    db4 = domain_batch_applied ref_env (apply_batch_requests ref_env [(ex_free, ex_domain_txn)] db3) \<and>
    (\<exists>e db5. fee_commit_batch Some (\<lambda>r. r) okv_store ref_tracker ex_base_commit ex_batch [ex_domain_txn] db4 = (Inl e, db5))"
proof -
  have a: "(ex_nym, ex_domain_txn) \<in> set (applied ref_env [(ex_nym, ex_domain_txn)] ex_rdb)"
    unfolding ex_applied by simp
  have f: "has_fees ex_nym" "\<forall>r\<in>set [(ex_free, ex_domain_txn)]. \<not> has_fees (fst r)"
    "ex_domain_txn \<in> snd ` set [(ex_free, ex_domain_txn)]" "dt_type ex_domain_txn = op_type (req_operation ex_nym)"
    by (simp_all add: has_fees_def ex_nym_def ex_free_def ex_domain_txn_def)
  have d: "ex_rdb1 = apply_batch_requests ref_env [(ex_nym, ex_domain_txn)] ex_rdb"
    "ex_rdb2 = domain_batch_applied ref_env ex_rdb1" by (simp_all only: ref_env_sel ex_rdb1_def ex_rdb2_def)
  have start: "in_step (be_st ref_env) (be_lg ref_env) (\<lambda>t. t) okv_cur ex_rdb" "snd (fd_token_tracker ex_rdb) = []"
    "okv_unc (tk_cache ex_rdb) = []"
    using ex_rdb_in_step ex_rdb_clean by (simp_all only: ref_env_sel)
  show ?thesis
    using stale_deducted_fees [OF ref_runs.batch_machine_axioms start batch_run.at_start a f(1) d(1) ex_rdb_facts(2) d(2) f(2-4) refl,
        of ex_batch] by (elim exE conjE) (intro exI conjI, assumption+, simp)
qed

end
