(* ===== verification/Batch_Commits.thy ===== *)
theory Batch_Commits
  imports Tracked_Batches
begin

text \<open>
  Progress of the commits in the runs of \<open>Batch_Runs\<close>: in a node whose stores match its queue of
  batches, a commit of the oldest batch goes through whenever plenum's own commit of the token
  ledger does, so that the queue can be committed batch by batch.

  \<open>tracked_run\<close> carries the transactions of each queued batch beside its snapshot. Its condition
  \<open>new_numbers\<close> is what keeps the tracker of deducted fees truthful: the transactions of a domain
  batch get numbers that no queued batch has and that, with their type, belong to no fee of an
  earlier batch, in particular of one that was rejected (\<open>Tracked_Batches\<close> shows what happens otherwise). From it follows that the
  tracker tells the queued batches with fees from those without (\<open>tracked_classified\<close>).
\<close>

section \<open>Runs with the transactions of the batches\<close>

definition new_numbers :: "(request \<times> domain_txn) list \<Rightarrow> ('s, 'c, 'l, 't) fees_db
    \<Rightarrow> (('s, 'l) snapshot \<times> domain_txn list) list \<Rightarrow> bool" where
  "new_numbers rs db q \<longleftrightarrow> typed rs \<and> distinct (map (dt_seqNo \<circ> snd) rs) \<and>
     (\<forall>r\<in>set rs. \<not> has_deducted_fees (dt_type (snd r)) (dt_seqNo (snd r)) (fd_fees_tracker db) \<and>
        dt_seqNo (snd r) \<notin> (\<Union>e\<in>set q. dt_seqNo ` set (snd e)))"

text \<open>The steps of \<open>batch_run\<close>, where a domain batch is committed with its own transactions.\<close>

inductive tracked_run :: "('s, 'c, 'l, 't) batch_env \<Rightarrow> ('s, 'c, 'l, 't) fees_db \<Rightarrow> ('s, 'c, 'l, 't) fees_db
    \<Rightarrow> (('s, 'l) snapshot \<times> domain_txn list) list \<Rightarrow> bool" for B db0 where
  tracked_start: "tracked_run B db0 db0 [(snap B PlainBatch db0, [])]"
| tracked_fees: "tracked_run B db0 db q \<Longrightarrow> db1 = apply_batch_requests B rs db \<Longrightarrow>
    fees_in_current_batch (fd_fees_tracker db1) > 0 \<Longrightarrow>
    apart (mark_of B (tk_state db1) (fd_ledger db1)) (mark_of B (tk_state db) (fd_ledger db)) \<Longrightarrow>
    db2 = domain_batch_applied B db1 \<Longrightarrow> new_numbers (applied B rs db) db q \<Longrightarrow>
    tracked_run B db0 db2 (q @ [(snap B FeeBatch db2, map snd (applied B rs db))])"
| tracked_plain: "tracked_run B db0 db q \<Longrightarrow> \<forall>r\<in>set rs. \<not> has_fees (fst r) \<Longrightarrow>
    db2 = domain_batch_applied B (apply_batch_requests B rs db) \<Longrightarrow> new_numbers (applied B rs db) db q \<Longrightarrow>
    tracked_run B db0 db2 (q @ [(snap B PlainBatch db2, map snd (applied B rs db))])"
| tracked_tokens: "tracked_run B db0 db q \<Longrightarrow> db2 = token_batch_applied B (apply_token_txns B ts db) \<Longrightarrow>
    tracked_run B db0 db2 (q @ [(snap B TokenBatch db2, [])])"
| tracked_reject: "tracked_run B db0 db (q @ [e, f]) \<Longrightarrow> reject_batch B (fst e) (fst f) db = (Inr (), db1) \<Longrightarrow>
    tracked_run B db0 db1 (q @ [e])"
| tracked_commit: "tracked_run B db0 db (e # (s, ts) # q) \<Longrightarrow> sn_kind s \<noteq> TokenBatch \<Longrightarrow>
    fee_commit_batch (be_b58decode B) (be_serialize_root B) (be_kv B) (be_tr B) (be_base_commit B) batch ts db = (Inr ts', db1) \<Longrightarrow>
    tracked_run B db0 db1 ((s, ts) # q)"
| tracked_token_commit: "tracked_run B db0 db (e # (s, ts) # q) \<Longrightarrow> sn_kind s = TokenBatch \<Longrightarrow>
    token_batch_committed B batch db = (Inr (), db1) \<Longrightarrow>
    tracked_run B db0 db1 ((s, ts) # q)"

text \<open>The tracker takes the batch for what it is, and the numbers of its transactions differ.\<close>

definition classified :: "fees_tracker \<Rightarrow> ('s, 'l) snapshot \<times> domain_txn list \<Rightarrow> bool" where
  "classified ft e \<longleftrightarrow> (sn_kind (fst e) \<noteq> TokenBatch \<longrightarrow>
     (sn_kind (fst e) = FeeBatch \<longleftrightarrow> with_fees ft (snd e) \<noteq> []) \<and> distinct (map dt_seqNo (snd e)))"

section \<open>What the steps do to the tracker\<close>

lemma with_fees_cong:
  assumes "\<And>t. t \<in> set ts \<Longrightarrow> has_deducted_fees (dt_type t) (dt_seqNo t) ft = has_deducted_fees (dt_type t) (dt_seqNo t) ft'"
  shows "with_fees ft ts = with_fees ft' ts"
  unfolding with_fees_def by (rule arg_cong [where f = "map dt_seqNo"], rule filter_cong) (auto simp: assms)

lemma classified_cong: "deducted_fees ft = deducted_fees ft' \<Longrightarrow> classified ft e = classified ft' e"
  using with_fees_cong [of "snd e" ft ft'] by (simp add: classified_def has_deducted_fees_def)

lemma fee_commit_keeps_deducted:
  "deducted_fees (fd_fees_tracker (snd (fee_commit_batch dec ser kv tr base_commit batch ts db))) = deducted_fees (fd_fees_tracker db)"
proof (cases "tr_commit_batch tr (fd_token_tracker db)")
  case (Inr mt)
  obtain sr xr n t where mt: "mt = ((sr, xr, n), t)" by (metis surj_pair)
  let ?fake = "token_fake_three_pc_batch ser batch sr xr (length (with_fees (fd_fees_tracker db) ts))"
  show ?thesis
  proof (cases "with_fees (fd_fees_tracker db) ts = []")
    case True
    then show ?thesis using Inr mt by (simp add: fee_commit_batch_def with_fees_def)
  next
    case False
    show ?thesis
    proof (cases "base_commit (fd_ledger db) (tk_state db) ?fake")
      case (Inl e)
      then show ?thesis using Inr mt False by (simp add: fee_commit_batch_def with_fees_def Let_def)
    next
      case (Inr r)
      obtain fts l s where r: "r = (fts, l, s)" by (metis prod_cases3)
      note u = fee_commit_unfold [where base_commit = base_commit, OF \<open>_ = Inr mt\<close> [unfolded mt] False Inr [unfolded r]]
      show ?thesis
        unfolding u Let_def
        by (cases "commit_to_utxo_cache dec kv (RootBytes sr) (tk_cache db)";
            cases "attach_fees (with_fees (fd_fees_tracker db) ts) fts ts") simp_all
    qed
  qed
qed (simp add: fee_commit_batch_def)

lemma token_steps_keep_tracker:
  "fd_fees_tracker (snd (token_batch_committed B batch db)) = fd_fees_tracker db"
  "fd_fees_tracker (token_batch_applied B db) = fd_fees_tracker db"
  by (simp_all add: token_batch_committed_def token_batch_applied_def token_post_batch_applied_def
      tracker_post_batch_applied_def tracker_commit_batch_def Let_def split: sum.split prod.split)

text \<open>A domain batch with new numbers is classified, and so are the batches before it as they were.\<close>

lemma new_numbers_old:
  fixes db :: "('s, 'c, 'l, 't) fees_db"
  assumes "new_numbers (applied B rs db) db q" "e \<in> set q" "classified (fd_fees_tracker db) e"
  shows "classified (fd_fees_tracker (domain_batch_applied B (apply_batch_requests B rs db))) e"
proof -
  have "has_deducted_fees (dt_type t) (dt_seqNo t) (fd_fees_tracker (domain_batch_applied B (apply_batch_requests B rs db))) =
      has_deducted_fees (dt_type t) (dt_seqNo t) (fd_fees_tracker db)" if "t \<in> set (snd e)" for t
  proof -
    have "dt_seqNo t \<noteq> dt_seqNo (snd r)" if "r \<in> set (applied B rs db)" for r
      using assms(1,2) \<open>t \<in> set (snd e)\<close> that unfolding new_numbers_def by (metis UN_I imageI)
    then show ?thesis unfolding batch_tracker_applied requests_deducted by blast
  qed
  from with_fees_cong [of "snd e", OF this] show ?thesis using assms(3) by (simp add: classified_def)
qed

lemma new_numbers_fees:
  fixes db :: "('s, 'c, 'l, 't) fees_db"
  assumes "new_numbers (applied B rs db) db q"
  shows "with_fees (fd_fees_tracker (domain_batch_applied B (apply_batch_requests B rs db))) (map snd (applied B rs db)) \<noteq> [] \<longleftrightarrow>
    (\<exists>r\<in>set (applied B rs db). has_fees (fst r))"
proof -
  let ?a = "applied B rs db"
  have ty: "dt_type (snd r) = op_type (req_operation (fst r))" and old: "\<not> has_deducted_fees (dt_type (snd r)) (dt_seqNo (snd r)) (fd_fees_tracker db)"
    if "r \<in> set ?a" for r
    using assms that by (auto simp: new_numbers_def typed_def)
  have "with_fees (fd_fees_tracker (domain_batch_applied B (apply_batch_requests B rs db))) (map snd ?a) \<noteq> [] \<longleftrightarrow>
      (\<exists>r\<in>set ?a. has_deducted_fees (dt_type (snd r)) (dt_seqNo (snd r)) (fd_fees_tracker (domain_batch_applied B (apply_batch_requests B rs db))))"
    by (auto simp: with_fees_def filter_empty_conv)
  also have "\<dots> \<longleftrightarrow> (\<exists>r\<in>set ?a. \<exists>r'\<in>set ?a. has_fees (fst r') \<and> dt_type (snd r) = op_type (req_operation (fst r')) \<and>
      dt_seqNo (snd r) = dt_seqNo (snd r'))"
    unfolding batch_tracker_applied requests_deducted using old by blast
  also have "\<dots> \<longleftrightarrow> (\<exists>r\<in>set ?a. has_fees (fst r))" using ty by metis
  finally show ?thesis .
qed

section \<open>The tracker tells the batches apart\<close>

context batch_machine
begin

lemma tracked_classified:
  assumes "tracked_run B db0 db q" "in_step (be_st B) (be_lg B) view cur db0"
    and "snd (view (fd_token_tracker db0)) = []" "unc (tk_cache db0) = []"
  shows "batch_run B db0 db (map fst q) \<and> (\<forall>e\<in>set q. classified (fd_fees_tracker db) e)"
  using assms(1)
proof induction
  case tracked_start
  show ?case using batch_run.at_start [of B db0] by (simp add: classified_def snap_def with_fees_def)
next
  case (tracked_fees db q db1 rs db2)
  let ?a = "applied B rs db"
  have db2: "db2 = domain_batch_applied B (apply_batch_requests B rs db)" by (simp add: tracked_fees(2,5))
  have "queue_ok db (map fst q)" using run_from_start [OF _ assms(2-4)] tracked_fees(7) by blast
  then have "filter (\<lambda>r. has_fees (fst r)) ?a \<noteq> []"
    using tracked_fees(2,3) requests_count [of B rs db] by (auto simp: queue_ok_def)
  then have "\<exists>r\<in>set ?a. has_fees (fst r)" by (auto simp: filter_empty_conv)
  then have "classified (fd_fees_tracker db2) (snap B FeeBatch db2, map snd ?a)"
    using new_numbers_fees [OF tracked_fees(6)] tracked_fees(6) by (simp add: classified_def db2 snap_def new_numbers_def)
  moreover have "batch_applied B db FeeBatch db1 db2" by (rule batch_applied.fees_applied [OF tracked_fees(2-5)])
  then have "batch_run B db0 db2 (map fst q @ [snap B FeeBatch db2])"
    using batch_run.apply_batch tracked_fees(7) by blast
  ultimately show ?case
    using tracked_fees(7) new_numbers_old [OF tracked_fees(6)] by (auto simp: db2)
next
  case (tracked_plain db q rs db2)
  let ?a = "applied B rs db"
  have "\<not> (\<exists>r\<in>set ?a. has_fees (fst r))" using tracked_plain(2) applied_from [of B rs db] by blast
  then have "classified (fd_fees_tracker db2) (snap B PlainBatch db2, map snd ?a)"
    using new_numbers_fees [OF tracked_plain(4)] tracked_plain(3,4) by (simp add: classified_def snap_def new_numbers_def)
  moreover have "batch_applied B db PlainBatch (apply_batch_requests B rs db) db2"
    by (rule batch_applied.plain_applied [OF tracked_plain(2) refl tracked_plain(3)])
  then have "batch_run B db0 db2 (map fst q @ [snap B PlainBatch db2])"
    using batch_run.apply_batch tracked_plain(5) by blast
  ultimately show ?case
    using tracked_plain(5) new_numbers_old [OF tracked_plain(4)] by (auto simp: tracked_plain(3))
next
  case (tracked_tokens db q db2 ts)
  have "fd_fees_tracker db2 = fd_fees_tracker db"
    by (simp add: tracked_tokens(2) token_steps_keep_tracker apply_token_frame)
  moreover have "batch_run B db0 db2 (map fst q @ [snap B TokenBatch db2])"
    using batch_run.apply_batch [OF _ batch_applied.tokens_applied [OF refl tracked_tokens(2)]] tracked_tokens(3) by blast
  moreover have "classified ft (snap B TokenBatch db2, [])" for ft by (simp add: classified_def snap_def)
  ultimately show ?case using tracked_tokens(3) by auto
next
  case (tracked_reject db q e f db1)
  have "fd_fees_tracker db1 = fd_fees_tracker db"
    using reject_keeps_tracker [of B "fst e" "fst f" db] tracked_reject(2) by simp
  moreover have "batch_run B db0 db1 (map fst q @ [fst e])"
    using batch_run.reject_last [OF _ tracked_reject(2)] tracked_reject(3) by simp
  ultimately show ?case using tracked_reject(3) by auto
next
  case (tracked_commit db e s ts q batch ts' db1)
  have "classified (fd_fees_tracker db) (s, ts)" using tracked_commit(4) by simp
  then have "sn_kind s = FeeBatch \<longleftrightarrow> with_fees (fd_fees_tracker db) ts \<noteq> []" using tracked_commit(2) by (simp add: classified_def)
  from batch_committed.domain_committed [OF tracked_commit(2) this tracked_commit(3)]
  have "batch_run B db0 db1 (s # map fst q)" using batch_run.commit_first tracked_commit(4) by fastforce
  moreover have "classified (fd_fees_tracker db1) e' = classified (fd_fees_tracker db) e'" for e' :: "('s, 'l) snapshot \<times> domain_txn list"
    using fee_commit_keeps_deducted [of "be_b58decode B" "be_serialize_root B" "be_kv B" "be_tr B" "be_base_commit B" batch ts db]
    by (intro classified_cong) (simp add: tracked_commit(3))
  ultimately show ?case using tracked_commit(4) by auto
next
  case (tracked_token_commit db e s ts q batch db1)
  have "batch_run B db0 db1 (s # map fst q)"
    using batch_run.commit_first [where p = "fst e", OF _ batch_committed.tokens_committed [OF tracked_token_commit(2,3)]]
      tracked_token_commit(4) by simp
  moreover have "fd_fees_tracker db1 = fd_fees_tracker db"
    using token_steps_keep_tracker(1) [of B batch db] tracked_token_commit(3) by simp
  ultimately show ?case using tracked_token_commit(4) by auto
qed

end

section \<open>Commits go through\<close>

text \<open>A call of \<open>commit_batch\<close> on the domain or on the token ledger, and when it is one for the queued
  batch \<open>e\<close>: a domain commit brings the batch's own transactions; a token commit brings the batch's
  state root, as bytes or as a text of them.\<close>

datatype commit_call = DomainCommit pc_batch "domain_txn list" | TokenCommit pc_batch

fun commit_one :: "('s, 'c, 'l, 't) batch_env \<Rightarrow> commit_call \<Rightarrow> (('s, 'c, 'l, 't) fees_db, unit) proc" where
  "commit_one B (DomainCommit batch ts) =
     pbind (fee_commit_batch (be_b58decode B) (be_serialize_root B) (be_kv B) (be_tr B) (be_base_commit B) batch ts)
       (\<lambda>_. preturn ())"
| "commit_one B (TokenCommit batch) = token_batch_committed B batch"

fun commits_batch :: "('s, 'c, 'l, 't) batch_env \<Rightarrow> ('s, 'l) snapshot \<times> domain_txn list \<Rightarrow> commit_call \<Rightarrow> bool" where
  "commits_batch B e (DomainCommit batch ts) \<longleftrightarrow> sn_kind (fst e) \<noteq> TokenBatch \<and> ts = snd e"
| "commits_batch B e (TokenCommit batch) \<longleftrightarrow> sn_kind (fst e) = TokenBatch \<and>
     root_bytes (be_b58decode B) (tpc_state_root batch) = Some (fst (sn_mark B (fst e)))"

context batch_machine
begin

lemma oldest_views:
  assumes "queue_ok db (p # s # q)"
  obtains sr xr n t where "sn_mark B s = (sr, xr, n)"
    and "tr_commit_batch (be_tr B) (fd_token_tracker db) = Inr ((sr, xr, n - snd (snd (sn_mark B p))), t)"
    and "sn_kind s \<noteq> PlainBatch \<Longrightarrow> \<exists>b bs. unc (tk_cache db) = (RootBytes sr, b) # bs"
proof -
  obtain sr xr n psr pxr pn where ms: "sn_mark B s = (sr, xr, n)" "sn_mark B p = (psr, pxr, pn)"
    by (metis prod_cases3)
  then have "view (fd_token_tracker db) = ((psr, pxr, pn), (sr, xr, n) # map (sn_mark B) q)"
    using assms by (simp add: queue_ok_def)
  then obtain t where t: "tr_commit_batch (be_tr B) (fd_token_tracker db) = Inr ((sr, xr, n - pn), t)"
    using T.commit_law by metis
  have "\<exists>b bs. unc (tk_cache db) = (RootBytes sr, b) # bs" if "sn_kind s \<noteq> PlainBatch"
    using that assms ms(1) by (auto simp: queue_ok_def split: list.splits)
  then show thesis using that [of sr xr n t] t ms by simp
qed

lemma cache_commit:
  assumes "unc (tk_cache db) = (RootBytes sr, b) # bs" "root_bytes dec root = Some sr"
  obtains c where "commit_to_utxo_cache dec (be_kv B) root (tk_cache db) = Inr c"
  using K.commit_front [OF assms(1), of dec root] K.commit [OF assms(1)] assms(2)
  by (auto simp: utxo_commit_batch_def)

lemma commit_domain_goes:
  assumes "queue_ok db (p # s # q)" "sn_kind s \<noteq> TokenBatch" "sn_kind s = FeeBatch \<longleftrightarrow> with_fees (fd_fees_tracker db) ts \<noteq> []"
    and "distinct (map dt_seqNo ts)"
    and "\<And>l s batch. \<exists>fts l' s'. be_base_commit B l s batch = Inr (fts, l', s') \<and> length fts = length (pb_valid_digests batch)"
  shows "\<exists>ts' db1. fee_commit_batch (be_b58decode B) (be_serialize_root B) (be_kv B) (be_tr B) (be_base_commit B) batch ts db =
    (Inr ts', db1)"
proof (rule oldest_views [OF assms(1)])
  fix sr xr n t
  assume t: "tr_commit_batch (be_tr B) (fd_token_tracker db) = Inr ((sr, xr, n - snd (snd (sn_mark B p))), t)"
    and u: "sn_kind s \<noteq> PlainBatch \<Longrightarrow> \<exists>b bs. unc (tk_cache db) = (RootBytes sr, b) # bs"
  show ?thesis
  proof (cases "sn_kind s = FeeBatch")
    case True
    then have w: "with_fees (fd_fees_tracker db) ts \<noteq> []" using assms(3) by simp
    have r: "root_bytes (be_b58decode B) (RootBytes sr) = Some sr" by (simp add: root_bytes_def)
    obtain b bs where "unc (tk_cache db) = (RootBytes sr, b) # bs" using u True by auto
    then obtain c where c: "commit_to_utxo_cache (be_b58decode B) (be_kv B) (RootBytes sr) (tk_cache db) = Inr c"
      using cache_commit [OF _ r] by blast
    obtain fts l st' where bc: "be_base_commit B (fd_ledger db) (tk_state db)
        (token_fake_three_pc_batch (be_serialize_root B) batch sr xr (length (with_fees (fd_fees_tracker db) ts))) = Inr (fts, l, st')"
      and len: "length fts = length (with_fees (fd_fees_tracker db) ts)"
      using assms(5) [of "fd_ledger db" "tk_state db" "token_fake_three_pc_batch (be_serialize_root B) batch sr xr
        (length (with_fees (fd_fees_tracker db) ts))"] by (auto simp: token_fake_three_pc_batch_def)
    have "length fts = length (filter (\<lambda>t. dt_seqNo t \<in> set (with_fees (fd_fees_tracker db) ts)) ts)"
      using len with_fees_count [OF assms(4)] by simp
    then obtain ts' where "attach_fees (with_fees (fd_fees_tracker db) ts) fts ts = Inr ts'"
      using attach_fees_spec by blast
    then show ?thesis
      using fee_commit_unfold [where base_commit = "be_base_commit B", OF t w bc] c by (simp add: Let_def)
  next
    case False
    then show ?thesis
      using assms(3) t by (simp add: fee_commit_batch_def with_fees_def Let_def)
  qed
qed

lemma commit_tokens_goes:
  assumes "queue_ok db (p # s # q)" "sn_kind s = TokenBatch"
    and "root_bytes (be_b58decode B) (tpc_state_root batch) = Some (fst (sn_mark B s))"
    and "\<And>l s batch. \<exists>fts l' s'. be_base_commit B l s batch = Inr (fts, l', s') \<and> length fts = length (pb_valid_digests batch)"
  shows "\<exists>db1. token_batch_committed B batch db = (Inr (), db1)"
proof (rule oldest_views [OF assms(1)])
  fix sr xr n t
  assume m: "sn_mark B s = (sr, xr, n)"
    and t: "tr_commit_batch (be_tr B) (fd_token_tracker db) = Inr ((sr, xr, n - snd (snd (sn_mark B p))), t)"
    and u: "sn_kind s \<noteq> PlainBatch \<Longrightarrow> \<exists>b bs. unc (tk_cache db) = (RootBytes sr, b) # bs"
  obtain b bs where "unc (tk_cache db) = (RootBytes sr, b) # bs" using u assms(2) by auto
  then obtain c where "commit_to_utxo_cache (be_b58decode B) (be_kv B) (tpc_state_root batch) (tk_cache db) = Inr c"
    using cache_commit assms(3) m by (metis fst_conv)
  moreover obtain fts l st' where "be_base_commit B (fd_ledger db) (tk_state db) batch = Inr (fts, l, st')"
    using assms(4) by blast
  ultimately show ?thesis
    using t by (simp add: token_batch_committed_def utxo_commit_batch_def tracker_commit_batch_def
        three_pc_batch.truncate_def Let_def)
qed

lemma first_committed: "queue_ok db (s # q) \<Longrightarrow> com (tk_cache db) = sn_seen s \<and> shows_snapshot B (last (s # q)) db"
  using queue_ok_shows [of db "s # q"] by (simp add: queue_ok_def)

text \<open>One commit, of the oldest uncommitted batch.\<close>

lemma tracked_commits_one:
  assumes "tracked_run B db0 db (e # f # q)" "commits_batch B f c"
    and "in_step (be_st B) (be_lg B) view cur db0" "snd (view (fd_token_tracker db0)) = []" "unc (tk_cache db0) = []"
    and "\<And>l s batch. \<exists>fts l' s'. be_base_commit B l s batch = Inr (fts, l', s') \<and> length fts = length (pb_valid_digests batch)"
  shows "\<exists>db1. commit_one B c db = (Inr (), db1) \<and> tracked_run B db0 db1 (f # q)"
proof -
  obtain s ts where f: "f = (s, ts)" by (cases f)
  have run: "batch_run B db0 db (map fst (e # f # q))" "classified (fd_fees_tracker db) (s, ts)"
    using tracked_classified [OF assms(1,3-5)] f by simp_all
  then have ok: "queue_ok db (fst e # s # map fst q)" using run_from_start [OF run(1) assms(3-5)] f by simp
  show ?thesis
  proof (cases c)
    case (DomainCommit batch ts')
    then have d: "sn_kind s \<noteq> TokenBatch" "ts' = ts" using assms(2) f by simp_all
    then have cl: "sn_kind s = FeeBatch \<longleftrightarrow> with_fees (fd_fees_tracker db) ts \<noteq> []" "distinct (map dt_seqNo ts)"
      using run(2) by (simp_all add: classified_def)
    obtain r db1 where r: "fee_commit_batch (be_b58decode B) (be_serialize_root B) (be_kv B) (be_tr B) (be_base_commit B) batch ts db =
        (Inr r, db1)"
      using commit_domain_goes [OF ok d(1) cl assms(6)] by blast
    then have "commit_one B c db = (Inr (), db1)" by (simp add: DomainCommit d(2) pbind_def preturn_def)
    then show ?thesis using tracked_run.tracked_commit [OF _ d(1) r] assms(1) f by blast
  next
    case (TokenCommit batch)
    then have d: "sn_kind s = TokenBatch" "root_bytes (be_b58decode B) (tpc_state_root batch) = Some (fst (sn_mark B s))"
      using assms(2) f by simp_all
    obtain db1 where r: "token_batch_committed B batch db = (Inr (), db1)"
      using commit_tokens_goes [OF ok d assms(6)] by blast
    then show ?thesis using tracked_run.tracked_token_commit [OF _ d(1) r] assms(1) f TokenCommit by auto
  qed
qed

lemma tracked_commits:
  assumes "in_step (be_st B) (be_lg B) view cur db0" "snd (view (fd_token_tracker db0)) = []" "unc (tk_cache db0) = []"
    and "\<And>l s batch. \<exists>fts l' s'. be_base_commit B l s batch = Inr (fts, l', s') \<and> length fts = length (pb_valid_digests batch)"
    and "list_all2 (commits_batch B) es cs" "tracked_run B db0 db (e # es @ q)"
  shows "\<exists>db1. for_each (commit_one B) cs db = (Inr (), db1) \<and> tracked_run B db0 db1 (last (e # es) # q) \<and>
    com (tk_cache db1) = sn_seen (fst (last (e # es))) \<and> shows_snapshot B (fst (last (e # es @ q))) db1"
  using assms(5,6)
proof (induction es arbitrary: e db cs)
  case Nil
  have "batch_run B db0 db (fst e # map fst q)" using tracked_classified [OF Nil(2) assms(1-3)] by simp
  then have "queue_ok db (fst e # map fst q)" by (rule run_from_start [OF _ assms(1-3)])
  from first_committed [OF this] show ?case using Nil by (cases "q = []") (simp_all add: preturn_def last_map)
next
  case (Cons f es)
  then obtain c cs' where c: "cs = c # cs'" "commits_batch B f c" "list_all2 (commits_batch B) es cs'"
    by (auto simp: list_all2_Cons1)
  obtain db1 where db1: "commit_one B c db = (Inr (), db1)" "tracked_run B db0 db1 (f # es @ q)"
    using tracked_commits_one [OF _ c(2) assms(1-4)] Cons.prems(2) by fastforce
  show ?case using Cons.IH [OF c(3) db1(2)] c(1) db1(1) by (simp add: pseq_def pbind_def)
qed

end

section \<open>Properties\<close>

text \<open>C16: Commits make progress. Take any sequence of applied, rejected and committed batches from a node
  with nothing uncommitted, in which a domain batch either has no request with fees or pays some
  and changes root and size of the token ledger and the root of its state, and in which its
  transactions have the types of their requests and numbers that no other queued batch has and
  that, with their type, belong to no fee of an earlier batch, rejected ones included. Then the oldest batches, any number of them up to
  all, can be committed one after the other, a domain batch with its own transactions, a token
  batch under its own state root, as bytes or as text that decodes to them, provided that plenum's
  own commit of the token ledger succeeds and returns a transaction for each valid request: no
  batch blocks the ones behind it. Afterwards the committed view of the UTXO cache is what the last
  committed batch saw, and the stores still show the newest batch.\<close>

theorem batches_commit_in_order:
  fixes db0 :: "('s, 'c, 'l, 't) fees_db"
  assumes "batch_machine B known com unc cur rd rd_new view txns base"
    and "in_step (be_st B) (be_lg B) view cur db0" "snd (view (fd_token_tracker db0)) = []" "unc (tk_cache db0) = []"
    and "tracked_run B db0 db (e # es @ q)" "list_all2 (commits_batch B) es cs"
    and "\<And>l s batch. \<exists>fts l' s'. be_base_commit B l s batch = Inr (fts, l', s') \<and> length fts = length (pb_valid_digests batch)"
  shows "\<exists>db1. for_each (commit_one B) cs db = (Inr (), db1) \<and> tracked_run B db0 db1 (last (e # es) # q) \<and>
    com (tk_cache db1) = sn_seen (fst (last (e # es))) \<and> shows_snapshot B (fst (last (e # es @ q))) db1"
  by (rule batch_machine.tracked_commits [OF assms(1-4,7,6,5)])

text \<open>The batch with fees is committed, then the token batch behind it.\<close>

lemma ex_goes: "\<exists>fts l' s'. be_base_commit ref_env l s batch = Inr (fts, l', s') \<and> length fts = length (pb_valid_digests batch)"
  by (simp add: ex_base_commit_def)

lemma ex_new_numbers:
  "new_numbers (applied ref_env [(ex_nym, ex_domain_txn)] ex_rdb) ex_rdb [(snap ref_env PlainBatch ex_rdb, [])]"
proof -
  have "dt_type ex_domain_txn = op_type (req_operation ex_nym)" by (simp add: ex_nym_def ex_domain_txn_def)
  moreover have "\<not> has_deducted_fees (dt_type ex_domain_txn) (dt_seqNo ex_domain_txn) (fd_fees_tracker ex_rdb)" by code_simp
  ultimately show ?thesis unfolding ex_applied by (simp add: new_numbers_def typed_def)
qed

lemma ex_tracked: "tracked_run ref_env ex_rdb ex_rdb3
    [(snap ref_env PlainBatch ex_rdb, []), (snap ref_env FeeBatch ex_rdb2, [ex_domain_txn]), (snap ref_env TokenBatch ex_rdb3, [])]"
proof -
  have d: "ex_rdb1 = apply_batch_requests ref_env [(ex_nym, ex_domain_txn)] ex_rdb"
    "ex_rdb2 = domain_batch_applied ref_env ex_rdb1" by (simp_all only: ref_env_sel ex_rdb1_def ex_rdb2_def)
  note run = tracked_run.tracked_fees [OF tracked_run.tracked_start d(1) ex_rdb_facts d(2) ex_new_numbers]
  show ?thesis using tracked_run.tracked_tokens [OF run ex_rdb3_def] unfolding ex_applied by simp
qed

definition ex_commits :: "commit_call list" where
  "ex_commits = [DomainCommit ex_batch [ex_domain_txn],
     TokenCommit (ex_batch\<lparr>tpc_state_root := RootStr (fst (sn_mark ref_env (snap ref_env TokenBatch ex_rdb3)))\<rparr>)]"

theorem batches_commit_in_order_witness:
  "\<exists>db1. for_each (commit_one ref_env) ex_commits ex_rdb3 = (Inr (), db1) \<and>
    tracked_run ref_env ex_rdb db1 [(snap ref_env TokenBatch ex_rdb3, [])] \<and>
    okv_com (tk_cache db1) = sn_seen (snap ref_env TokenBatch ex_rdb3)"
proof -
  have c: "list_all2 (commits_batch ref_env)
      [(snap ref_env FeeBatch ex_rdb2, [ex_domain_txn]), (snap ref_env TokenBatch ex_rdb3, [])] ex_commits"
    by (simp add: ex_commits_def) (simp add: snap_def root_bytes_def)
  have start: "in_step (be_st ref_env) (be_lg ref_env) (\<lambda>t. t) okv_cur ex_rdb" "snd (fd_token_tracker ex_rdb) = []"
    "okv_unc (tk_cache ex_rdb) = []"
    using ex_rdb_in_step ex_rdb_clean by (simp_all only: ref_env_sel)
  show ?thesis
    using batches_commit_in_order [OF ref_runs.batch_machine_axioms start _ c ex_goes, of ex_rdb3 "(snap ref_env PlainBatch ex_rdb, [])" "[]"]
      ex_tracked by auto
qed

end
