(* ===== verification/Three_Phase.thy ===== *)
theory Three_Phase
  imports Fees_State
begin

text \<open>
  \<open>ThreePhaseCommitHandler\<close> (\<open>sovtokenfees/three_phase_commit_handling.py\<close>): the fee data that the
  plugin adds to the messages of the three-phase commit, and the check of a received
  PRE-PREPARE against the replica's own token ledger and state.

  A message is reduced to its ledger and its plugin fields. The roots, their serialisers and the
  names of the message fields come from plenum (\<open>tpc_env\<close>).
\<close>

section \<open>Messages\<close>

text \<open>A dictionary of fee data; the values are numbers and texts.\<close>

datatype fee_field = FNone | FNum int | FText string

type_synonym fee_dict = "(string \<times> fee_field) list"

definition fget :: "fee_dict \<Rightarrow> string \<Rightarrow> fee_field \<Rightarrow> fee_field" where
  "fget d k dflt = (case map_of d k of None \<Rightarrow> dflt | Some v \<Rightarrow> v)"

text \<open>\<open>None\<close>: the message has no attribute \<open>plugin_fields\<close>.\<close>

record pc_msg =
  m_ledgerId :: int
  m_plugin_fields :: "(string \<times> fee_dict) list option"

record tpc_env =
  te_fees_in_batch :: int
  te_state_root :: string
  te_txn_root :: string
  te_headHash :: string
  te_uncommittedRootHash :: string
  te_deserialize :: "string \<Rightarrow> exn + string"
  te_strToHash :: "string \<Rightarrow> exn + string"
  te_STATE_ROOT :: string
  te_TXN_ROOT :: string

definition FEE_TXNS_IN_BATCH :: string where "FEE_TXNS_IN_BATCH = ''fee_txns_in_batch''"

definition has_plugin_fields :: "pc_msg \<Rightarrow> bool" where
  "has_plugin_fields msg \<longleftrightarrow> m_plugin_fields msg \<noteq> None"

section \<open>The handler\<close>

definition add_to_pre_prepare :: "tpc_env \<Rightarrow> pc_msg \<Rightarrow> pc_msg" where
  "add_to_pre_prepare T pre_prepare =
     (if m_ledgerId pre_prepare \<noteq> TOKEN_LEDGER_ID \<and> te_fees_in_batch T > 0
      then pre_prepare\<lparr>m_plugin_fields := Some [(FEES,
        [(FEE_TXNS_IN_BATCH, FNum (te_fees_in_batch T)),
         (te_STATE_ROOT T, FText (te_state_root T)),
         (te_TXN_ROOT T, FText (te_txn_root T))])]\<rparr>
      else pre_prepare)"

text \<open>\<open>pre_prepare.plugin_fields.get(FEES, {})\<close>, where the attribute exists.\<close>

definition fees_data :: "pc_msg \<Rightarrow> fee_dict" where
  "fees_data msg = (case m_plugin_fields msg of
     None \<Rightarrow> [] | Some pf \<Rightarrow> (case map_of pf FEES of None \<Rightarrow> [] | Some d \<Rightarrow> d))"

definition copy_fees_data :: "tpc_env \<Rightarrow> pc_msg \<Rightarrow> pc_msg \<Rightarrow> pc_msg" where
  "copy_fees_data T msg pre_prepare =
     (let d = fees_data pre_prepare in
      if d \<noteq> []
      then msg\<lparr>m_plugin_fields := Some [(FEES,
        [(FEE_TXNS_IN_BATCH, fget d FEE_TXNS_IN_BATCH FNone),
         (te_STATE_ROOT T, fget d (te_STATE_ROOT T) FNone),
         (te_TXN_ROOT T, fget d (te_TXN_ROOT T) FNone)])]\<rparr>
      else msg)"

definition add_to_prepare :: "tpc_env \<Rightarrow> pc_msg \<Rightarrow> pc_msg \<Rightarrow> pc_msg" where
  "add_to_prepare T prepare pre_prepare =
     (if m_ledgerId pre_prepare \<noteq> TOKEN_LEDGER_ID \<and> has_plugin_fields pre_prepare
      then copy_fees_data T prepare pre_prepare else prepare)"

definition add_to_ordered :: "tpc_env \<Rightarrow> pc_msg \<Rightarrow> pc_msg \<Rightarrow> pc_msg" where
  "add_to_ordered T ordered pre_prepare =
     (if m_ledgerId pre_prepare \<noteq> TOKEN_LEDGER_ID \<and> has_plugin_fields pre_prepare
      then copy_fees_data T ordered pre_prepare else ordered)"

text \<open>A root that is not a text has no \<open>encode\<close> and is no argument of \<open>strToHash\<close>.\<close>

definition ftext :: "exn \<Rightarrow> fee_field \<Rightarrow> exn + string" where
  "ftext e v = (case v of FText s \<Rightarrow> Inr s | _ \<Rightarrow> Inl e)"

definition check_recvd_pre_prepare :: "tpc_env \<Rightarrow> pc_msg \<Rightarrow> exn + unit" where
  "check_recvd_pre_prepare T pre_prepare =
     (if m_ledgerId pre_prepare \<noteq> TOKEN_LEDGER_ID \<and> te_fees_in_batch T > 0
      then if \<not> has_plugin_fields pre_prepare then Inl PlainException
        else let fees = fees_data pre_prepare in
          if fees = [] then Inl PlainException
          else if fget fees FEE_TXNS_IN_BATCH FNone \<noteq> FNum (te_fees_in_batch T) then Inl PlainException
          else
            ebind (ftext AttributeError (fget fees (te_STATE_ROOT T) (FText []))) (\<lambda>sr.
            ebind (te_deserialize T sr) (\<lambda>recvd_state_root.
            if recvd_state_root \<noteq> te_headHash T then Inl PlainException
            else
              ebind (ftext TypeError (fget fees (te_TXN_ROOT T) (FText []))) (\<lambda>xr.
              ebind (te_strToHash T xr) (\<lambda>recvd_txn_root.
              if recvd_txn_root \<noteq> te_uncommittedRootHash T then Inl PlainException else Inr ()))))
      else Inr ())"

text \<open>The three keys of the fee data differ.\<close>

definition keys_differ :: "tpc_env \<Rightarrow> bool" where
  "keys_differ T \<longleftrightarrow> distinct [FEE_TXNS_IN_BATCH, te_STATE_ROOT T, te_TXN_ROOT T]"

text \<open>The fee data of a message agree with a replica.\<close>

definition fees_match :: "tpc_env \<Rightarrow> pc_msg \<Rightarrow> bool" where
  "fees_match T msg \<longleftrightarrow> (let d = fees_data msg in
     fget d FEE_TXNS_IN_BATCH FNone = FNum (te_fees_in_batch T) \<and>
     (\<exists>sr. fget d (te_STATE_ROOT T) (FText []) = FText sr \<and> te_deserialize T sr = Inr (te_headHash T)) \<and>
     (\<exists>xr. fget d (te_TXN_ROOT T) (FText []) = FText xr \<and> te_strToHash T xr = Inr (te_uncommittedRootHash T)))"

lemma ftext_Inr: "ftext e v = Inr s \<longleftrightarrow> v = FText s"
  by (cases v) (simp_all add: ftext_def)

lemma fees_data_extra: "m_plugin_fields msg = Some [(FEES, d)] \<Longrightarrow> fees_data msg = d"
  by (simp add: fees_data_def)

lemma fees_match_nonempty: "fees_match T msg \<Longrightarrow> fees_data msg \<noteq> [] \<and> has_plugin_fields msg"
  by (auto simp: fees_match_def fget_def Let_def has_plugin_fields_def fees_data_def split: option.splits)

lemma check_accepts:
  "check_recvd_pre_prepare T msg = Inr () \<longleftrightarrow>
    m_ledgerId msg = TOKEN_LEDGER_ID \<or> \<not> te_fees_in_batch T > 0 \<or> fees_match T msg"
proof (cases "m_ledgerId msg \<noteq> TOKEN_LEDGER_ID \<and> te_fees_in_batch T > 0")
  case True
  show ?thesis
  proof (cases "has_plugin_fields msg \<and> fees_data msg \<noteq> []")
    case ok: True
    then show ?thesis
      using True by (auto simp: check_recvd_pre_prepare_def fees_match_def Let_def ebind_Inr_iff ftext_Inr split: if_splits)
  next
    case False
    then show ?thesis
      using True fees_match_nonempty [of T msg] by (auto simp: check_recvd_pre_prepare_def Let_def)
  qed
qed (auto simp: check_recvd_pre_prepare_def)

text \<open>The fee data that a primary sends.\<close>

lemma sent_matches:
  assumes "m_ledgerId msg \<noteq> TOKEN_LEDGER_ID" "keys_differ P"
    and "te_STATE_ROOT P = te_STATE_ROOT T" "te_TXN_ROOT P = te_TXN_ROOT T" "te_fees_in_batch P > 0"
  shows "fees_match T (add_to_pre_prepare P msg) \<longleftrightarrow> te_fees_in_batch P = te_fees_in_batch T \<and>
    te_deserialize T (te_state_root P) = Inr (te_headHash T) \<and>
    te_strToHash T (te_txn_root P) = Inr (te_uncommittedRootHash T)"
proof -
  have "fees_data (add_to_pre_prepare P msg) =
      [(FEE_TXNS_IN_BATCH, FNum (te_fees_in_batch P)), (te_STATE_ROOT P, FText (te_state_root P)),
       (te_TXN_ROOT P, FText (te_txn_root P))]"
    using assms(1,5) by (simp add: add_to_pre_prepare_def fees_data_extra)
  then show ?thesis
    using assms(2-4) by (auto simp: fees_match_def fget_def Let_def keys_differ_def)
qed

section \<open>Properties\<close>

text \<open>C37: A replica that counted fees in the batch of another ledger accepts a PRE-PREPARE exactly when
  its fee data name the replica's own number of fee transactions, token state root and token
  ledger root; in particular it accepts the message of a primary exactly when the primary has the
  same number and roots. A replica that counted no fees accepts whatever the message claims.\<close>

theorem pre_prepare_accept_exact:
  assumes "m_ledgerId msg \<noteq> TOKEN_LEDGER_ID" "keys_differ P"
    and "te_STATE_ROOT P = te_STATE_ROOT T" "te_TXN_ROOT P = te_TXN_ROOT T" "te_fees_in_batch P > 0"
  shows "(check_recvd_pre_prepare T msg = Inr () \<longleftrightarrow> te_fees_in_batch T \<le> 0 \<or> fees_match T msg) \<and>
    (check_recvd_pre_prepare T (add_to_pre_prepare P msg) = Inr () \<longleftrightarrow> te_fees_in_batch T \<le> 0 \<or>
      te_fees_in_batch P = te_fees_in_batch T \<and>
      te_deserialize T (te_state_root P) = Inr (te_headHash T) \<and>
      te_strToHash T (te_txn_root P) = Inr (te_uncommittedRootHash T))"
  using assms(1) sent_matches [OF assms] by (simp add: check_accepts add_to_pre_prepare_def not_less)

text \<open>What a replica that accepted a PRE-PREPARE sends on carries its own data, too. The empty text,
  which the check takes for a missing root, is not the text of a root.\<close>

definition no_empty_root :: "tpc_env \<Rightarrow> bool" where
  "no_empty_root T \<longleftrightarrow> te_deserialize T [] \<noteq> Inr (te_headHash T) \<and> te_strToHash T [] \<noteq> Inr (te_uncommittedRootHash T)"

lemma fget_text: "fget d k (FText []) = FText s \<Longrightarrow> s \<noteq> [] \<Longrightarrow> fget d k e = FText s"
  by (auto simp: fget_def split: option.splits)

lemma copy_fees_match:
  assumes "fees_match T pre_prepare" "keys_differ T" "no_empty_root T"
  shows "fees_match T (copy_fees_data T msg pre_prepare)"
proof -
  let ?d = "fees_data pre_prepare"
  obtain sr xr where d: "fget ?d FEE_TXNS_IN_BATCH FNone = FNum (te_fees_in_batch T)"
    "fget ?d (te_STATE_ROOT T) (FText []) = FText sr" "te_deserialize T sr = Inr (te_headHash T)"
    "fget ?d (te_TXN_ROOT T) (FText []) = FText xr" "te_strToHash T xr = Inr (te_uncommittedRootHash T)"
    using assms(1) by (auto simp: fees_match_def Let_def)
  have "sr \<noteq> []" "xr \<noteq> []" using assms(3) d(3,5) by (auto simp: no_empty_root_def)
  then have c: "fees_data (copy_fees_data T msg pre_prepare) = [(FEE_TXNS_IN_BATCH, FNum (te_fees_in_batch T)),
      (te_STATE_ROOT T, FText sr), (te_TXN_ROOT T, FText xr)]"
    using fees_match_nonempty [OF assms(1)] d(1) fget_text [OF d(2), of FNone] fget_text [OF d(4), of FNone]
    by (simp add: copy_fees_data_def Let_def fees_data_extra)
  show ?thesis
    unfolding fees_match_def c using assms(2) d(3,5) by (auto simp: fget_def keys_differ_def)
qed

lemma prepare_ordered_match:
  assumes "fees_match T msg" "keys_differ T" "no_empty_root T" "m_ledgerId msg \<noteq> TOKEN_LEDGER_ID"
  shows "fees_match T (add_to_prepare T prep msg)" "fees_match T (add_to_ordered T ord msg)"
  using copy_fees_match [OF assms(1-3)] fees_match_nonempty [OF assms(1)] assms(4)
  by (simp_all add: add_to_prepare_def add_to_ordered_def)

definition ex_tpc :: tpc_env where
  "ex_tpc = \<lparr>te_fees_in_batch = 2, te_state_root = ''s'', te_txn_root = ''t'', te_headHash = ''s'',
     te_uncommittedRootHash = ''t'', te_deserialize = Inr, te_strToHash = Inr,
     te_STATE_ROOT = ''stateRootHash'', te_TXN_ROOT = ''txnRootHash''\<rparr>"

abbreviation ex_msg :: pc_msg where
  "ex_msg \<equiv> \<lparr>m_ledgerId = 1, m_plugin_fields = None\<rparr>"

lemma ex_tpc_facts:
  "m_ledgerId ex_msg \<noteq> TOKEN_LEDGER_ID" "te_fees_in_batch ex_tpc > 0" "keys_differ ex_tpc"
  by (simp_all add: TOKEN_LEDGER_ID_def ex_tpc_def keys_differ_def FEE_TXNS_IN_BATCH_def)

theorem pre_prepare_accept_exact_witness:
  "check_recvd_pre_prepare ex_tpc (add_to_pre_prepare ex_tpc ex_msg) = Inr ()"
  using pre_prepare_accept_exact [OF ex_tpc_facts(1,3) refl refl ex_tpc_facts(2)] by (simp add: ex_tpc_def)

end
