(* ===== verification/Replica_Agreement.thy ===== *)
theory Replica_Agreement
  imports Three_Phase Fee_Txns
begin

text \<open>
  What the check of the three-phase commit is for: the handler of \<open>Three_Phase\<close> over the token state and
  the UTXO cache of two replicas. The state root in a PRE-PREPARE names the contents of the
  primary's token state, and the cache of each replica agrees with its state, so that a replica
  that accepts the message holds the same unspent outputs as the primary.
\<close>

lemma agreeing_states:
  assumes "token_wf st kv False d" "token_wf st kv False e"
    and "\<And>k. st_get st (tk_state d) k False = st_get st (tk_state e) k False"
  shows "set (token_utxos kv False d a) = set (token_utxos kv False e a)"
proof -
  have k: "distinct (map fst (token_utxos kv False d a))" "distinct (map fst (token_utxos kv False e a))"
    using assms(1,2) cache_wf_holds(2) by (auto simp: token_wf_def token_utxos_def)
  have "map_option py_str (map_of (token_utxos kv False d a) n) = map_option py_str (map_of (token_utxos kv False e a) n)" for n
    using assms unfolding token_wf_def state_agrees_def by metis
  then have "map_of (token_utxos kv False d a) n = map_of (token_utxos kv False e a) n" for n
    using option.inj_map [of py_str] py_str_inject by (metis injD injI)
  then show ?thesis
    using k by (metis map_of_inject_set ext)
qed

lemma same_supply:
  assumes "utxos_wf U" "utxos_wf V" "\<And>a. set (U a) = set (V a)"
  shows "token_supply A U = token_supply A V"
proof -
  have "mset (U a) = mset (V a)" for a
    using assms set_eq_iff_mset_eq_distinct [of "U a" "V a"] by (auto simp: utxos_wf_def distinct_map)
  then have "total_amount (U a) = total_amount (V a)" for a
    unfolding total_amount_def sum_mset_sum_list [symmetric] mset_map by simp
  then show ?thesis by (simp add: token_supply_def)
qed

text \<open>C38: A replica that itself counted fees in a batch of another ledger, and that accepts the fee data
  which a primary with fees in the batch added to its PRE-PREPARE, holds the same unspent outputs
  as the primary at every address, hence the same supply; and if neither of its roots has the
  empty text, the PREPARE and the ORDERED that it sends on carry its own number and roots. (A
  replica that counted no fees accepts any claim, so that nothing follows for it.)\<close>

theorem accepted_same_tokens:
  assumes "state_head_store st known" "token_wf st kv False primary" "token_wf st kv False replica"
    and "te_state_root P = ser (st_headHash st (tk_state primary))"
    and "te_headHash T = st_headHash st (tk_state replica)" "\<And>r. te_deserialize T (ser r) = Inr r"
    and "m_ledgerId msg \<noteq> TOKEN_LEDGER_ID" "keys_differ P" "te_STATE_ROOT P = te_STATE_ROOT T" "te_TXN_ROOT P = te_TXN_ROOT T"
    and "te_fees_in_batch P > 0" "te_fees_in_batch T > 0"
    and "check_recvd_pre_prepare T (add_to_pre_prepare P msg) = Inr ()"
  shows "(\<forall>a. set (token_utxos kv False replica a) = set (token_utxos kv False primary a)) \<and>
    token_supply A (token_utxos kv False replica) = token_supply A (token_utxos kv False primary) \<and>
    (no_empty_root T \<longrightarrow> fees_match T (add_to_prepare T prep (add_to_pre_prepare P msg)) \<and>
      fees_match T (add_to_ordered T ord (add_to_pre_prepare P msg)))"
proof -
  have l: "m_ledgerId (add_to_pre_prepare P msg) \<noteq> TOKEN_LEDGER_ID" using assms(7) by (simp add: add_to_pre_prepare_def)
  have m: "fees_match T (add_to_pre_prepare P msg)" using assms(12,13) l by (simp add: check_accepts)
  have "keys_differ T" using assms(8-10) by (simp add: keys_differ_def)
  note sent = prepare_ordered_match [OF m this _ l]
  have "te_deserialize T (te_state_root P) = Inr (te_headHash T)"
    using m sent_matches [OF assms(7-11)] by simp
  then have "st_headHash st (tk_state replica) = st_headHash st (tk_state primary)"
    using assms(4-6) by simp
  then have "st_get st (tk_state replica) k False = st_get st (tk_state primary) k False" for k
    by (rule state_head_store.head_contents [OF assms(1)])
  from agreeing_states [OF assms(3,2) this]
  have "set (token_utxos kv False replica a) = set (token_utxos kv False primary a)" for a .
  moreover have "utxos_wf (token_utxos kv False primary)" "utxos_wf (token_utxos kv False replica)"
    using assms(2,3) by (simp_all add: token_wf_def token_utxos_def cache_wf_utxos)
  ultimately show ?thesis using same_supply sent by blast
qed

definition ex_replica :: tpc_env where
  "ex_replica = ex_tpc\<lparr>te_state_root := st_headHash ms_store (tk_state ex_db), te_headHash := st_headHash ms_store (tk_state ex_db)\<rparr>"

theorem accepted_same_tokens_witness:
  "fees_match ex_replica (add_to_ordered ex_replica ex_msg (add_to_pre_prepare ex_replica ex_msg)) \<and>
    set (token_utxos okv_store False ex_db ''A'') = {(1, 10)}"
proof -
  have r: "te_state_root ex_replica = st_headHash ms_store (tk_state ex_db)" "te_headHash ex_replica = st_headHash ms_store (tk_state ex_db)"
    "te_deserialize ex_replica = Inr" "keys_differ ex_replica" "te_fees_in_batch ex_replica > 0"
    using ex_tpc_facts by (simp_all add: ex_replica_def ex_tpc_def keys_differ_def)
  have "no_empty_root ex_replica" by code_simp
  moreover have "check_recvd_pre_prepare ex_replica (add_to_pre_prepare ex_replica ex_msg) = Inr ()" by code_simp
  ultimately show ?thesis
    using accepted_same_tokens [OF ms.state_head_store_axioms ex_db_wf ex_db_wf, where P = ex_replica and T = ex_replica
        and ser = "\<lambda>r. r" and msg = ex_msg] r ex_tpc_facts(1)
    by (simp add: ex_utxos_def)
qed

end
