(* ===== verification/Fees_Messages.thy ===== *)
theory Fees_Messages
  imports Token_Messages Fees_State
begin

text \<open>
  The messages of the fees plugin (\<open>sovtokenfees/messages/fields.py\<close>): the fields of SET_FEES,
  GET_FEE and of the attribute \<open>fees\<close> of any client request (\<open>sovtokenfees/__init__.py\<close>), and the
  static validation of the two handlers.

  The classes of plenum that the fields build on are the arguments \<open>plenum_fields\<close> (of the token
  messages) and \<open>plenum_fees_fields\<close>; the locale \<open>fees_field_laws\<close> extends \<open>field_laws\<close> with what the
  fees plugin relies on. The main lemmas say exactly which messages are accepted.
\<close>

section \<open>Inherited validation\<close>

text \<open>\<open>ff_const\<close>, \<open>ff_limited\<close>, \<open>ff_nonempty\<close>, \<open>ff_nonneg\<close>, \<open>ff_signature\<close> are \<open>validate\<close> of
  \<open>ConstantField(t)\<close>, \<open>LimitedLengthStringField(max_length=n)\<close>, \<open>NonEmptyStringField()\<close>,
  \<open>NonNegativeNumberField()\<close> and \<open>SignatureField(max_length=SIGNATURE_FIELD_LIMIT)\<close>;
  \<open>ff_map_specific\<close>, \<open>ff_fixed_specific\<close>, \<open>ff_iter_specific\<close> are \<open>_specific_validation\<close> of \<open>MapField(k, v)\<close>,
  \<open>FixedLengthField(n)\<close> and \<open>IterableField(f, min_length, max_length)\<close>; \<open>ff_nullable\<close> is \<open>validate\<close> of a
  field with \<open>nullable=True\<close>; \<open>ff_message\<close> is the constructor of a \<open>MessageBase\<close> with a schema, called
  with the entries of an operation.\<close>

record plenum_fees_fields =
  ff_const :: "string \<Rightarrow> jval \<Rightarrow> vres"
  ff_limited :: "nat \<Rightarrow> jval \<Rightarrow> vres"
  ff_nonempty :: "jval \<Rightarrow> vres"
  ff_nonneg :: "jval \<Rightarrow> vres"
  ff_signature :: "jval \<Rightarrow> vres"
  ff_map_specific :: "(jval \<Rightarrow> vres) \<Rightarrow> (jval \<Rightarrow> vres) \<Rightarrow> jval \<Rightarrow> vres"
  ff_fixed_specific :: "nat \<Rightarrow> jval \<Rightarrow> vres"
  ff_iter_specific :: "nat option \<Rightarrow> nat option \<Rightarrow> (jval \<Rightarrow> vres) \<Rightarrow> jval \<Rightarrow> vres"
  ff_nullable :: "(jval \<Rightarrow> vres) \<Rightarrow> jval \<Rightarrow> vres"
  ff_message :: "(string \<times> (jval \<Rightarrow> vres)) list \<Rightarrow> joperation \<Rightarrow> exn + unit"

section \<open>SET_FEES and GET_FEE\<close>

text \<open>\<open>ALLOWED_FEES_TXNS\<close> is not used by the code: the types with fees are those of the domain ledger.\<close>

definition ALLOWED_FEES_TXNS :: "string list" where
  "ALLOWED_FEES_TXNS = [XFER_PUBLIC, ''1'', ''100'', ''101'', ''102'', ''113'', ''114'']"

definition FEES_ALIAS :: string where "FEES_ALIAS = ''alias''"

definition GetFeeMsg :: "plenum_fees_fields \<Rightarrow> (string \<times> (jval \<Rightarrow> vres)) list" where
  "GetFeeMsg M = [(''type'', ff_const M GET_FEE), (FEES_ALIAS, ff_limited M FEE_ALIAS_LENGTH)]"

definition set_fees_specific :: "plenum_fees_fields \<Rightarrow> jval \<Rightarrow> vres" where
  "set_fees_specific M val =
     vthen (ff_map_specific M (ff_nonempty M) (ff_nonneg M) val) ''set_fees -- '' (Inr None)"

definition set_fees_validate :: "plenum_fields \<Rightarrow> plenum_fees_fields \<Rightarrow> jval \<Rightarrow> vres" where
  "set_fees_validate F M = pf_validate F [''dict''] (set_fees_specific M)"

definition SetFeesMsg :: "plenum_fields \<Rightarrow> plenum_fees_fields \<Rightarrow> (string \<times> (jval \<Rightarrow> vres)) list" where
  "SetFeesMsg F M = [(''type'', ff_const M SET_FEES), (FEES, set_fees_validate F M)]"

definition set_fees_static_validation :: "plenum_fields \<Rightarrow> plenum_fees_fields \<Rightarrow> joperation \<Rightarrow> exn + unit" where
  "set_fees_static_validation F M operation = msg_static_validation (ff_message M (SetFeesMsg F M) operation)"

definition get_fee_static_validation :: "plenum_fees_fields \<Rightarrow> joperation \<Rightarrow> exn + unit" where
  "get_fee_static_validation M operation = msg_static_validation (ff_message M (GetFeeMsg M) operation)"

section \<open>The fees of a request\<close>

text \<open>\<open>v[k]\<close> for a number \<open>k\<close> within or beyond the length.\<close>

fun j_nth :: "jval \<Rightarrow> nat \<Rightarrow> exn + jval" where
  "j_nth (JList xs) k = (if k < length xs then Inr (xs ! k) else Inl IndexError)"
| "j_nth (JStr s) k = (if k < length (py_chars s) then Inr (JStr (py_chars s ! k)) else Inl IndexError)"
| "j_nth (JMap m) k = Inl KeyError"
| "j_nth _ k = Inl TypeError"

text \<open>A subclass of \<open>IterableField\<close> that was constructed with bounds on the length.\<close>

definition with_bounds :: "plenum_fields \<Rightarrow> plenum_fees_fields \<Rightarrow> nat option \<Rightarrow> nat option \<Rightarrow> plenum_fields" where
  "with_bounds F M min_length max_length = F\<lparr>pf_iter_specific := ff_iter_specific M min_length max_length\<rparr>"

definition inputs_validator :: "plenum_fields \<Rightarrow> plenum_fees_fields \<Rightarrow> base58_lib \<Rightarrow> string \<Rightarrow> jval \<Rightarrow> vres" where
  "inputs_validator F M = public_inputs_validate (with_bounds F M (Some 1) None)"

definition outputs_validator :: "plenum_fields \<Rightarrow> plenum_fees_fields \<Rightarrow> base58_lib \<Rightarrow> string \<Rightarrow> jval \<Rightarrow> vres" where
  "outputs_validator F M = public_outputs_validate (with_bounds F M None (Some MAX_FEE_OUTPUTS))"

definition signatures_validator :: "plenum_fields \<Rightarrow> plenum_fees_fields \<Rightarrow> jval \<Rightarrow> vres" where
  "signatures_validator F M = pf_iter F (ff_iter_specific M None None (ff_signature M))"

definition txn_fees_specific :: "plenum_fields \<Rightarrow> plenum_fees_fields \<Rightarrow> base58_lib \<Rightarrow> string \<Rightarrow> jval \<Rightarrow> vres" where
  "txn_fees_specific F M b58 str_ex val =
     vthen (ff_fixed_specific M 3 val) ''fees -- ''
    (vthen (ebind (j_nth val 0) (inputs_validator F M b58 str_ex)) ''inputs -- ''
    (vthen (ebind (j_nth val 1) (outputs_validator F M b58 str_ex)) ''outputs -- ''
    (vthen (ebind (j_nth val 2) (signatures_validator F M)) ''signatures -- ''
    (ebind (j_nth val 0) (\<lambda>ins. ebind (j_len ins) (\<lambda>n.
     ebind (j_nth val 2) (\<lambda>sigs. ebind (j_len sigs) (\<lambda>m.
     if n \<noteq> m
     then Inr (Some (''signatures -- Number of signatures and number of inputs should match but are '' @
            nat_str m @ '' and '' @ nat_str n @ '' respectively.''))
     else Inr None))))))))"

definition txn_fees_validate :: "plenum_fields \<Rightarrow> plenum_fees_fields \<Rightarrow> base58_lib \<Rightarrow> string \<Rightarrow> jval \<Rightarrow> vres" where
  "txn_fees_validate F M b58 str_ex = pf_validate F [''list'', ''tuple''] (txn_fees_specific F M b58 str_ex)"

text \<open>The field \<open>fees\<close> of client requests; an absent attribute is not validated.\<close>

definition CLIENT_REQUEST_FIELDS_fees :: "plenum_fields \<Rightarrow> plenum_fees_fields \<Rightarrow> base58_lib \<Rightarrow> string
    \<Rightarrow> jval option \<Rightarrow> vres" where
  "CLIENT_REQUEST_FIELDS_fees F M b58 str_ex fees =
     (case fees of None \<Rightarrow> Inr None | Some v \<Rightarrow> ff_nullable M (txn_fees_validate F M b58 str_ex) v)"

section \<open>Laws of the base classes\<close>

definition within :: "nat option \<Rightarrow> nat option \<Rightarrow> nat \<Rightarrow> bool" where
  "within min_length max_length n \<longleftrightarrow>
     (case min_length of None \<Rightarrow> True | Some k \<Rightarrow> k \<le> n) \<and> (case max_length of None \<Rightarrow> True | Some k \<Rightarrow> n \<le> k)"

lemma with_bounds_simps [simp]:
  "pf_validate (with_bounds F M lo hi) = pf_validate F" "pf_map (with_bounds F M lo hi) = pf_map F"
  "pf_map_specific (with_bounds F M lo hi) = pf_map_specific F" "pf_seq_no (with_bounds F M lo hi) = pf_seq_no F"
  "pf_iter (with_bounds F M lo hi) = pf_iter F"
  "pf_iter_specific (with_bounds F M lo hi) = ff_iter_specific M lo hi"
  by (simp_all add: with_bounds_def)

lemma with_bounds_items [simp]:
  "public_input_validate (with_bounds F M lo hi) = public_input_validate F"
  "public_output_validate (with_bounds F M lo hi) = public_output_validate F"
  by (intro ext; simp add: public_input_validate_def public_input_specific_def [abs_def]
      public_output_validate_def public_output_specific_def [abs_def] public_address_validate_def
      public_amount_validate_def)+

text \<open>A message accepts an operation when every field of the schema is there and is accepted, and
  raises \<open>TypeError\<close> otherwise, as long as no field raises and no key is outside the schema.\<close>

definition schema_ok :: "(string \<times> (jval \<Rightarrow> vres)) list \<Rightarrow> joperation \<Rightarrow> bool" where
  "schema_ok schema operation \<longleftrightarrow>
     list_all (\<lambda>(k, f). case operation k of None \<Rightarrow> False | Some v \<Rightarrow> accepts (f v)) schema"

locale fees_field_laws = field_laws F type_msg for F type_msg +
  fixes M :: plenum_fees_fields
  assumes const_law: "accepts (ff_const M t v) \<longleftrightarrow> v = JStr t" "\<exists>e. ff_const M t v = Inr e"
    and limited_law: "accepts (ff_limited M n v) \<longleftrightarrow> (\<exists>s. v = JStr s \<and> s \<noteq> [] \<and> py_len s \<le> n)"
      "\<exists>e. ff_limited M n v = Inr e"
    and nonempty_law: "accepts (ff_nonempty M v) \<longleftrightarrow> (\<exists>s. v = JStr s \<and> s \<noteq> [])" "\<exists>e. ff_nonempty M v = Inr e"
    and nonneg_law: "j_type v \<noteq> ''bool'' \<Longrightarrow> accepts (ff_nonneg M v) \<longleftrightarrow> (\<exists>n. v = JInt n \<and> 0 \<le> n)"
      "\<exists>e. ff_nonneg M v = Inr e"
    and map_law': "accepts (ff_map_specific M kf vf (JMap m)) \<longleftrightarrow>
      (\<forall>p\<in>set m. accepts (kf (JStr (fst p))) \<and> accepts (vf (snd p)))"
      "(\<And>k. \<exists>e. kf k = Inr e) \<Longrightarrow> (\<And>v. \<exists>e. vf v = Inr e) \<Longrightarrow> \<exists>e. ff_map_specific M kf vf (JMap m) = Inr e"
    and fixed_law: "accepts (ff_fixed_specific M n (JList xs)) \<longleftrightarrow> length xs = n"
    and bounds_law: "accepts (ff_iter_specific M lo hi g (JList xs)) \<longleftrightarrow>
      within lo hi (length xs) \<and> (\<forall>x\<in>set xs. accepts (g x))"
    and nullable_law: "ff_nullable M f v = (if v = JNone then Inr None else f v)"
    and message_law: "dom operation \<subseteq> fst ` set schema \<Longrightarrow>
      (\<And>k f v. (k, f) \<in> set schema \<Longrightarrow> \<exists>e. f v = Inr e) \<Longrightarrow>
      ff_message M schema operation = (if schema_ok schema operation then Inr () else Inl TypeError)"
begin

lemma inputs_bounds:
  assumes "no_bools v"
  shows "accepts (inputs_validator F M b58 s v) \<longleftrightarrow>
    (\<exists>js ins. v = JList js \<and> map input_of js = map Some ins \<and> ins \<noteq> [] \<and> valid_inputs b58 ins)"
proof -
  have "accepts (inputs_validator F M b58 s v) \<longleftrightarrow>
      accepts (public_inputs_validate F b58 s v) \<and> (\<exists>js. v = JList js \<and> js \<noteq> [])"
    by (cases v) (auto simp: inputs_validator_def public_inputs_validate_def iter_law
        public_inputs_specific_def bounds_law iter_specific_law within_def type_msg Suc_le_eq)
  moreover have "js \<noteq> [] \<longleftrightarrow> ins \<noteq> []" if "map input_of js = map Some ins" for js ins
    using map_eq_imp_length_eq [OF that] by auto
  ultimately show ?thesis unfolding inputs_accepts [OF assms] by (metis jval.inject(4))
qed

lemma outputs_bounds:
  assumes "no_bools v"
  shows "accepts (outputs_validator F M b58 s v) \<longleftrightarrow>
    (\<exists>js outs. v = JList js \<and> map payout_of js = map Some outs \<and> length outs \<le> MAX_FEE_OUTPUTS \<and>
      valid_payouts b58 outs)"
proof -
  have "accepts (outputs_validator F M b58 s v) \<longleftrightarrow>
      accepts (public_outputs_validate F b58 s v) \<and> (\<exists>js. v = JList js \<and> length js \<le> MAX_FEE_OUTPUTS)"
    by (cases v) (auto simp: outputs_validator_def public_outputs_validate_def iter_law
        public_outputs_specific_def bounds_law iter_specific_law within_def type_msg)
  moreover have "length js = length outs" if "map payout_of js = map Some outs" for js outs
    using map_eq_imp_length_eq [OF that] .
  ultimately show ?thesis unfolding outputs_accepts [OF assms] by (metis jval.inject(4))
qed

lemma signatures_accepts:
  "accepts (signatures_validator F M v) \<longleftrightarrow> (\<exists>sigs. v = JList sigs \<and> (\<forall>x\<in>set sigs. accepts (ff_signature M x)))"
  by (cases v) (auto simp: signatures_validator_def iter_law bounds_law within_def type_msg)

end

text \<open>What the accepted messages stand for.\<close>

definition fees_of :: "jval \<Rightarrow> fees_dict option" where
  "fees_of v = (case v of
     JMap m \<Rightarrow> if \<forall>p\<in>set m. \<exists>n. snd p = JInt n
       then Some (map (\<lambda>p. (fst p, case snd p of JInt n \<Rightarrow> n | _ \<Rightarrow> 0)) m) else None
   | _ \<Rightarrow> None)"

definition valid_fees :: "fees_dict \<Rightarrow> bool" where
  "valid_fees d \<longleftrightarrow> (\<forall>p\<in>set d. fst p \<noteq> [] \<and> 0 \<le> snd p)"

fun fees_parts_of :: "jval \<Rightarrow> (input list \<times> payout list \<times> jval list) option" where
  "fees_parts_of (JList [JList is, JList os, JList sigs]) =
     (if (\<forall>i\<in>set is. input_of i \<noteq> None) \<and> (\<forall>p\<in>set os. payout_of p \<noteq> None)
      then Some (map (the \<circ> input_of) is, map (the \<circ> payout_of) os, sigs) else None)"
| "fees_parts_of _ = None"

definition valid_fee_parts :: "plenum_fees_fields \<Rightarrow> base58_lib \<Rightarrow> input list \<times> payout list \<times> jval list \<Rightarrow> bool" where
  "valid_fee_parts M b58 p = (case p of (ins, outs, sigs) \<Rightarrow>
     ins \<noteq> [] \<and> valid_inputs b58 ins \<and> length outs \<le> 1 \<and> valid_payouts b58 outs \<and>
     length sigs = length ins \<and> (\<forall>x\<in>set sigs. accepts (ff_signature M x)))"

lemma map_Some_the: "map f xs = map Some ys \<longleftrightarrow> (\<forall>x\<in>set xs. f x \<noteq> None) \<and> ys = map (the \<circ> f) xs"
proof (induction xs arbitrary: ys)
  case (Cons x xs)
  then show ?case by (cases ys) auto
qed auto

lemma fees_parts_of_Some: "fees_parts_of v = Some (ins, outs, sigs) \<longleftrightarrow>
    (\<exists>is os. v = JList [JList is, JList os, JList sigs] \<and> map input_of is = map Some ins \<and>
      map payout_of os = map Some outs)"
  by (cases v rule: fees_parts_of.cases) (auto simp: map_Some_the)

context fees_field_laws
begin

lemma set_fees_accepts:
  assumes "\<And>m p b. v = JMap m \<Longrightarrow> p \<in> set m \<Longrightarrow> snd p \<noteq> JBool b"
  shows "accepts (set_fees_validate F M v) \<longleftrightarrow> (\<exists>d. fees_of v = Some d \<and> valid_fees d)"
proof (cases v)
  case (JMap m)
  have "accepts (ff_nonneg M (snd p)) \<longleftrightarrow> (\<exists>n. snd p = JInt n \<and> 0 \<le> n)" if "p \<in> set m" for p
  proof -
    have "j_type (snd p) \<noteq> ''bool''" using assms [OF JMap that] by (cases "snd p") auto
    then show ?thesis by (rule nonneg_law)
  qed
  then have "accepts (set_fees_validate F M v) \<longleftrightarrow> (\<forall>p\<in>set m. fst p \<noteq> [] \<and> (\<exists>n. snd p = JInt n \<and> 0 \<le> n))"
    by (simp add: JMap set_fees_validate_def validate_law set_fees_specific_def map_law' nonempty_law cong: ball_cong)
  also have "\<dots> \<longleftrightarrow> (\<forall>p\<in>set m. \<exists>n. snd p = JInt n) \<and>
      (\<forall>p\<in>set m. fst p \<noteq> [] \<and> 0 \<le> (case snd p of JInt n \<Rightarrow> n | _ \<Rightarrow> 0))"
    unfolding ball_conj_distrib [symmetric] by (rule ball_cong [OF refl]) auto
  also have "\<dots> \<longleftrightarrow> (\<exists>d. fees_of v = Some d \<and> valid_fees d)"
    by (simp add: JMap fees_of_def valid_fees_def)
  finally show ?thesis .
qed (simp_all add: set_fees_validate_def validate_law type_msg fees_of_def)

lemma set_fees_returns: "\<exists>e. set_fees_validate F M v = Inr e"
proof (cases v)
  case (JMap m)
  obtain e where "ff_map_specific M (ff_nonempty M) (ff_nonneg M) (JMap m) = Inr e"
    using map_law'(2) [of "ff_nonempty M" "ff_nonneg M" m] nonempty_law(2) nonneg_law(2) by blast
  then show ?thesis
    by (simp add: JMap set_fees_validate_def validate_law set_fees_specific_def vthen_def
        split: option.splits list.splits)
qed (simp_all add: set_fees_validate_def validate_law)

lemma txn_fees_accepts:
  assumes "\<And>xs x. v = JList xs \<Longrightarrow> x \<in> set xs \<Longrightarrow> no_bools x"
  shows "accepts (txn_fees_validate F M b58 s v) \<longleftrightarrow> (\<exists>p. fees_parts_of v = Some p \<and> valid_fee_parts M b58 p)"
proof (cases "\<exists>a b c. v = JList [a, b, c]")
  case True
  then obtain a b c where v: "v = JList [a, b, c]" by blast
  have nb: "no_bools a" "no_bools b" using assms [OF v] by auto
  have "accepts (txn_fees_validate F M b58 s v) \<longleftrightarrow>
      accepts (inputs_validator F M b58 s a) \<and> accepts (outputs_validator F M b58 s b) \<and>
      accepts (signatures_validator F M c) \<and> (\<exists>n. j_len a = Inr n \<and> j_len c = Inr n)"
    by (auto simp: v txn_fees_validate_def validate_law txn_fees_specific_def fixed_law accepts_ebind
        split: if_splits)
  then show ?thesis
    unfolding inputs_bounds [OF nb(1)] outputs_bounds [OF nb(2)] signatures_accepts
    by (auto simp: v fees_parts_of_Some valid_fee_parts_def MAX_FEE_OUTPUTS_def
        dest: map_eq_imp_length_eq)
next
  case False
  then have "fees_parts_of v = None" by (cases v rule: fees_parts_of.cases) auto
  moreover have "\<not> accepts (txn_fees_validate F M b58 s v)"
  proof (cases v)
    case (JList xs)
    then have "length xs \<noteq> 3" using False by (auto simp: length_Suc_conv numeral_3_eq_3)
    then show ?thesis by (simp add: JList txn_fees_validate_def validate_law txn_fees_specific_def fixed_law)
  qed (simp_all add: txn_fees_validate_def validate_law type_msg)
  ultimately show ?thesis by simp
qed

end

context fees_field_laws
begin

lemma set_fees_static:
  assumes "dom operation \<subseteq> {''type'', FEES}"
    and "\<And>m p b. operation FEES = Some (JMap m) \<Longrightarrow> p \<in> set m \<Longrightarrow> snd p \<noteq> JBool b"
  shows "set_fees_static_validation F M operation =
    (if operation ''type'' = Some (JStr SET_FEES) \<and>
        (\<exists>v d. operation FEES = Some v \<and> fees_of v = Some d \<and> valid_fees d)
     then Inr () else Inl InvalidClientRequest)"
proof -
  have "ff_message M (SetFeesMsg F M) operation =
      (if schema_ok (SetFeesMsg F M) operation then Inr () else Inl TypeError)"
    by (rule message_law) (use assms(1) in \<open>auto simp: SetFeesMsg_def const_law set_fees_returns\<close>)
  moreover have "schema_ok (SetFeesMsg F M) operation \<longleftrightarrow> operation ''type'' = Some (JStr SET_FEES) \<and>
      (\<exists>v. operation FEES = Some v \<and> accepts (set_fees_validate F M v))"
    by (auto simp: schema_ok_def SetFeesMsg_def const_law split: option.splits)
  moreover have "accepts (set_fees_validate F M v) \<longleftrightarrow> (\<exists>d. fees_of v = Some d \<and> valid_fees d)"
    if "operation FEES = Some v" for v
    by (rule set_fees_accepts) (use assms(2) that in blast)
  ultimately show ?thesis by (auto simp: set_fees_static_validation_def msg_static_validation_def)
qed

lemma get_fee_static:
  assumes "dom operation \<subseteq> {''type'', FEES_ALIAS}"
  shows "get_fee_static_validation M operation =
    (if operation ''type'' = Some (JStr GET_FEE) \<and>
        (\<exists>a. operation FEES_ALIAS = Some (JStr a) \<and> a \<noteq> [] \<and> py_len a \<le> FEE_ALIAS_LENGTH)
     then Inr () else Inl InvalidClientRequest)"
proof -
  have "ff_message M (GetFeeMsg M) operation =
      (if schema_ok (GetFeeMsg M) operation then Inr () else Inl TypeError)"
    by (rule message_law) (use assms in \<open>auto simp: GetFeeMsg_def const_law limited_law\<close>)
  moreover have "schema_ok (GetFeeMsg M) operation \<longleftrightarrow> operation ''type'' = Some (JStr GET_FEE) \<and>
      (\<exists>a. operation FEES_ALIAS = Some (JStr a) \<and> a \<noteq> [] \<and> py_len a \<le> FEE_ALIAS_LENGTH)"
    by (auto simp: schema_ok_def GetFeeMsg_def const_law limited_law split: option.splits)
  ultimately show ?thesis
    unfolding get_fee_static_validation_def msg_static_validation_def by simp
qed

end

text \<open>Base classes that satisfy the laws.\<close>

definition check :: "bool \<Rightarrow> vres" where
  "check b = Inr (if b then None else Some ''invalid'')"

lemma accepts_check [simp]: "accepts (check b) = b" "\<exists>e. check b = Inr e"
  by (auto simp: check_def)

fun ref_map_specific :: "(jval \<Rightarrow> vres) \<Rightarrow> (jval \<Rightarrow> vres) \<Rightarrow> (string \<times> jval) list \<Rightarrow> vres" where
  "ref_map_specific kf vf [] = Inr None"
| "ref_map_specific kf vf ((k, v) # m) = vthen (kf (JStr k)) [] (vthen (vf v) [] (ref_map_specific kf vf m))"

definition ref_fees_fields :: plenum_fees_fields where
  "ref_fees_fields = \<lparr>
     ff_const = (\<lambda>t v. check (v = JStr t)),
     ff_limited = (\<lambda>n v. check (case v of JStr s \<Rightarrow> s \<noteq> [] \<and> py_len s \<le> n | _ \<Rightarrow> False)),
     ff_nonempty = (\<lambda>v. check (case v of JStr s \<Rightarrow> s \<noteq> [] | _ \<Rightarrow> False)),
     ff_nonneg = (\<lambda>v. check (case v of JInt n \<Rightarrow> 0 \<le> n | _ \<Rightarrow> False)),
     ff_signature = (\<lambda>v. check (case v of JStr s \<Rightarrow> s \<noteq> [] | _ \<Rightarrow> False)),
     ff_map_specific = (\<lambda>kf vf v. case v of JMap m \<Rightarrow> ref_map_specific kf vf m | _ \<Rightarrow> Inl TypeError),
     ff_fixed_specific = (\<lambda>n v. ebind (j_len v) (\<lambda>m. check (m = n))),
     ff_iter_specific = (\<lambda>lo hi g v. case v of
        JList xs \<Rightarrow> vthen (check (within lo hi (length xs))) [] (ref_iter_specific g xs) | _ \<Rightarrow> Inl TypeError),
     ff_nullable = (\<lambda>f v. if v = JNone then Inr None else f v),
     ff_message = (\<lambda>schema operation. if schema_ok schema operation then Inr () else Inl TypeError)\<rparr>"

lemma accepts_ref_map: "accepts (ref_map_specific kf vf m) \<longleftrightarrow>
    (\<forall>p\<in>set m. accepts (kf (JStr (fst p))) \<and> accepts (vf (snd p)))"
  by (induction kf vf m rule: ref_map_specific.induct) auto

lemma vthen_returns: "\<exists>e. r = Inr e \<Longrightarrow> \<exists>e. s = Inr e \<Longrightarrow> \<exists>e. vthen r p s = Inr e"
  by (auto simp: vthen_def split: option.splits list.splits)

lemma ref_map_returns:
  assumes "\<And>k. \<exists>e. kf k = Inr e" "\<And>v. \<exists>e. vf v = Inr e"
  shows "\<exists>e. ref_map_specific kf vf m = Inr e"
proof (induction m)
  case (Cons p m)
  then show ?case by (cases p) (simp add: vthen_returns assms)
qed simp

interpretation ref_fees: fees_field_laws ref_fields "\<lambda>_. ''expected types''" ref_fees_fields
proof (unfold_locales, goal_cases)
  case (10 kf vf m)
  then show ?case by (simp add: ref_fees_fields_def ref_map_returns)
qed (auto simp: ref_fees_fields_def accepts_ref_map accepts_ref_iter accepts_ebind split: jval.splits)

section \<open>Properties\<close>

text \<open>C31: The attribute \<open>fees\<close> of a client request passes validation exactly when it is absent, \<open>null\<close>, or a
  list of three parts: at least one input, all inputs different, with valid addresses and
  positive sequence numbers; at most one change output, with a valid address and a positive
  amount; and as many acceptable signatures as inputs.\<close>

theorem fees_field_exact:
  assumes "fees_field_laws F type_msg M" "\<forall>xs x. v = JList xs \<longrightarrow> x \<in> set xs \<longrightarrow> no_bools x"
  shows "accepts (CLIENT_REQUEST_FIELDS_fees F M b58 s None) \<and>
    (accepts (CLIENT_REQUEST_FIELDS_fees F M b58 s (Some v)) \<longleftrightarrow>
      v = JNone \<or> (\<exists>p. fees_parts_of v = Some p \<and> valid_fee_parts M b58 p))"
proof -
  have "accepts (txn_fees_validate F M b58 s v) \<longleftrightarrow> (\<exists>p. fees_parts_of v = Some p \<and> valid_fee_parts M b58 p)"
    by (rule fees_field_laws.txn_fees_accepts [OF assms(1)]) (use assms(2) in blast)
  then show ?thesis
    using fees_field_laws.nullable_law [OF assms(1)] by (simp add: CLIENT_REQUEST_FIELDS_fees_def)
qed

text \<open>C35: An operation whose keys are among those of its message passes the static validation of SET_FEES
  exactly when it has the type and its fees, in which no value is a Boolean, are a dictionary
  from non-empty aliases to non-negative numbers, and that of GET_FEE exactly when it has the
  type and an alias that is a non-empty text of at most 128 characters; every other one,
  incomplete operations included, is refused with \<open>InvalidClientRequest\<close>. In particular SET_FEES
  admits aliases that are too long for GET_FEE.\<close>

theorem fees_static_exact:
  assumes "fees_field_laws F type_msg M"
    and "dom sop \<subseteq> {''type'', FEES}" "\<forall>m p b. sop FEES = Some (JMap m) \<longrightarrow> p \<in> set m \<longrightarrow> snd p \<noteq> JBool b"
    and "dom gop \<subseteq> {''type'', FEES_ALIAS}"
  shows "set_fees_static_validation F M sop =
      (if sop ''type'' = Some (JStr SET_FEES) \<and> (\<exists>v d. sop FEES = Some v \<and> fees_of v = Some d \<and> valid_fees d)
       then Inr () else Inl InvalidClientRequest) \<and>
    get_fee_static_validation M gop =
      (if gop ''type'' = Some (JStr GET_FEE) \<and> (\<exists>a. gop FEES_ALIAS = Some (JStr a) \<and> a \<noteq> [] \<and> py_len a \<le> 128)
       then Inr () else Inl InvalidClientRequest) \<and>
    set_fees_static_validation F M [''type'' \<mapsto> JStr SET_FEES, FEES \<mapsto> JMap [(replicate 129 (CHR ''a''), JInt 1)]] = Inr () \<and>
    get_fee_static_validation M [''type'' \<mapsto> JStr GET_FEE, FEES_ALIAS \<mapsto> JStr (replicate 129 (CHR ''a''))] = Inl InvalidClientRequest"
proof -
  note set_fees = fees_field_laws.set_fees_static [OF assms(1)] and get_fee = fees_field_laws.get_fee_static [OF assms(1)]
  have "set_fees_static_validation F M sop =
      (if sop ''type'' = Some (JStr SET_FEES) \<and> (\<exists>v d. sop FEES = Some v \<and> fees_of v = Some d \<and> valid_fees d)
       then Inr () else Inl InvalidClientRequest)"
    by (rule set_fees [OF assms(2)]) (use assms(3) in blast)
  moreover have "set_fees_static_validation F M
      [''type'' \<mapsto> JStr SET_FEES, FEES \<mapsto> JMap [(replicate 129 (CHR ''a''), JInt 1)]] = Inr ()"
    by (subst set_fees) (auto simp: FEES_def fees_of_def valid_fees_def)
  moreover have "get_fee_static_validation M
      [''type'' \<mapsto> JStr GET_FEE, FEES_ALIAS \<mapsto> JStr (replicate 129 (CHR ''a''))] = Inl InvalidClientRequest"
    by (subst get_fee) (auto simp: FEES_ALIAS_def FEE_ALIAS_LENGTH_def continuation_def)
  ultimately show ?thesis using get_fee [OF assms(4)] by (simp add: FEE_ALIAS_LENGTH_def)
qed

definition ex_fees_field :: jval where
  "ex_fees_field = JList [ex_inputs, JList [], JList [JStr ''sig'']]"

lemma ex_fees_parts: "fees_parts_of ex_fees_field = Some ([ex_valid_input], [], [JStr ''sig''])"
  "valid_fee_parts ref_fees_fields ref_b58 ([ex_valid_input], [], [JStr ''sig''])"
  using ex_items(4) by (simp_all add: ex_fees_field_def ex_inputs_def valid_fee_parts_def
      valid_payouts_def ref_fees_fields_def ex_fe_def)

theorem fees_field_exact_witness:
  "accepts (CLIENT_REQUEST_FIELDS_fees ref_fields ref_fees_fields ref_b58 ''bad'' (Some ex_fees_field)) \<and>
   \<not> accepts (CLIENT_REQUEST_FIELDS_fees ref_fields ref_fees_fields ref_b58 ''bad'' (Some (JList [])))"
proof -
  have "\<forall>xs x. ex_fees_field = JList xs \<longrightarrow> x \<in> set xs \<longrightarrow> no_bools x"
    using ex_op_facts(10) by (auto simp: ex_fees_field_def no_bools_def)
  from fees_field_exact [OF ref_fees.fees_field_laws_axioms this]
    fees_field_exact [OF ref_fees.fees_field_laws_axioms, of "JList []"]
  show ?thesis using ex_fees_parts by auto
qed

text \<open>An alias of 128 characters of two bytes each is accepted, an operation without a type is not.\<close>

theorem fees_static_exact_witness:
  "set_fees_static_validation ref_fields ref_fees_fields [''type'' \<mapsto> JStr SET_FEES, FEES \<mapsto> JMap [(''nym'', JInt 5)]] = Inr () \<and>
   get_fee_static_validation ref_fees_fields
     [''type'' \<mapsto> JStr GET_FEE, FEES_ALIAS \<mapsto> JStr (concat (replicate 128 [char_of (195::nat), char_of (169::nat)]))] = Inr () \<and>
   set_fees_static_validation ref_fields ref_fees_fields [FEES \<mapsto> JMap [(''nym'', JInt 5)]] = Inl InvalidClientRequest"
proof -
  let ?long = "concat (replicate 128 [char_of (195::nat), char_of (169::nat)])"
  let ?sop = "[''type'' \<mapsto> JStr SET_FEES, FEES \<mapsto> JMap [(''nym'', JInt 5)]]"
  have f: "FEES \<noteq> ''type''" "FEES_ALIAS \<noteq> ''type''" by (simp_all add: FEES_def FEES_ALIAS_def)
  have a: "py_len ?long = 128" "?long \<noteq> []" by code_simp+
  have d: "dom ?sop \<subseteq> {''type'', FEES}" "dom [''type'' \<mapsto> JStr GET_FEE, FEES_ALIAS \<mapsto> JStr ?long] \<subseteq> {''type'', FEES_ALIAS}"
    "dom [FEES \<mapsto> JMap [(''nym'', JInt 5)]] \<subseteq> {''type'', FEES}" by auto
  have nb: "\<forall>m p b. ?sop FEES = Some (JMap m) \<longrightarrow> p \<in> set m \<longrightarrow> snd p \<noteq> JBool b"
    "\<forall>m p b. [FEES \<mapsto> JMap [(''nym'', JInt 5)]] FEES = Some (JMap m) \<longrightarrow> p \<in> set m \<longrightarrow> snd p \<noteq> JBool b"
    by auto
  note laws = ref_fees.fees_field_laws_axioms
  show ?thesis
    using fees_static_exact [where sop = ?sop, OF laws d(1) nb(1) d(2)]
      fees_static_exact [where sop = "[FEES \<mapsto> JMap [(''nym'', JInt 5)]]", OF laws d(3) nb(2) d(2)] a f
    by (simp add: fees_of_def valid_fees_def del: fun_upd_apply) (simp add: fun_upd_apply)
qed

end
