(* ===== verification/Plugin_Integration.thy ===== *)
theory Plugin_Integration
  imports Fee_Batches
begin

text \<open>
  How the two plugins enter a node: \<open>integrate_plugin_in_node\<close> of \<open>sovtoken/main.py\<close> and of
  \<open>sovtokenfees/main.py\<close>, with the callbacks of the latter.

  The node and its managers belong to plenum and indy-node. What the plugins do to them is the
  sequence of their calls, a list of \<open>call\<close>; what they read of them is a function of the calls made
  so far (\<open>node_reads\<close>). The locale \<open>node_laws\<close> states the documented effect of the calls on the
  tables of handlers. The property: loaded after the token plugin, the fees plugin succeeds, takes
  over transfers, follows every domain handler and keeps the batch handlers in the order that the
  batches rely on; loaded alone it fails before it has registered anything.
\<close>

section \<open>Handlers and calls\<close>

text \<open>A handler object is its class with the transaction type and the ledger that its constructor
  hands to the base class.\<close>

record req_handler =
  h_class :: string
  h_type :: "string option"
  h_ledger :: int

record batch_handler =
  b_class :: string
  b_ledger :: int

record authnr =
  an_class :: string
  an_write :: "string set"
  an_query :: "string set"

text \<open>The storages that the token plugin creates.\<close>

record storage =
  sg_type :: string
  sg_name :: string

text \<open>State root, transaction root and size that a tracker starts from are a \<open>mark\<close>.\<close>

datatype call =
    SetConfig string string
  | UpdateAuthMap "(auth_action \<times> role_constraint) list"
  | AppendLedgerId int
  | RegisterDatabase int string string storage
  | RegisterStore string storage
  | AddLedger int
  | OnNewLedgerAdded int
  | RegisterReqHandler req_handler "string option"
  | RegisterReqHandlerVersion req_handler string
  | RemoveReqHandler string
  | RegisterReadHandler req_handler
  | RegisterBatchHandler batch_handler "int option" bool
  | RegisterAuthenticator authnr
  | RegisterAuthorizer string
  | RegisterTracker int mark
  | SetPostCatchup int
  | SetPostTxnAdded int
  | Subscribe string string

text \<open>\<open>nr_database\<close>: the committed head hash of the state, the uncommitted root hash and the size of a
  ledger's database, \<open>None\<close> where \<open>get_ledger\<close> and \<open>get_state\<close> return \<open>None\<close>.\<close>

record node_reads =
  nr_handlers :: "call list \<Rightarrow> string \<Rightarrow> req_handler list option"
  nr_types :: "call list \<Rightarrow> int \<Rightarrow> string list"
  nr_batches :: "call list \<Rightarrow> int \<Rightarrow> batch_handler list"
  nr_database :: "call list \<Rightarrow> int \<Rightarrow> mark option"
  nr_ledger_ids :: "call list \<Rightarrow> int set"
  nr_registry :: "call list \<Rightarrow> int set"
  nr_authnr :: "call list \<Rightarrow> string \<Rightarrow> bool"
  nr_config :: "call list \<Rightarrow> string \<Rightarrow> string option"
  nr_node_reg_handler :: batch_handler
  nr_primary_reg_handler :: batch_handler
  nr_audit_b_handler :: batch_handler
  nr_TRUSTEE :: string
  nr_Rocksdb :: string
  nr_DOMAIN :: int
  nr_CONFIG :: int
  nr_AUTH_RULE :: string
  nr_AUTH_RULES :: string

definition call :: "call \<Rightarrow> (call list, unit) proc" where
  "call c cs = (Inr (), cs @ [c])"

section \<open>The handler objects\<close>

definition XferHandler :: req_handler where
  "XferHandler = \<lparr>h_class = ''XferHandler'', h_type = Some XFER_PUBLIC, h_ledger = TOKEN_LEDGER_ID\<rparr>"
definition XferHandler100 :: req_handler where
  "XferHandler100 = XferHandler\<lparr>h_class := ''XferHandler100''\<rparr>"
definition MintHandler :: req_handler where
  "MintHandler = \<lparr>h_class = ''MintHandler'', h_type = Some MINT_PUBLIC, h_ledger = TOKEN_LEDGER_ID\<rparr>"
definition GetUtxoHandler :: req_handler where
  "GetUtxoHandler = \<lparr>h_class = ''GetUtxoHandler'', h_type = Some GET_UTXO, h_ledger = TOKEN_LEDGER_ID\<rparr>"

definition UTXOBatchHandler :: batch_handler where
  "UTXOBatchHandler = \<lparr>b_class = ''UTXOBatchHandler'', b_ledger = TOKEN_LEDGER_ID\<rparr>"
definition TokenBatchHandler :: batch_handler where
  "TokenBatchHandler = \<lparr>b_class = ''TokenBatchHandler'', b_ledger = TOKEN_LEDGER_ID\<rparr>"

definition SetFeesHandler :: "node_reads \<Rightarrow> req_handler" where
  "SetFeesHandler N = \<lparr>h_class = ''SetFeesHandler'', h_type = Some SET_FEES, h_ledger = nr_CONFIG N\<rparr>"
definition SetFeesHandler093 :: "node_reads \<Rightarrow> req_handler" where
  "SetFeesHandler093 N = (SetFeesHandler N)\<lparr>h_class := ''SetFeesHandler093''\<rparr>"
definition XferFeeHandler :: req_handler where
  "XferFeeHandler = XferHandler\<lparr>h_class := ''XferFeeHandler''\<rparr>"
definition DomainFeeHandler :: "node_reads \<Rightarrow> req_handler" where
  "DomainFeeHandler N = \<lparr>h_class = ''DomainFeeHandler'', h_type = None, h_ledger = nr_DOMAIN N\<rparr>"
definition FeeTxnCatchupHandler :: req_handler where
  "FeeTxnCatchupHandler = \<lparr>h_class = ''FeeTxnCatchupHandler'', h_type = Some FEE_TXN, h_ledger = TOKEN_LEDGER_ID\<rparr>"
definition GetFeeHandler :: "node_reads \<Rightarrow> req_handler" where
  "GetFeeHandler N = \<lparr>h_class = ''GetFeeHandler'', h_type = Some GET_FEE, h_ledger = nr_CONFIG N\<rparr>"
definition GetFeesHandler :: "node_reads \<Rightarrow> req_handler" where
  "GetFeesHandler N = \<lparr>h_class = ''GetFeesHandler'', h_type = Some GET_FEES, h_ledger = nr_CONFIG N\<rparr>"
definition AuthRuleFeeHandler :: "node_reads \<Rightarrow> req_handler" where
  "AuthRuleFeeHandler N = \<lparr>h_class = ''AuthRuleFeeHandler'', h_type = Some (nr_AUTH_RULE N), h_ledger = nr_CONFIG N\<rparr>"
definition AuthRulesFeeHandler :: "node_reads \<Rightarrow> req_handler" where
  "AuthRulesFeeHandler N = \<lparr>h_class = ''AuthRulesFeeHandler'', h_type = Some (nr_AUTH_RULES N), h_ledger = nr_CONFIG N\<rparr>"

definition DomainFeeBatchHandler :: "node_reads \<Rightarrow> batch_handler" where
  "DomainFeeBatchHandler N = \<lparr>b_class = ''DomainFeeBatchHandler'', b_ledger = nr_DOMAIN N\<rparr>"
definition TrackerBatchHandler :: batch_handler where
  "TrackerBatchHandler = \<lparr>b_class = ''TrackerBatchHandler'', b_ledger = TOKEN_LEDGER_ID\<rparr>"

section \<open>The token plugin\<close>

definition update_config :: "node_reads \<Rightarrow> (call list, unit) proc" where
  "update_config N = for_each call
     [SetConfig ''tokenTransactionsFile'' ''sovtoken_transactions'',
      SetConfig ''tokenStateStorage'' (nr_Rocksdb N),
      SetConfig ''tokenStateDbName'' ''sovtoken_state'',
      SetConfig ''utxoCacheStorage'' (nr_Rocksdb N),
      SetConfig ''utxoCacheDbName'' ''utxo_cache'']"

text \<open>\<open>config.x\<close>; reading an attribute that was never set raises.\<close>

definition config :: "node_reads \<Rightarrow> string \<Rightarrow> (call list, string) proc" where
  "config N x cs = (case nr_config N cs x of None \<Rightarrow> (Inl AttributeError, cs) | Some v \<Rightarrow> (Inr v, cs))"

definition init_token_state :: "node_reads \<Rightarrow> (call list, storage) proc" where
  "init_token_state N =
     pbind (config N ''tokenStateStorage'') (\<lambda>t. pbind (config N ''tokenStateDbName'') (\<lambda>n.
     preturn \<lparr>sg_type = t, sg_name = n\<rparr>))"

text \<open>The hash store's name and the file of the ledger.\<close>

definition init_token_ledger :: "node_reads \<Rightarrow> (call list, string \<times> string) proc" where
  "init_token_ledger N = pbind (config N ''tokenTransactionsFile'') (\<lambda>file. preturn (''sovtoken'', file))"

definition init_token_database :: "(call list, unit) proc" where
  "init_token_database = pseq (call (AddLedger TOKEN_LEDGER_ID)) (call (OnNewLedgerAdded TOKEN_LEDGER_ID))"

definition init_storages :: "node_reads \<Rightarrow> (call list, unit) proc" where
  "init_storages N =
     pseq (\<lambda>cs. if TOKEN_LEDGER_ID \<notin> nr_ledger_ids N cs then call (AppendLedgerId TOKEN_LEDGER_ID) cs
               else preturn () cs)
    (pbind (init_token_state N) (\<lambda>state.
     pbind (init_token_ledger N) (\<lambda>(hash_store, file).
     pseq (call (RegisterDatabase TOKEN_LEDGER_ID hash_store file state))
    (pseq init_token_database
    (pbind (config N ''utxoCacheStorage'') (\<lambda>t. pbind (config N ''utxoCacheDbName'') (\<lambda>n.
     call (RegisterStore ''utxo_cache'' \<lparr>sg_type = t, sg_name = n\<rparr>))))))))"

definition token_register_req_handlers :: "(call list, unit) proc" where
  "token_register_req_handlers = for_each call
     [RegisterReqHandler XferHandler None,
      RegisterReqHandlerVersion XferHandler100 ''1.0.0'',
      RegisterReqHandler MintHandler None,
      RegisterReadHandler GetUtxoHandler]"

definition token_register_batch_handlers :: "node_reads \<Rightarrow> (call list, unit) proc" where
  "token_register_batch_handlers N = for_each call
     [RegisterBatchHandler UTXOBatchHandler None True,
      RegisterBatchHandler TokenBatchHandler None True,
      RegisterBatchHandler (nr_node_reg_handler N) (Some TOKEN_LEDGER_ID) False,
      RegisterBatchHandler (nr_primary_reg_handler N) (Some TOKEN_LEDGER_ID) False,
      RegisterBatchHandler (nr_audit_b_handler N) (Some TOKEN_LEDGER_ID) False]"

definition token_register_authentication :: "(call list, unit) proc" where
  "token_register_authentication = call (RegisterAuthenticator
     \<lparr>an_class = ''TokenAuthNr'', an_write = ACCEPTABLE_WRITE_TYPES, an_query = ACCEPTABLE_QUERY_TYPES\<rparr>)"

definition integrate_token_plugin :: "node_reads \<Rightarrow> (call list, unit) proc" where
  "integrate_token_plugin N =
     pseq (update_config N)
    (pseq (call (UpdateAuthMap (sovtoken_auth_map (nr_TRUSTEE N))))
    (pseq (init_storages N)
    (pseq token_register_req_handlers
    (pseq (token_register_batch_handlers N)
     token_register_authentication))))"

section \<open>The fees plugin\<close>

text \<open>\<open>token_state.committedHeadHash\<close> of a missing database is an attribute of \<open>None\<close>.\<close>

definition register_trackers :: "node_reads \<Rightarrow> (call list, fees_tracker) proc" where
  "register_trackers N cs = (case nr_database N cs TOKEN_LEDGER_ID of
     None \<Rightarrow> (Inl AttributeError, cs)
   | Some m \<Rightarrow> pseq (call (RegisterTracker TOKEN_LEDGER_ID m)) (preturn tracker_init) cs)"

definition fees_register_req_handlers :: "node_reads \<Rightarrow> (call list, unit) proc" where
  "fees_register_req_handlers N =
     pseq (call (RegisterReqHandler (SetFeesHandler N) None))
    (pseq (call (RegisterReqHandlerVersion (SetFeesHandler093 N) ''0.9.3''))
    (pseq (\<lambda>cs. if nr_handlers N cs XFER_PUBLIC = None then praise ImportError cs
               else call (RemoveReqHandler XFER_PUBLIC) cs)
    (pseq (call (RegisterReqHandler XferFeeHandler None))
    (pseq (\<lambda>cs. for_each (\<lambda>typ. call (RegisterReqHandler (DomainFeeHandler N) (Some typ))) (nr_types N cs (nr_DOMAIN N)) cs)
    (for_each call
       [RegisterReqHandler FeeTxnCatchupHandler None,
        RegisterReadHandler (GetFeeHandler N),
        RegisterReadHandler (GetFeesHandler N),
        RegisterReqHandler (AuthRuleFeeHandler N) None,
        RegisterReqHandler (AuthRulesFeeHandler N) None])))))"

definition fees_register_batch_handlers :: "node_reads \<Rightarrow> (call list, unit) proc" where
  "fees_register_batch_handlers N = for_each call
     [RegisterBatchHandler (DomainFeeBatchHandler N) None False,
      RegisterBatchHandler TrackerBatchHandler None False]"

text \<open>\<open>ledgerRegistry[TOKEN_LEDGER_ID]\<close>.\<close>

definition set_callback :: "node_reads \<Rightarrow> call \<Rightarrow> (call list, unit) proc" where
  "set_callback N c cs = (if TOKEN_LEDGER_ID \<in> nr_registry N cs then call c cs else praise KeyError cs)"

definition set_callbacks :: "node_reads \<Rightarrow> (call list, unit) proc" where
  "set_callbacks N = pseq (set_callback N (SetPostCatchup TOKEN_LEDGER_ID))
     (set_callback N (SetPostTxnAdded TOKEN_LEDGER_ID))"

definition fees_register_authentication :: "node_reads \<Rightarrow> (call list, unit) proc" where
  "fees_register_authentication N =
     pseq (\<lambda>cs. if \<not> nr_authnr N cs ''TokenAuthNr'' then praise ImportError cs else preturn () cs)
    (pseq (call (RegisterAuthenticator
       \<lparr>an_class = ''FeesAuthNr'', an_write = ACCEPTABLE_WRITE_TYPES_FEE, an_query = ACCEPTABLE_QUERY_TYPES_FEE\<rparr>))
     (call (RegisterAuthorizer ''FeesAuthorizer'')))"

definition register_hooks :: "(call list, unit) proc" where
  "register_hooks = call (Subscribe ''PreSigVerification'' ''FeesAuthNr.verify_signature'')"

definition integrate_fees_plugin :: "node_reads \<Rightarrow> (call list, unit) proc" where
  "integrate_fees_plugin N =
     pbind (register_trackers N) (\<lambda>fees_tracker.
     pseq (call (UpdateAuthMap (sovtokenfees_auth_map (nr_TRUSTEE N))))
    (pseq (fees_register_req_handlers N)
    (pseq (fees_register_batch_handlers N)
    (pseq (set_callbacks N)
    (pseq (fees_register_authentication N)
     register_hooks)))))"

section \<open>Callbacks of the token ledger\<close>

text \<open>The callback for transactions added at catch-up; its third argument tells the node whether the
  transaction belongs to a client request.\<close>

definition filter_fees :: "(int \<Rightarrow> 'x \<Rightarrow> bool \<Rightarrow> 'r) \<Rightarrow> ('x \<Rightarrow> string) \<Rightarrow> int \<Rightarrow> 'x \<Rightarrow> 'r" where
  "filter_fees origin_clb get_type ledger_id t = origin_clb ledger_id t (get_type t \<noteq> FEE_TXN)"

definition postCatchupCompleteClb :: "(('s, 'c, 'l, 't) fees_db \<Rightarrow> ('s, 'c, 'l, 't) fees_db) option
    \<Rightarrow> 's state_store \<Rightarrow> 'l ledger_ops \<Rightarrow> ('l \<Rightarrow> int) \<Rightarrow> (string \<Rightarrow> string \<Rightarrow> int \<Rightarrow> 't \<Rightarrow> 't)
    \<Rightarrow> ('s, 'c, 'l, 't) fees_db \<Rightarrow> ('s, 'c, 'l, 't) fees_db" where
  "postCatchupCompleteClb origin_clb st lg lg_size set_last_committed db =
     (let db = (case origin_clb of None \<Rightarrow> db | Some clb \<Rightarrow> clb db) in
      db\<lparr>fd_token_tracker := set_last_committed (st_committedHeadHash st (tk_state db))
           (lg_uncommitted_root_hash lg (fd_ledger db)) (lg_size (fd_ledger db)) (fd_token_tracker db)\<rparr>)"

section \<open>Laws of the node\<close>

definition typ_of :: "req_handler \<Rightarrow> string option \<Rightarrow> string" where
  "typ_of h typ = (case typ of Some t \<Rightarrow> t | None \<Rightarrow> the (h_type h))"

fun handlers_step :: "call \<Rightarrow> (string \<rightharpoonup> req_handler list) \<Rightarrow> (string \<rightharpoonup> req_handler list)" where
  "handlers_step (RegisterReqHandler h typ) hs =
     hs(typ_of h typ \<mapsto> (case hs (typ_of h typ) of None \<Rightarrow> [] | Some l \<Rightarrow> l) @ [h])"
| "handlers_step (RemoveReqHandler t) hs = hs(t := None)"
| "handlers_step _ hs = hs"

fun batches_step :: "call \<Rightarrow> (int \<Rightarrow> batch_handler list) \<Rightarrow> (int \<Rightarrow> batch_handler list)" where
  "batches_step (RegisterBatchHandler b lid add_to_begin) bs =
     (let l = (case lid of Some l \<Rightarrow> l | None \<Rightarrow> b_ledger b)
      in bs(l := (if add_to_begin then b # bs l else bs l @ [b])))"
| "batches_step _ bs = bs"

text \<open>Calls that may change the types of a ledger.\<close>

fun adds_type :: "int \<Rightarrow> string list \<Rightarrow> call \<Rightarrow> bool" where
  "adds_type l types (RegisterReqHandler h typ) \<longleftrightarrow> h_ledger h = l \<and> typ_of h typ \<notin> set types"
| "adds_type l types (RegisterReqHandlerVersion h v) \<longleftrightarrow> h_ledger h = l"
| "adds_type l types (RemoveReqHandler t) \<longleftrightarrow> t \<in> set types"
| "adds_type l types _ \<longleftrightarrow> False"

locale node_laws =
  fixes N :: node_reads
  assumes handlers_law: "nr_handlers N (cs @ [c]) = handlers_step c (nr_handlers N cs)"
    and batches_law: "nr_batches N (cs @ [c]) = batches_step c (nr_batches N cs)"
    and types_law: "\<not> adds_type l (nr_types N cs l) c \<Longrightarrow> nr_types N (cs @ [c]) l = nr_types N cs l"
    and database_law: "nr_database N cs l \<noteq> None \<or> (\<exists>h file s. c = RegisterDatabase l h file s) \<Longrightarrow>
      nr_database N (cs @ [c]) l \<noteq> None"
    and registry_law: "nr_registry N (cs @ [c]) = nr_registry N cs \<union> {l. c = AddLedger l}"
    and authnr_law: "nr_authnr N (cs @ [c]) a \<longleftrightarrow>
      nr_authnr N cs a \<or> (\<exists>x. c = RegisterAuthenticator x \<and> an_class x = a)"
    and config_law: "nr_config N (cs @ [c]) x = (case c of SetConfig y v \<Rightarrow> if x = y then Some v else nr_config N cs x
      | _ \<Rightarrow> nr_config N cs x)"
    and ledgers_differ: "nr_DOMAIN N \<noteq> TOKEN_LEDGER_ID" "nr_CONFIG N \<noteq> TOKEN_LEDGER_ID" "nr_DOMAIN N \<noteq> nr_CONFIG N"
begin

lemma handlers_run: "nr_handlers N (cs @ ds) = foldl (\<lambda>hs c. handlers_step c hs) (nr_handlers N cs) ds"
  by (induction ds rule: rev_induct) (simp_all flip: append_assoc add: handlers_law)

lemma batches_run: "nr_batches N (cs @ ds) = foldl (\<lambda>bs c. batches_step c bs) (nr_batches N cs) ds"
  by (induction ds rule: rev_induct) (simp_all flip: append_assoc add: batches_law)

lemma types_run:
  "\<forall>c\<in>set ds. \<not> adds_type l (nr_types N cs l) c \<Longrightarrow> nr_types N (cs @ ds) l = nr_types N cs l"
proof (induction ds rule: rev_induct)
  case (snoc d ds)
  then show ?case using types_law [of l "cs @ ds" d] by simp
qed simp

lemma registry_run: "nr_registry N (cs @ ds) = nr_registry N cs \<union> {l. AddLedger l \<in> set ds}"
  by (induction ds rule: rev_induct) (auto simp flip: append_assoc simp: registry_law)

lemma authnr_run: "nr_authnr N (cs @ ds) a \<longleftrightarrow>
    nr_authnr N cs a \<or> (\<exists>x. RegisterAuthenticator x \<in> set ds \<and> an_class x = a)"
  by (induction ds rule: rev_induct) (auto simp flip: append_assoc simp: authnr_law)

lemma database_run:
  "nr_database N cs l \<noteq> None \<or> (\<exists>h file s. RegisterDatabase l h file s \<in> set ds) \<Longrightarrow>
   nr_database N (cs @ ds) l \<noteq> None"
proof (induction ds rule: rev_induct)
  case (snoc d ds)
  then show ?case using database_law [of "cs @ ds" l d] unfolding set_append append_assoc by fastforce
qed simp

end

section \<open>The calls of a plugin\<close>

lemma call_app [simp]: "call c cs = (Inr (), cs @ [c])"
  by (simp add: call_def)

lemma for_each_call: "for_each call ds cs = (Inr (), cs @ ds)"
  by (induction ds arbitrary: cs) (simp_all add: pseq_ok)

lemma for_each_calls: "for_each (\<lambda>x. call (f x)) xs cs = (Inr (), cs @ map f xs)"
  by (induction xs arbitrary: cs) (simp_all add: pseq_ok)

definition config_calls :: "node_reads \<Rightarrow> call list" where
  "config_calls N =
     [SetConfig ''tokenTransactionsFile'' ''sovtoken_transactions'', SetConfig ''tokenStateStorage'' (nr_Rocksdb N),
      SetConfig ''tokenStateDbName'' ''sovtoken_state'', SetConfig ''utxoCacheStorage'' (nr_Rocksdb N),
      SetConfig ''utxoCacheDbName'' ''utxo_cache'', UpdateAuthMap (sovtoken_auth_map (nr_TRUSTEE N))]"

definition storage_calls :: "node_reads \<Rightarrow> call list \<Rightarrow> call list" where
  "storage_calls N cs =
     (if TOKEN_LEDGER_ID \<in> nr_ledger_ids N cs then [] else [AppendLedgerId TOKEN_LEDGER_ID]) @
     [RegisterDatabase TOKEN_LEDGER_ID ''sovtoken'' ''sovtoken_transactions'' \<lparr>sg_type = nr_Rocksdb N, sg_name = ''sovtoken_state''\<rparr>,
      AddLedger TOKEN_LEDGER_ID, OnNewLedgerAdded TOKEN_LEDGER_ID,
      RegisterStore ''utxo_cache'' \<lparr>sg_type = nr_Rocksdb N, sg_name = ''utxo_cache''\<rparr>]"

definition handler_calls :: "node_reads \<Rightarrow> call list" where
  "handler_calls N =
     [RegisterReqHandler XferHandler None, RegisterReqHandlerVersion XferHandler100 ''1.0.0'',
      RegisterReqHandler MintHandler None, RegisterReadHandler GetUtxoHandler,
      RegisterBatchHandler UTXOBatchHandler None True, RegisterBatchHandler TokenBatchHandler None True,
      RegisterBatchHandler (nr_node_reg_handler N) (Some TOKEN_LEDGER_ID) False,
      RegisterBatchHandler (nr_primary_reg_handler N) (Some TOKEN_LEDGER_ID) False,
      RegisterBatchHandler (nr_audit_b_handler N) (Some TOKEN_LEDGER_ID) False,
      RegisterAuthenticator \<lparr>an_class = ''TokenAuthNr'', an_write = ACCEPTABLE_WRITE_TYPES, an_query = ACCEPTABLE_QUERY_TYPES\<rparr>]"

definition token_calls :: "node_reads \<Rightarrow> call list \<Rightarrow> call list" where
  "token_calls N cs = config_calls N @ storage_calls N (cs @ config_calls N) @ handler_calls N"

definition fees_calls :: "node_reads \<Rightarrow> mark \<Rightarrow> string list \<Rightarrow> call list" where
  "fees_calls N m types =
     [RegisterTracker TOKEN_LEDGER_ID m, UpdateAuthMap (sovtokenfees_auth_map (nr_TRUSTEE N)),
      RegisterReqHandler (SetFeesHandler N) None, RegisterReqHandlerVersion (SetFeesHandler093 N) ''0.9.3'',
      RemoveReqHandler XFER_PUBLIC, RegisterReqHandler XferFeeHandler None] @
     map (\<lambda>typ. RegisterReqHandler (DomainFeeHandler N) (Some typ)) types @
     [RegisterReqHandler FeeTxnCatchupHandler None, RegisterReadHandler (GetFeeHandler N),
      RegisterReadHandler (GetFeesHandler N), RegisterReqHandler (AuthRuleFeeHandler N) None,
      RegisterReqHandler (AuthRulesFeeHandler N) None,
      RegisterBatchHandler (DomainFeeBatchHandler N) None False, RegisterBatchHandler TrackerBatchHandler None False,
      SetPostCatchup TOKEN_LEDGER_ID, SetPostTxnAdded TOKEN_LEDGER_ID,
      RegisterAuthenticator \<lparr>an_class = ''FeesAuthNr'', an_write = ACCEPTABLE_WRITE_TYPES_FEE, an_query = ACCEPTABLE_QUERY_TYPES_FEE\<rparr>,
      RegisterAuthorizer ''FeesAuthorizer'', Subscribe ''PreSigVerification'' ''FeesAuthNr.verify_signature'']"

context node_laws
begin

lemma config_run: "nr_config N (cs @ ds) x =
    foldl (\<lambda>v c. case c of SetConfig y w \<Rightarrow> if x = y then Some w else v | _ \<Rightarrow> v) (nr_config N cs x) ds"
  by (induction ds rule: rev_induct) (simp_all flip: append_assoc add: config_law split: call.splits)

lemma token_plugin_calls: "integrate_token_plugin N cs = (Inr (), cs @ token_calls N cs)"
proof -
  have cfg: "nr_config N (cs @ config_calls N @ ds) ''tokenTransactionsFile'' = Some ''sovtoken_transactions''"
      "nr_config N (cs @ config_calls N @ ds) ''tokenStateStorage'' = Some (nr_Rocksdb N)"
      "nr_config N (cs @ config_calls N @ ds) ''tokenStateDbName'' = Some ''sovtoken_state''"
      "nr_config N (cs @ config_calls N @ ds) ''utxoCacheStorage'' = Some (nr_Rocksdb N)"
      "nr_config N (cs @ config_calls N @ ds) ''utxoCacheDbName'' = Some ''utxo_cache''"
    if "\<forall>y w. SetConfig y w \<notin> set ds" for ds
  proof -
    have "nr_config N (cs @ config_calls N @ ds) x = nr_config N (cs @ config_calls N) x" for x
      using that unfolding append_assoc [symmetric]
      by (induction ds rule: rev_induct) (auto simp flip: append_assoc simp: config_law split: call.splits)
    then show "nr_config N (cs @ config_calls N @ ds) ''tokenTransactionsFile'' = Some ''sovtoken_transactions''"
      "nr_config N (cs @ config_calls N @ ds) ''tokenStateStorage'' = Some (nr_Rocksdb N)"
      "nr_config N (cs @ config_calls N @ ds) ''tokenStateDbName'' = Some ''sovtoken_state''"
      "nr_config N (cs @ config_calls N @ ds) ''utxoCacheStorage'' = Some (nr_Rocksdb N)"
      "nr_config N (cs @ config_calls N @ ds) ''utxoCacheDbName'' = Some ''utxo_cache''"
      by (simp_all only: config_run) (simp_all add: config_calls_def)
  qed
  have "init_storages N (cs @ config_calls N) = (Inr (), cs @ config_calls N @ storage_calls N (cs @ config_calls N))"
    using cfg cfg [of "[]", simplified] by (simp add: init_storages_def init_token_state_def init_token_ledger_def init_token_database_def
        config_def pseq_def pbind_def storage_calls_def)
  then show ?thesis
    by (simp add: integrate_token_plugin_def update_config_def for_each_call pseq_def pbind_def token_calls_def
        config_calls_def handler_calls_def token_register_req_handlers_def
        token_register_batch_handlers_def token_register_authentication_def)
qed

lemma fees_plugin_calls:
  assumes "nr_database N cs TOKEN_LEDGER_ID = Some m" "nr_handlers N cs XFER_PUBLIC \<noteq> None"
    and "TOKEN_LEDGER_ID \<in> nr_registry N cs" "nr_authnr N cs ''TokenAuthNr''"
    and "XFER_PUBLIC \<notin> set (nr_types N cs (nr_DOMAIN N))"
  shows "integrate_fees_plugin N cs = (Inr (), cs @ fees_calls N m (nr_types N cs (nr_DOMAIN N)))"
proof -
  let ?pre = "[RegisterTracker TOKEN_LEDGER_ID m, UpdateAuthMap (sovtokenfees_auth_map (nr_TRUSTEE N)),
      RegisterReqHandler (SetFeesHandler N) None, RegisterReqHandlerVersion (SetFeesHandler093 N) ''0.9.3'']"
  have "SET_FEES \<noteq> XFER_PUBLIC" by (simp add: fees_type_defs txn_type_defs)
  then have h: "nr_handlers N (cs @ ?pre) XFER_PUBLIC \<noteq> None"
    using assms(2) by (simp only: handlers_run) (simp add: SetFeesHandler_def typ_of_def)
  have t: "nr_types N (cs @ ?pre @ [RemoveReqHandler XFER_PUBLIC, RegisterReqHandler XferFeeHandler None]) (nr_DOMAIN N)
      = nr_types N cs (nr_DOMAIN N)"
    by (rule types_run) (use assms(5) ledgers_differ in \<open>auto simp: SetFeesHandler_def SetFeesHandler093_def XferFeeHandler_def XferHandler_def\<close>)
  show ?thesis
    using assms(1,3,4) h t
    by (simp add: integrate_fees_plugin_def register_trackers_def fees_register_req_handlers_def
        fees_register_batch_handlers_def set_callbacks_def set_callback_def fees_register_authentication_def
        register_hooks_def fees_calls_def for_each_call for_each_calls pseq_def pbind_def
        registry_run authnr_run)
qed

end

section \<open>The tables after both plugins\<close>

definition listed :: "(string \<rightharpoonup> req_handler list) \<Rightarrow> string \<Rightarrow> req_handler list" where
  "listed hs t = (case hs t of None \<Rightarrow> [] | Some l \<Rightarrow> l)"

definition plugin_types :: "node_reads \<Rightarrow> string list" where
  "plugin_types N = [MINT_PUBLIC, XFER_PUBLIC, SET_FEES, FEE_TXN, nr_AUTH_RULE N, nr_AUTH_RULES N]"

text \<open>A node that has not seen the plugins: their types have no handlers, the token ledger no database
  and no batch handlers, and the types of the domain ledger are other ones.\<close>

definition fresh_node :: "node_reads \<Rightarrow> call list \<Rightarrow> bool" where
  "fresh_node N cs \<longleftrightarrow>
     nr_database N cs TOKEN_LEDGER_ID = None \<and> nr_batches N cs TOKEN_LEDGER_ID = [] \<and>
     (\<forall>t\<in>{MINT_PUBLIC, XFER_PUBLIC, SET_FEES, FEE_TXN}. nr_handlers N cs t = None) \<and>
     distinct (plugin_types N) \<and> distinct (nr_types N cs (nr_DOMAIN N)) \<and>
     set (plugin_types N) \<inter> set (nr_types N cs (nr_DOMAIN N)) = {}"

lemma domain_handlers: "distinct ts \<Longrightarrow>
    foldl (\<lambda>hs c. handlers_step c hs) hs (map (\<lambda>t. RegisterReqHandler h (Some t)) ts) t =
    (if t \<in> set ts then Some (listed hs t @ [h]) else hs t)"
  by (induction ts arbitrary: hs) (auto simp: typ_of_def listed_def)

lemma domain_batches:
  "foldl (\<lambda>bs c. batches_step c bs) bs (map (\<lambda>t. RegisterReqHandler h (Some t)) ts) = bs"
  by (induction ts arbitrary: bs) auto

lemmas handler_defs = XferHandler_def XferHandler100_def MintHandler_def GetUtxoHandler_def
  SetFeesHandler_def SetFeesHandler093_def XferFeeHandler_def DomainFeeHandler_def
  FeeTxnCatchupHandler_def GetFeeHandler_def GetFeesHandler_def AuthRuleFeeHandler_def
  AuthRulesFeeHandler_def UTXOBatchHandler_def TokenBatchHandler_def DomainFeeBatchHandler_def
  TrackerBatchHandler_def

context node_laws
begin

lemma token_handlers:
  "nr_handlers N (cs @ token_calls N cs) = (nr_handlers N cs)
     (XFER_PUBLIC \<mapsto> listed (nr_handlers N cs) XFER_PUBLIC @ [XferHandler],
      MINT_PUBLIC \<mapsto> listed (nr_handlers N cs) MINT_PUBLIC @ [MintHandler])"
  by (simp add: handlers_run token_calls_def config_calls_def storage_calls_def handler_calls_def
      typ_of_def handler_defs listed_def txn_type_defs fun_upd_twist)

lemma token_batches:
  "nr_batches N (cs @ token_calls N cs) = (nr_batches N cs)
     (TOKEN_LEDGER_ID := [TokenBatchHandler, UTXOBatchHandler] @ nr_batches N cs TOKEN_LEDGER_ID @
        [nr_node_reg_handler N, nr_primary_reg_handler N, nr_audit_b_handler N])"
  by (simp add: batches_run token_calls_def config_calls_def storage_calls_def handler_calls_def handler_defs)

lemma token_types: "nr_types N (cs @ token_calls N cs) (nr_DOMAIN N) = nr_types N cs (nr_DOMAIN N)"
  by (rule types_run) (use ledgers_differ in \<open>auto simp: token_calls_def config_calls_def storage_calls_def
      handler_calls_def handler_defs\<close>)

lemma fees_handlers:
  assumes "distinct (plugin_types N)" "distinct types" "set (plugin_types N) \<inter> set types = {}"
  shows "nr_handlers N (cs @ fees_calls N m types) t =
    (if t \<in> set types then Some (listed (nr_handlers N cs) t @ [DomainFeeHandler N])
     else if t = XFER_PUBLIC then Some [XferFeeHandler]
     else if t = SET_FEES then Some (listed (nr_handlers N cs) t @ [SetFeesHandler N])
     else if t = FEE_TXN then Some (listed (nr_handlers N cs) t @ [FeeTxnCatchupHandler])
     else if t = nr_AUTH_RULE N then Some (listed (nr_handlers N cs) t @ [AuthRuleFeeHandler N])
     else if t = nr_AUTH_RULES N then Some (listed (nr_handlers N cs) t @ [AuthRulesFeeHandler N])
     else nr_handlers N cs t)"
proof -
  have d: "XFER_PUBLIC \<noteq> SET_FEES" "XFER_PUBLIC \<noteq> FEE_TXN" "SET_FEES \<noteq> FEE_TXN"
    by (simp_all add: fees_type_defs txn_type_defs)
  show ?thesis
    using assms d unfolding plugin_types_def
    by (auto simp: handlers_run fees_calls_def domain_handlers typ_of_def handler_defs listed_def)
qed

lemma fees_batches:
  "nr_batches N (cs @ fees_calls N m types) = (nr_batches N cs)
     (nr_DOMAIN N := nr_batches N cs (nr_DOMAIN N) @ [DomainFeeBatchHandler N],
      TOKEN_LEDGER_ID := nr_batches N cs TOKEN_LEDGER_ID @ [TrackerBatchHandler])"
  using ledgers_differ by (auto simp: batches_run fees_calls_def domain_batches handler_defs Let_def)

lemma both_plugins:
  assumes "fresh_node N cs"
  shows "\<exists>m. pseq (integrate_token_plugin N) (integrate_fees_plugin N) cs =
    (Inr (), (cs @ token_calls N cs) @ fees_calls N m (nr_types N cs (nr_DOMAIN N)))"
proof -
  let ?c = "cs @ token_calls N cs"
  have "nr_database N ?c TOKEN_LEDGER_ID \<noteq> None"
    by (rule database_run, rule disjI2, (rule exI)+)
      (simp add: token_calls_def storage_calls_def, blast)
  then obtain m where m: "nr_database N ?c TOKEN_LEDGER_ID = Some m" by blast
  have "integrate_fees_plugin N ?c = (Inr (), ?c @ fees_calls N m (nr_types N ?c (nr_DOMAIN N)))"
  proof (rule fees_plugin_calls [OF m])
    show "XFER_PUBLIC \<notin> set (nr_types N ?c (nr_DOMAIN N))"
      using assms unfolding token_types fresh_node_def plugin_types_def by auto
    show "nr_handlers N ?c XFER_PUBLIC \<noteq> None" by (simp add: token_handlers)
  qed (auto simp: registry_run authnr_run token_calls_def storage_calls_def handler_calls_def)
  then show ?thesis by (intro exI [of _ m]) (simp add: pseq_def pbind_def token_plugin_calls token_types)
qed

end

text \<open>A node with two domain types that keeps its tables by following the calls.\<close>

definition NymHandler :: req_handler where
  "NymHandler = \<lparr>h_class = ''NymHandler'', h_type = Some ''1'', h_ledger = 1\<rparr>"

fun registers_database :: "int \<Rightarrow> call \<Rightarrow> bool" where
  "registers_database l (RegisterDatabase k _ _ _) \<longleftrightarrow> k = l"
| "registers_database l _ \<longleftrightarrow> False"

fun registers_authnr :: "string \<Rightarrow> call \<Rightarrow> bool" where
  "registers_authnr a (RegisterAuthenticator x) \<longleftrightarrow> an_class x = a"
| "registers_authnr a _ \<longleftrightarrow> False"

lemma registers_iff:
  "registers_database l c \<longleftrightarrow> (\<exists>h file s. c = RegisterDatabase l h file s)"
  "registers_authnr a c \<longleftrightarrow> (\<exists>x. c = RegisterAuthenticator x \<and> an_class x = a)"
  by (cases c; auto)+

definition ref_node :: node_reads where
  "ref_node = \<lparr>
     nr_handlers = foldl (\<lambda>hs c. handlers_step c hs) [''1'' \<mapsto> [NymHandler], ''100'' \<mapsto> [NymHandler]],
     nr_types = (\<lambda>cs l. if l = 1 then [''1'', ''100''] else []),
     nr_batches = foldl (\<lambda>bs c. batches_step c bs) (\<lambda>l. []),
     nr_database = (\<lambda>cs l. if list_ex (registers_database l) cs
       then Some (''state'', ''root'', 0) else None),
     nr_ledger_ids = (\<lambda>cs. {0, 1, 2}),
     nr_registry = (\<lambda>cs. {l. AddLedger l \<in> set cs}),
     nr_authnr = (\<lambda>cs a. list_ex (registers_authnr a) cs),
     nr_config = (\<lambda>cs x. foldl (\<lambda>v c. case c of SetConfig y w \<Rightarrow> if x = y then Some w else v | _ \<Rightarrow> v) None cs),
     nr_node_reg_handler = \<lparr>b_class = ''NodeRegHandler'', b_ledger = 0\<rparr>,
     nr_primary_reg_handler = \<lparr>b_class = ''PrimaryRegHandler'', b_ledger = 0\<rparr>,
     nr_audit_b_handler = \<lparr>b_class = ''AuditBatchHandler'', b_ledger = 3\<rparr>,
     nr_TRUSTEE = ''0'', nr_Rocksdb = ''rocksdb'', nr_DOMAIN = 1, nr_CONFIG = 2,
     nr_AUTH_RULE = ''120'', nr_AUTH_RULES = ''122''\<rparr>"

interpretation ref_node: node_laws ref_node
proof (unfold_locales, goal_cases)
  case (4 cs l c)
  then show ?case by (auto simp: ref_node_def registers_iff split: if_splits)
next
  case (7 cs c x)
  then show ?case by (cases c) (simp_all add: ref_node_def)
qed (auto simp: ref_node_def TOKEN_LEDGER_ID_def registers_iff)

section \<open>Properties\<close>

text \<open>C36: On a node that has seen neither plugin, the fees plugin alone fails with \<open>AttributeError\<close> (not the
  \<open>ImportError\<close> that its later checks would raise) before it has changed anything; after the
  token plugin it succeeds, and then transfers have the fee handler as their only handler, every
  domain type has the fee handler after its own ones, AUTH_RULE, AUTH_RULES, SET_FEES and fee
  transactions have theirs, the batches of the token ledger go through the token, UTXO, node's
  and tracker handlers in this order, and those of the domain ledger end with the fee handler.\<close>

theorem integration_wires_node:
  assumes "node_laws N" "fresh_node N cs"
  shows "integrate_fees_plugin N cs = (Inl AttributeError, cs) \<and>
    (\<exists>ds. pseq (integrate_token_plugin N) (integrate_fees_plugin N) cs = (Inr (), ds) \<and>
      nr_handlers N ds XFER_PUBLIC = Some [XferFeeHandler] \<and> nr_handlers N ds MINT_PUBLIC = Some [MintHandler] \<and>
      nr_handlers N ds SET_FEES = Some [SetFeesHandler N] \<and> nr_handlers N ds FEE_TXN = Some [FeeTxnCatchupHandler] \<and>
      (\<forall>t\<in>set (nr_types N cs (nr_DOMAIN N)).
        nr_handlers N ds t = Some (listed (nr_handlers N cs) t @ [DomainFeeHandler N])) \<and>
      last (listed (nr_handlers N ds) (nr_AUTH_RULE N)) = AuthRuleFeeHandler N \<and>
      last (listed (nr_handlers N ds) (nr_AUTH_RULES N)) = AuthRulesFeeHandler N \<and>
      nr_batches N ds TOKEN_LEDGER_ID = [TokenBatchHandler, UTXOBatchHandler, nr_node_reg_handler N,
        nr_primary_reg_handler N, nr_audit_b_handler N, TrackerBatchHandler] \<and>
      nr_batches N ds (nr_DOMAIN N) = nr_batches N cs (nr_DOMAIN N) @ [DomainFeeBatchHandler N])"
proof
  show "integrate_fees_plugin N cs = (Inl AttributeError, cs)"
    using assms(2) by (simp add: integrate_fees_plugin_def register_trackers_def pbind_def fresh_node_def)
next
  let ?ts = "nr_types N cs (nr_DOMAIN N)"
  obtain m where run: "pseq (integrate_token_plugin N) (integrate_fees_plugin N) cs =
      (Inr (), (cs @ token_calls N cs) @ fees_calls N m ?ts)"
    using node_laws.both_plugins [OF assms] by blast
  have disj: "distinct (plugin_types N)" "distinct ?ts" "set (plugin_types N) \<inter> set ?ts = {}"
    and none: "nr_handlers N cs XFER_PUBLIC = None" "nr_handlers N cs MINT_PUBLIC = None"
      "nr_handlers N cs SET_FEES = None" "nr_handlers N cs FEE_TXN = None" "nr_batches N cs TOKEN_LEDGER_ID = []"
    using assms(2) by (simp_all add: fresh_node_def)
  note hs = node_laws.fees_handlers [OF assms(1) disj, of "cs @ token_calls N cs" m]
    and bs = node_laws.fees_batches [OF assms(1), of "cs @ token_calls N cs" m ?ts]
    and tok = node_laws.token_handlers [OF assms(1)] node_laws.token_batches [OF assms(1)]
    and ledgers = node_laws.ledgers_differ [OF assms(1)]
  have ne: "\<forall>t\<in>set ?ts. t \<noteq> XFER_PUBLIC \<and> t \<noteq> MINT_PUBLIC" "\<forall>t\<in>set (plugin_types N). t \<notin> set ?ts"
    using disj(3) by (auto simp: plugin_types_def)
  let ?ds = "(cs @ token_calls N cs) @ fees_calls N m ?ts"
  have plug: "nr_handlers N ?ds XFER_PUBLIC = Some [XferFeeHandler]" "nr_handlers N ?ds MINT_PUBLIC = Some [MintHandler]"
    "nr_handlers N ?ds SET_FEES = Some [SetFeesHandler N]" "nr_handlers N ?ds FEE_TXN = Some [FeeTxnCatchupHandler]"
    using disj(1) ne(2) none unfolding hs tok plugin_types_def by (auto simp: listed_def)
  have dom: "\<forall>t\<in>set ?ts. nr_handlers N ?ds t = Some (listed (nr_handlers N cs) t @ [DomainFeeHandler N])"
    using ne(1) unfolding hs tok by (auto simp: listed_def)
  have auth: "last (listed (nr_handlers N ?ds) (nr_AUTH_RULE N)) = AuthRuleFeeHandler N"
    "last (listed (nr_handlers N ?ds) (nr_AUTH_RULES N)) = AuthRulesFeeHandler N"
    using disj(1) ne(2) unfolding listed_def hs plugin_types_def by auto
  have batches: "nr_batches N ?ds TOKEN_LEDGER_ID = [TokenBatchHandler, UTXOBatchHandler, nr_node_reg_handler N,
        nr_primary_reg_handler N, nr_audit_b_handler N, TrackerBatchHandler]"
    "nr_batches N ?ds (nr_DOMAIN N) = nr_batches N cs (nr_DOMAIN N) @ [DomainFeeBatchHandler N]"
    using none(5) ledgers(1) unfolding bs tok by simp_all
  show "\<exists>ds. pseq (integrate_token_plugin N) (integrate_fees_plugin N) cs = (Inr (), ds) \<and>
      nr_handlers N ds XFER_PUBLIC = Some [XferFeeHandler] \<and> nr_handlers N ds MINT_PUBLIC = Some [MintHandler] \<and>
      nr_handlers N ds SET_FEES = Some [SetFeesHandler N] \<and> nr_handlers N ds FEE_TXN = Some [FeeTxnCatchupHandler] \<and>
      (\<forall>t\<in>set ?ts. nr_handlers N ds t = Some (listed (nr_handlers N cs) t @ [DomainFeeHandler N])) \<and>
      last (listed (nr_handlers N ds) (nr_AUTH_RULE N)) = AuthRuleFeeHandler N \<and>
      last (listed (nr_handlers N ds) (nr_AUTH_RULES N)) = AuthRulesFeeHandler N \<and>
      nr_batches N ds TOKEN_LEDGER_ID = [TokenBatchHandler, UTXOBatchHandler, nr_node_reg_handler N,
        nr_primary_reg_handler N, nr_audit_b_handler N, TrackerBatchHandler] \<and>
      nr_batches N ds (nr_DOMAIN N) = nr_batches N cs (nr_DOMAIN N) @ [DomainFeeBatchHandler N]"
    using run plug dom auth batches by blast
qed

theorem integration_wires_node_witness:
  "integrate_fees_plugin ref_node [] = (Inl AttributeError, []) \<and>
   (\<exists>ds. pseq (integrate_token_plugin ref_node) (integrate_fees_plugin ref_node) [] = (Inr (), ds) \<and>
     nr_handlers ref_node ds ''100'' = Some [NymHandler, DomainFeeHandler ref_node])"
proof -
  have "fresh_node ref_node []"
    by (simp add: fresh_node_def ref_node_def plugin_types_def txn_type_defs fees_type_defs)
  from integration_wires_node [OF ref_node.node_laws_axioms this]
  show ?thesis by (auto simp: ref_node_def listed_def)
qed

text \<open>After catch-up the tracker starts from the committed state root and the ledger as it is.\<close>

theorem post_catchup_mark:
  assumes "\<And>sr xr n t. view (set_last_committed sr xr n t) = ((sr, xr, n), snd (view t))"
  shows "fst (view (fd_token_tracker (postCatchupCompleteClb None st lg lg_size set_last_committed db))) =
      (st_committedHeadHash st (tk_state db), lg_uncommitted_root_hash lg (fd_ledger db), lg_size (fd_ledger db)) \<and>
    filter_fees (\<lambda>_ _ client. client) get_type ledger_id t = (get_type t \<noteq> FEE_TXN)"
  by (simp add: postCatchupCompleteClb_def assms filter_fees_def)

end
