(* ===== verification/Version_Tool.thy ===== *)
theory Version_Tool
  imports PyJson "HOL-Library.AList"
begin

text \<open>
  The release glue of the repository: \<open>updateVersion.py\<close>, which writes a version into the metadata of
  both packages, and the loaders of \<open>sovtoken/__metadata__.py\<close> and \<open>sovtokenfees/__metadata__.py\<close>, which
  read them when a package is imported or built.

  A file holds a JSON value or is no JSON (\<open>Some None\<close>); the package \<open>semver\<close> is an argument. The lemmas
  say that a successful run gives both packages the same new version and changes nothing else, and
  that an invalid tag changes nothing.
\<close>

record tool_state =
  ts_files :: "string \<rightharpoonup> jval option"
  ts_out :: "string list"

record 'v semver =
  sv_is_valid :: "string \<Rightarrow> bool"
  sv_parse :: "string \<Rightarrow> exn + 'v"
  sv_replace_prerelease :: "'v \<Rightarrow> string \<Rightarrow> 'v"
  sv_str :: "'v \<Rightarrow> string"

text \<open>\<open>argparse\<close> demands exactly one of the three options.\<close>

datatype tool_args = Tag string | Timestamp string | GetVersion

definition SOVTOKEN_METADATA :: string where "SOVTOKEN_METADATA = ''sovtoken/sovtoken/metadata.json''"
definition SOVTOKENFEES_METADATA :: string where "SOVTOKENFEES_METADATA = ''sovtokenfees/sovtokenfees/metadata.json''"

section \<open>Files\<close>

text \<open>\<open>json.load(open(file))\<close>; a text that is no JSON raises a subclass of \<open>ValueError\<close>.\<close>

definition json_load :: "string \<Rightarrow> (tool_state, jval) proc" where
  "json_load file s = (case ts_files s file of
     None \<Rightarrow> (Inl FileNotFoundError, s) | Some None \<Rightarrow> (Inl ValueError, s) | Some (Some v) \<Rightarrow> (Inr v, s))"

definition json_dump :: "jval \<Rightarrow> string \<Rightarrow> (tool_state, unit) proc" where
  "json_dump v file s = (Inr (), s\<lparr>ts_files := (ts_files s)(file \<mapsto> Some v)\<rparr>)"

definition py_print :: "string \<Rightarrow> (tool_state, unit) proc" where
  "py_print x s = (Inr (), s\<lparr>ts_out := ts_out s @ [x]\<rparr>)"

text \<open>\<open>data["version"] = version\<close>.\<close>

fun set_version :: "jval \<Rightarrow> string \<Rightarrow> exn + jval" where
  "set_version (JMap m) v = Inr (JMap (AList.update ''version'' (JStr v) m))"
| "set_version _ v = Inl TypeError"

section \<open>updateVersion.py\<close>

fun parse_version :: "'v semver \<Rightarrow> jval \<Rightarrow> exn + 'v" where
  "parse_version sv (JStr s) = sv_parse sv s"
| "parse_version sv _ = Inl TypeError"

definition updateWithTag :: "'v semver \<Rightarrow> string \<Rightarrow> (tool_state, string) proc" where
  "updateWithTag sv ver = (if \<not> sv_is_valid sv ver then praise ValueError else preturn ver)"

definition current_version :: "'v semver \<Rightarrow> (tool_state, 'v) proc" where
  "current_version sv = pbind (json_load SOVTOKEN_METADATA) (\<lambda>data.
     pbind (plift (j_get data ''version'')) (\<lambda>v. plift (parse_version sv v)))"

definition updateWithTimestamp :: "'v semver \<Rightarrow> string \<Rightarrow> (tool_state, string) proc" where
  "updateWithTimestamp sv timestamp = pbind (current_version sv) (\<lambda>v.
     preturn (sv_str sv (sv_replace_prerelease sv v (''dev'' @ timestamp))))"

definition write_version :: "string \<Rightarrow> string \<Rightarrow> (tool_state, unit) proc" where
  "write_version version file = pbind (json_load file) (\<lambda>data.
     pbind (plift (set_version data version)) (\<lambda>data. json_dump data file))"

definition update_both :: "string \<Rightarrow> (tool_state, unit) proc" where
  "update_both version =
     pseq (write_version version SOVTOKEN_METADATA)
    (pseq (write_version version SOVTOKENFEES_METADATA)
     (py_print (''Updated version of sovtoken and sovtokenfees metadata.json to:  '' @ version)))"

definition updateVersion :: "'v semver \<Rightarrow> tool_args \<Rightarrow> (tool_state, unit) proc" where
  "updateVersion sv args = (case args of
     GetVersion \<Rightarrow> pbind (current_version sv) (\<lambda>v. py_print (sv_str sv v))
   | Tag t \<Rightarrow> pbind (updateWithTag sv t) (\<lambda>version.
       pseq (py_print (''Version will be updated to: '' @ version)) (update_both version))
   | Timestamp t \<Rightarrow> pbind (updateWithTimestamp sv t) (\<lambda>version.
       pseq (py_print (''Replacing  Dev-Version with UX-timestamp: '' @ version)) (update_both version)))"

section \<open>The metadata of a package\<close>

definition loadAuthor :: "string \<Rightarrow> (tool_state, jval) proc" where
  "loadAuthor metadata_file = pbind (json_load metadata_file) (\<lambda>data. plift (j_get data ''author''))"

definition loadLicense :: "string \<Rightarrow> (tool_state, jval) proc" where
  "loadLicense metadata_file = pbind (json_load metadata_file) (\<lambda>data. plift (j_get data ''license''))"

definition loadVersion :: "string \<Rightarrow> (tool_state, jval) proc" where
  "loadVersion metadata_file = pbind (json_load metadata_file) (\<lambda>data. plift (j_get data ''version''))"

section \<open>Properties\<close>

lemma write_version_Inr:
  assumes "write_version version file s = (Inr (), s')"
  shows "\<exists>m. ts_files s file = Some (Some (JMap m)) \<and>
    s' = s\<lparr>ts_files := (ts_files s)(file \<mapsto> Some (JMap (AList.update ''version'' (JStr version) m)))\<rparr>"
proof (cases "ts_files s file")
  case None
  then show ?thesis using assms by (simp add: write_version_def json_load_def pbind_def)
next
  case (Some c)
  show ?thesis
  proof (cases c)
    case None
    then show ?thesis using assms Some by (simp add: write_version_def json_load_def pbind_def)
  next
    case (Some v)
    then show ?thesis
      using assms \<open>ts_files s file = Some c\<close>
      by (cases v) (auto simp: write_version_def json_load_def json_dump_def pbind_def plift_def)
  qed
qed

lemma set_version_get:
  "j_get (JMap (AList.update ''version'' (JStr v) m)) k = (if k = ''version'' then Inr (JStr v) else j_get (JMap m) k)"
  by (simp add: update_conv')

text \<open>After a successful update both packages load the same version, their authors and licenses and all
  other files are as before.\<close>

theorem both_packages_updated:
  assumes "update_both version s = (Inr (), s')"
  shows "fst (loadVersion SOVTOKEN_METADATA s') = Inr (JStr version)"
    and "fst (loadVersion SOVTOKENFEES_METADATA s') = Inr (JStr version)"
    and "fst (loadAuthor file s') = fst (loadAuthor file s)" "fst (loadLicense file s') = fst (loadLicense file s)"
    and "file \<notin> {SOVTOKEN_METADATA, SOVTOKENFEES_METADATA} \<Longrightarrow> ts_files s' file = ts_files s file"
proof -
  have d: "SOVTOKEN_METADATA \<noteq> SOVTOKENFEES_METADATA" by (simp add: SOVTOKEN_METADATA_def SOVTOKENFEES_METADATA_def)
  obtain s1 s2 where w: "write_version version SOVTOKEN_METADATA s = (Inr (), s1)"
    "write_version version SOVTOKENFEES_METADATA s1 = (Inr (), s2)" "ts_files s' = ts_files s2"
    using assms by (auto simp: update_both_def pseq_Inr_iff py_print_def)
  obtain m m2 where m: "ts_files s SOVTOKEN_METADATA = Some (Some (JMap m))" "ts_files s SOVTOKENFEES_METADATA = Some (Some (JMap m2))"
    "ts_files s' = (ts_files s)(SOVTOKEN_METADATA \<mapsto> Some (JMap (AList.update ''version'' (JStr version) m)),
       SOVTOKENFEES_METADATA \<mapsto> Some (JMap (AList.update ''version'' (JStr version) m2)))"
    using write_version_Inr [OF w(1)] write_version_Inr [OF w(2)] w(3) d by auto
  show "fst (loadVersion SOVTOKEN_METADATA s') = Inr (JStr version)"
    "fst (loadVersion SOVTOKENFEES_METADATA s') = Inr (JStr version)"
    using d by (simp_all add: loadVersion_def json_load_def pbind_def plift_def m(3) set_version_get del: j_get.simps)
  show "fst (loadAuthor file s') = fst (loadAuthor file s)" "fst (loadLicense file s') = fst (loadLicense file s)"
    using m(1,2) d by (auto simp: loadAuthor_def loadLicense_def json_load_def pbind_def plift_def m(3) set_version_get
        simp del: j_get.simps split: option.splits)
  show "file \<notin> {SOVTOKEN_METADATA, SOVTOKENFEES_METADATA} \<Longrightarrow> ts_files s' file = ts_files s file"
    by (simp add: m(3))
qed

text \<open>An invalid tag is refused before any file is written.\<close>

theorem invalid_tag_refused: "\<not> sv_is_valid sv t \<Longrightarrow> updateVersion sv (Tag t) s = (Inl ValueError, s)"
  by (simp add: updateVersion_def updateWithTag_def pbind_def)

end
