(* ===== verification/Spec2Isabelle.thy ===== *)
theory Spec2Isabelle
  imports Node_History Catchup Cache_Types Client_Authnr Utxo_Queries Fees_In_Force Batch_Commits
    Replica_Agreement Fees_Messages Plugin_Integration Version_Tool
begin

text \<open>
  A model of the Sovrin token plugins for an indy node, \<open>sovtoken\<close> (payments) and \<open>sovtokenfees\<close>
  (fees on any request), with the properties that make them correct. Paths below are under \<open>src/\<close>.

  \<^bold>\<open>The program.\<close> A token is an unspent output (address, sequence number, amount). The token
  ledger's state has a key \<open>address:seqNo\<close> for each; the UTXO cache has one text per address that
  lists them. Requests to mint and to transfer go through static validation, authentication and
  dynamic validation, then \<open>update_state\<close> spends inputs and adds outputs in both stores. The fees
  plugin lets any domain request and any transfer pay: the authorizer compares what the request
  pays with what the rule it satisfies demands, and the domain handler appends a fee transaction
  to the token ledger. Both ledgers are ordered in batches, which the nodes apply, reject from the
  back and commit from the front; the batch handlers keep state, ledger and cache in step, and
  the three-phase handler compares the token side of a PRE-PREPARE with the replica's own.

  \<^bold>\<open>Conventions.\<close> Python's \<open>int\<close> is \<open>int\<close>, \<open>str\<close> the \<open>string\<close> of its UTF-8 bytes (where the code counts characters, \<open>py_len\<close> does); a class or a
  dictionary with fixed keys is a record, a missing key or \<open>None\<close> an option. A raised exception is
  \<open>Inl\<close> of the exception class; a method that changes objects returns them also when it raises,
  with the effects it had before (\<open>Prelude\<close>). Code that is not in the repository (plenum's state,
  optimistic store, ledger, trackers and field classes, base58, the signature scheme, the node's
  managers) is a record of functions that the definitions take as an argument, with its documented
  behaviour as the assumptions of a locale. Each locale is interpreted on a concrete instance, at
  which the witnesses evaluate, and the locales that state what one part of the plugins promises
  to another (\<open>utxo_store\<close>, \<open>weak_order\<close>) on the model of that part.

  \<^bold>\<open>The theories, and what they show.\<close>
  \<^item> \<open>Prelude\<close>, \<open>PyText\<close>, \<open>PyJson\<close>: exceptions, computations that raise, \<open>str\<close>, \<open>int\<close>, \<open>split\<close>,
    \<open>join\<close>, decoded JSON values.
  \<^item> \<open>UTXO_Amounts\<close> (\<open>types.py\<close>, \<open>UTXOAmounts\<close> in \<open>utxo_cache.py\<close>): the text of an entry and the list of
    pairs it stands for; printing and parsing are inverse, the operations are those on pairs.
  \<^item> \<open>UTXO_Contract\<close>, \<open>UTXO_Cache\<close> (\<open>utxo_cache.py\<close>): the contract of a store of unspent outputs with the
    loops over it, and the cache as such a store; \<open>sum_inputs\<close> counts each named output once.
  \<^item> \<open>KV_Store\<close>, \<open>State_Store\<close>: the interfaces of plenum's optimistic store and state.
  \<^item> \<open>Token_Utils\<close> (\<open>token_utils.py\<close>), \<open>Token_Handlers\<close> (\<open>mint_handler.py\<close>, \<open>xfer_handler.py\<close>,
    \<open>xfer_handler_1_0_0.py\<close>, \<open>sovtoken_auth_map.py\<close>): state and cache agree and stay so; a mint adds its
    outputs exactly; an accepted transfer moves its inputs to its outputs and conserves the supply;
    an output is spent once; the old handler leaves the same cache.
  \<^item> \<open>Token_Batches\<close> (\<open>utxo_batch_handler.py\<close>, \<open>token_batch_handler.py\<close>): committing takes the oldest
    batch, and only under the bytes of its own root.
  \<^item> \<open>PyHeap\<close>, \<open>Addresses\<close> (\<open>util.py\<close>), \<open>Get_Utxo\<close> (\<open>get_utxo_handler.py\<close>): the heap of \<open>SortedItems\<close>
    sorts; the pages of \<open>GET_UTXO\<close> together are the address's outputs, and their number is bounded.
  \<^item> \<open>Utxo_Queries\<close>: what GET_UTXO reads from the state is what the cache takes for unspent.
  \<^item> \<open>Token_Messages\<close>, \<open>Fees_Messages\<close> (\<open>messages/\<close>): the requests that pass static validation, exactly.
  \<^item> \<open>Client_Authnr\<close> (\<open>client_authnr.py\<close> of both): the signatures that are accepted, exactly.
  \<^item> \<open>Fees_State\<close> (\<open>fees_utils.py\<close>, the fee handlers, \<open>domain.py\<close>): the dictionary of all fees and the
    entries of the aliases agree, except for an alias that collides with the dictionary's key.
  \<^item> \<open>Fees_Authorizer\<close> (\<open>fees_authorizer.py\<close>, the auth-rule handlers): a request is authorized exactly
    when it satisfies a rule and pays its fee, no more and no less.
  \<^item> \<open>Fees_In_Force\<close>: over batches of SET_FEES that are applied, rejected and committed, the fee charged
    for an alias is the one set by the newest transaction that is still there.
  \<^item> \<open>Fee_Txns\<close> (\<open>domain_fee_handler.py\<close>, \<open>xfer_fee_handler.py\<close>, \<open>fee_txn_handler.py\<close>): a request with
    fees burns exactly the fee; a transfer that pays one is replayed at catch-up with the same outputs.
  \<^item> \<open>Fee_Batches\<close>, \<open>Batch_Runs\<close> (\<open>fee_batch_handler.py\<close>, \<open>tracker_batch_handler.py\<close>): over any sequence of
    batches of the domain and the token ledger the stores show the newest one, rejecting always
    succeeds and restores the previous one (a refinement of a queue of snapshots).
  \<^item> \<open>Tracked_Batches\<close>: what \<open>BatchFeesTracker\<close> knows over such a sequence; it never forgets a fee, so that a
    number of a rejected batch that is used again makes a later commit raise.
  \<^item> \<open>Batch_Commits\<close>: where no such number is used again, the queued batches can be committed in order,
    whatever is queued behind them.
  \<^item> \<open>Three_Phase\<close>, \<open>Replica_Agreement\<close> (\<open>three_phase_commit_handling.py\<close>): a PRE-PREPARE is accepted
    exactly when the replica counted no fees or the fee data are its own, and a replica that counted
    fees and accepts holds the same unspent outputs as the primary. The class is not registered by \<open>main.py\<close>; only the tests use it.
  \<^item> \<open>Cache_Types\<close>: the entries of the UTXO cache stay texts of pairs, and on such a cache the handlers
    raise only the errors that reject a request.
  \<^item> \<open>Token_History\<close>, \<open>Node_History\<close>: over every sequence of mints, transfers and fees, in batches that
    are applied, rejected and committed, the supply is what was minted less the fees in the batches
    that are still there, and an output that was spent never comes back.
  \<^item> \<open>Catchup\<close>: replaying the transactions of such a history gives the same unspent outputs.
  \<^item> \<open>Plugin_Integration\<close> (both \<open>main.py\<close>): what the plugins register with a node, and in which order.
  \<^item> \<open>Version_Tool\<close> (\<open>updateVersion.py\<close>, \<open>__metadata__.py\<close>): both packages get the same version.
  \<^item> This theory: a transfer, and the fees of a domain request, from the client's message to the stores.

  \<^bold>\<open>Loops and fuel.\<close> Loops over lists are structural recursion and need no fuel; those of the heap are
  functions with a measure. Only the client that fetches page after page (\<open>fetch_pages\<close>) takes fuel,
  one more than the number of outputs, which is shown to be enough. Integers are unbounded as in
  Python; the bounds of the code (\<open>UTXO_LIMIT\<close>, lengths of aliases, number of outputs) are kept.

  \<^bold>\<open>Not modelled.\<close> The texts of exceptions and log messages; \<open>__repr__\<close>; setup scripts and constant
  package descriptions; \<open>update_token_wallet_with_result\<close>, a helper of test clients; the tests themselves;
  methods that only \<open>pass\<close>, and the properties that fetch a state, ledger, tracker or store from the
  database manager, which the definitions take as arguments; \<open>UTXOCache.close\<close>, and the type test
  \<open>_is_valid_output\<close>, which the types of the model make true. Plenum's reverts and commits on the config
  and token ledgers are arguments with laws. The storage initialisation is modelled as the calls that create the storages, not as their files.
\<close>

section \<open>From the message to the ledger\<close>

text \<open>The payment that the operation of a transfer stands for.\<close>

definition payment_of :: "joperation \<Rightarrow> (input list \<times> payout list) option" where
  "payment_of operation = (case (operation ''inputs'', operation ''outputs'') of
     (Some (JList ks), Some (JList js)) \<Rightarrow>
       if (\<forall>k\<in>set ks. input_of k \<noteq> None) \<and> (\<forall>j\<in>set js. payout_of j \<noteq> None)
       then Some (map (the \<circ> input_of) ks, map (the \<circ> payout_of) js) else None
   | _ \<Rightarrow> None)"

text \<open>An input is signed when the key in its address verifies some signature of the request on it.\<close>

definition signed_by_owner :: "auth_env \<Rightarrow> string list \<Rightarrow> payout list \<Rightarrow> jval list \<Rightarrow> input \<Rightarrow> bool" where
  "signed_by_owner A sigs outs extra i \<longleftrightarrow> (\<exists>s\<in>set sigs. \<exists>d vk b verify.
     b58decode (ae_b58 A) s = Some d \<and> address_to_verkey (ae_b58 A) (inp_address i) = Inr vk \<and>
     b58decode (ae_b58 A) vk = Some b \<and> ae_nacl A b = Inr verify \<and> verify d (ae_ser A i outs extra))"

lemma static_payment:
  assumes "field_laws (fe_fields E) type_msg" "operation ''type'' = Some (JStr XFER_PUBLIC)"
    and "operation ''outputs'' = Some v" "operation ''inputs'' = Some w"
    and "operation ''signatures'' = Some (JList jsigs)" "no_bools v" "no_bools w"
    and "xfer_static_validation E operation = Inr ()" "payment_of operation = Some (ins, outs)"
  shows "distinct ins" "distinct (map pay_address outs)" "\<forall>p\<in>set outs. 0 < pay_amount p"
proof -
  obtain js outs' ks ins' where
    o: "v = JList js" "map payout_of js = map Some outs'" "valid_payouts (fe_b58 E) outs'"
    and i: "w = JList ks" "map input_of ks = map Some ins'" "valid_inputs (fe_b58 E) ins'"
    using assms(8) unfolding xfer_static_iff [OF assms(1-7)] by blast
  have "ins = ins'" "outs = outs'"
    using assms(3,4,9) o(1,2) i(1,2) by (auto simp: payment_of_def map_Some_the split: if_splits)
  then show "distinct ins" "distinct (map pay_address outs)" "\<forall>p\<in>set outs. 0 < pay_amount p"
    using o(3) i(3) by (auto simp: valid_payouts_def valid_inputs_def)
qed

text \<open>C4: A transfer that passes static validation, authentication and dynamic validation is applied
  without error under the next sequence number: all its inputs were unspent and signed by the
  owners of their addresses, together with the outputs and the truthful extra fields, afterwards they are spent and the outputs, all of positive amount,
  are added, state and cache agree, and the addresses involved together hold what they held.\<close>

theorem accepted_transfer:
  assumes "field_laws (fe_fields E) type_msg"
    and "operation = [''type'' \<mapsto> JStr XFER_PUBLIC, ''outputs'' \<mapsto> v, ''inputs'' \<mapsto> w, ''signatures'' \<mapsto> JList jsigs]"
    and "no_bools v" "no_bools w" "payment_of operation = Some (ins, outs)"
    and "req_operation req = \<lparr>op_type = XFER_PUBLIC, op_inputs = Some ins, op_outputs = Some outs, op_signatures = Some sigs\<rparr>"
    and "ar_operation areq = req_operation req"
    and "xfer_static_validation E operation = Inr ()"
    and "token_authenticate A areq identifier signature None = Inr r"
    and "xfer_dynamic_validation kv validate req (tk_cache db) = Inr ()"
    and "state_map_store st" "kv_text_store kv False" "token_wf st kv False db"
    and "below n (token_utxos kv False db)" "payment_txn ins outs (n + 1) t"
  shows "\<exists>db'. xfer_update_state st kv t False db = (Inr (), db') \<and> token_wf st kv False db' \<and>
    (\<forall>i\<in>set ins. unspent (token_utxos kv False db) i \<and> \<not> unspent (token_utxos kv False db') i \<and>
      signed_by_owner A sigs outs (truthful_fields areq) i) \<and>
    token_utxos kv False db' = paid ins outs (n + 1) (token_utxos kv False db) \<and>
    (\<forall>p\<in>set outs. 0 < pay_amount p) \<and>
    (\<forall>B. finite B \<longrightarrow> inp_address ` set ins \<union> pay_address ` set outs \<subseteq> B \<longrightarrow>
      token_supply B (token_utxos kv False db') = token_supply B (token_utxos kv False db))"
proof -
  have op: "operation ''type'' = Some (JStr XFER_PUBLIC)" "operation ''outputs'' = Some v"
    "operation ''inputs'' = Some w" "operation ''signatures'' = Some (JList jsigs)"
    by (simp_all add: assms(2))
  note pay = static_payment [OF assms(1) op assms(3,4,8,5)]
  have parts: "op_inputs (req_operation req) = Some ins" "op_outputs (req_operation req) = Some outs"
    by (simp_all add: assms(6))
  have fresh: "fresh (n + 1) outs (token_utxos kv False db)" by (rule below_fresh [OF assms(14) pay(2)])
  obtain db' where db': "xfer_update_state st kv t False db = (Inr (), db')" "token_wf st kv False db'"
    "token_utxos kv False db' = paid ins outs (n + 1) (token_utxos kv False db)"
    "\<forall>B. finite B \<longrightarrow> inp_address ` set ins \<union> pay_address ` set outs \<subseteq> B \<longrightarrow>
      token_supply B (token_utxos kv False db') = token_supply B (token_utxos kv False db)"
    using xfer_applied [OF assms(11-13) parts assms(10) pay(1) fresh assms(15)] by blast
  have c: "cache_wf kv False (tk_cache db)" using assms(13) by (simp add: token_wf_def)
  have unspent: "\<forall>i\<in>set ins. unspent (token_utxos kv False db) i"
    using xfer_validated(1) [OF c parts pay(1) assms(10)] by (simp add: token_utxos_def)
  have "utxos_wf (token_utxos kv False db)" using cache_wf_utxos [OF c] by (simp add: token_utxos_def)
  then have gone: "\<forall>i\<in>set ins. \<not> unspent (token_utxos kv False db') i"
    using paid_spent [OF _ fresh] unspent db'(3) by auto
  have "signed_by_keys A ins outs sigs (truthful_fields areq)"
    using authenticated_owners [OF _ assms(9)] unfolding assms(6,7) operation.simps by blast
  then have "signed_by_owner A sigs outs (truthful_fields areq) (ins ! k)" if "k < length ins" for k
    using that nth_mem [of k sigs] unfolding signed_by_owner_def signed_by_keys_def by fastforce
  then have "\<forall>i\<in>set ins. signed_by_owner A sigs outs (truthful_fields areq) i" by (metis in_set_conv_nth)
  with db' unspent gone pay(3) show ?thesis by blast
qed

section \<open>From the fees of a message to the ledger\<close>

lemma fees_signed:
  assumes "fees_verify_signature A (Fees3 ins outs sigs) digest = Inr r" "i \<in> set ins"
  shows "signed_by_owner A sigs outs [JStr digest] i"
proof -
  have "length ins \<le> length sigs" "\<forall>p\<in>set (zip ins sigs). signed A (AddressSigVerifier A) outs [JStr digest] p"
    using assms(1) by (auto simp: fees_verify_signature_def ebind_Inr_iff verify_signtures_iff)
  moreover obtain k where "k < length ins" "ins ! k = i" using assms(2) by (auto simp: in_set_conv_nth)
  ultimately have s: "signed A (AddressSigVerifier A) outs [JStr digest] (i, sigs ! k)" "sigs ! k \<in> set sigs"
    by (auto simp: in_set_zip)
  show ?thesis
    unfolding signed_by_owner_def by (rule bexI [OF _ s(2)]) (rule signed_AddressSigVerifier [OF s(1)])
qed

text \<open>C5: A domain request whose fees pass static validation, whose fee signatures are accepted and that
  the authorizer lets through is applied without error: all fee inputs were unspent and signed
  by the owners of their addresses on this request's digest, afterwards they are spent and at
  most one change output, of positive amount, is added, exactly the fee of the rule leaves the
  supply of the addresses involved, and the fee transaction on the token ledger records that fee
  and refers to the request's transaction.\<close>

theorem accepted_fees:
  fixes db :: "('s, 'c, 'l, 't) fees_db"
  assumes "fees_field_laws F type_msg M" "\<forall>xs x. v = JList xs \<longrightarrow> x \<in> set xs \<longrightarrow> no_bools x"
    and "accepts (CLIENT_REQUEST_FIELDS_fees F M b58 txt (Some v))" "fees_parts_of v = Some (ins, outs, map JStr sigs)"
    and "req_fees req = Fees3 ins outs sigs" "op_type (req_operation req) \<noteq> XFER_PUBLIC"
    and "fees_verify_signature A (req_fees req) digest = Inr r"
    and "fee_due cst fs s md = Inr fee" "authorize cst fs kv str_ex req md s (tk_cache db) = Inr (True, msg)"
    and "state_map_store st" "kv_text_store kv False" "token_wf st kv False db"
    and "below n (token_utxos kv False db)" "lg_next_seq_no lg (fd_ledger db) = n + 1"
  shows "\<exists>db' t. domain_apply_request st kv lg ledger_id req prev db = (Inr prev, db') \<and> token_wf st kv False db' \<and>
    (\<forall>i\<in>set ins. unspent (token_utxos kv False db) i \<and> \<not> unspent (token_utxos kv False db') i \<and>
      signed_by_owner A sigs outs [JStr digest] i) \<and>
    token_utxos kv False db' = paid ins outs (n + 1) (token_utxos kv False db) \<and>
    length outs \<le> 1 \<and> (\<forall>p\<in>set outs. 0 < pay_amount p) \<and>
    (\<forall>B. finite B \<longrightarrow> inp_address ` set ins \<union> pay_address ` set outs \<subseteq> B \<longrightarrow>
      token_supply B (token_utxos kv False db') = token_supply B (token_utxos kv False db) - fee) \<and>
    fd_ledger db' = lg_appendTxns lg (fd_ledger db) t \<and> fx_fees t = fee \<and>
    fx_ref t = get_ref_for_txn_fees ledger_id (dt_seqNo prev)"
proof -
  have "accepts (txn_fees_validate F M b58 txt v)"
    using assms(3,4) fees_field_laws.nullable_law [OF assms(1)] by (auto simp: CLIENT_REQUEST_FIELDS_fees_def split: if_splits)
  then have "valid_fee_parts M b58 (ins, outs, map JStr sigs)"
    using fees_field_laws.txn_fees_accepts [OF assms(1)] assms(2,4) by auto
  then have p: "distinct ins" "length outs \<le> 1" "distinct (map pay_address outs)" "\<forall>p\<in>set outs. 0 < pay_amount p"
    by (auto simp: valid_fee_parts_def valid_inputs_def valid_payouts_def)
  have fresh: "fresh (lg_next_seq_no lg (fd_ledger db)) outs (token_utxos kv False db)"
    using below_fresh [OF assms(13) p(3)] assms(14) by simp
  obtain db' where db': "domain_apply_request st kv lg ledger_id req prev db = (Inr prev, db')" "token_wf st kv False db'"
    "\<forall>i\<in>set ins. unspent (token_utxos kv False db) i"
    "token_utxos kv False db' = paid ins outs (n + 1) (token_utxos kv False db)"
    "\<forall>B. finite B \<longrightarrow> inp_address ` set ins \<union> pay_address ` set outs \<subseteq> B \<longrightarrow>
      token_supply B (token_utxos kv False db') = token_supply B (token_utxos kv False db) - fee"
    "fd_ledger db' = lg_appendTxns lg (fd_ledger db) (make_fee_txn ledger_id req prev ins outs sigs fee (n + 1))"
    using domain_fee_burns [OF assms(10-12,8,6,9,5) p(1) fresh, of ledger_id prev] unfolding assms(14) by blast
  have "utxos_wf (token_utxos kv False db)"
    using cache_wf_utxos assms(12) by (auto simp: token_wf_def token_utxos_def)
  then have "\<forall>i\<in>set ins. \<not> unspent (token_utxos kv False db') i"
    using paid_spent [OF _ fresh] db'(3,4) assms(14) by auto
  moreover have "signed_by_owner A sigs outs [JStr digest] i" if "i \<in> set ins" for i
    using fees_signed assms(5,7) that by auto
  ultimately show ?thesis
    using db' p(2,4)
    by (intro exI [of _ db'] exI [of _ "make_fee_txn ledger_id req prev ins outs sigs fee (n + 1)"]) simp
qed

section \<open>Examples\<close>

text \<open>A transfer of the reference codec's address to itself.\<close>

definition ex_sent :: txn where
  "ex_sent = \<lparr>tx_type = XFER_PUBLIC, tx_inputs = Some [ex_valid_input], tx_outputs = Some [ex_valid_payout],
     tx_seqNo = 1 + 1, tx_sig_type = None, tx_sig_values = None\<rparr>"

definition ex_transfer :: request where
  "ex_transfer = \<lparr>req_identifier = ex_address, req_reqId = 7,
     req_operation = \<lparr>op_type = XFER_PUBLIC, op_inputs = Some [ex_valid_input], op_outputs = Some [ex_valid_payout],
       op_signatures = Some [replicate 32 (CHR ''k'')]\<rparr>,
     req_fees = FeesAbsent\<rparr>"

definition ex_message :: joperation where
  "ex_message = [''type'' \<mapsto> JStr XFER_PUBLIC, ''outputs'' \<mapsto> ex_outputs, ''inputs'' \<mapsto> ex_inputs,
     ''signatures'' \<mapsto> JList [JStr (replicate 32 (CHR ''k''))]]"

lemma ex_message_accepted:
  "payment_of ex_message = Some ([ex_valid_input], [ex_valid_payout])"
  "xfer_static_validation ex_fe ex_message = Inr ()"
proof -
  show "payment_of ex_message = Some ([ex_valid_input], [ex_valid_payout])"
    by (simp add: payment_of_def ex_message_def ex_inputs_def ex_outputs_def)
  have "length [ex_valid_input] = length [JStr (replicate 32 (CHR ''k''))]" by simp
  moreover have "ex_message ''type'' = Some (JStr XFER_PUBLIC)" "ex_message ''outputs'' = Some ex_outputs"
    "ex_message ''inputs'' = Some ex_inputs"
    "ex_message ''signatures'' = Some (JList [JStr (replicate 32 (CHR ''k''))])"
    by (simp_all add: ex_message_def)
  note iff = xfer_static_iff [OF ex_op_facts(1) this ex_op_facts(9,10)]
  ultimately show "xfer_static_validation ex_fe ex_message = Inr ()"
    unfolding iff using ex_items by (metis length_Cons list.size(3))
qed

lemma ex_transfer_accepted:
  "token_authenticate ex_auth \<lparr>ar_operation = req_operation ex_transfer, ar_extra = None, ar_taa = None\<rparr>
     None None None = Inr (Some [ex_address])"
  "xfer_dynamic_validation okv_store (\<lambda>_ _. Inr ()) ex_transfer (tk_cache (one_output_db ex_address)) = Inr ()"
  by code_simp+

theorem accepted_transfer_witness:
  "\<exists>db'. xfer_update_state ms_store okv_store ex_sent False (one_output_db ex_address) = (Inr (), db') \<and>
    token_supply {ex_address} (token_utxos okv_store False db') =
      token_supply {ex_address} (one_output ex_address)"
proof -
  let ?areq = "\<lparr>ar_operation = req_operation ex_transfer, ar_extra = None, ar_taa = None\<rparr>"
  have r: "req_operation ex_transfer = \<lparr>op_type = XFER_PUBLIC, op_inputs = Some [ex_valid_input],
      op_outputs = Some [ex_valid_payout], op_signatures = Some [replicate 32 (CHR ''k'')]\<rparr>"
    and a: "ar_operation ?areq = req_operation ex_transfer"
    by (simp_all add: ex_transfer_def)
  have b: "below 1 (token_utxos okv_store False (one_output_db ex_address))"
    and p: "payment_txn [ex_valid_input] [ex_valid_payout] (1 + 1) ex_sent"
    by (simp_all add: below_def one_output_def payment_txn_def ex_sent_def)
  obtain db' where "xfer_update_state ms_store okv_store ex_sent False (one_output_db ex_address) = (Inr (), db')"
    "\<forall>B. finite B \<longrightarrow> inp_address ` set [ex_valid_input] \<union> pay_address ` set [ex_valid_payout] \<subseteq> B \<longrightarrow>
      token_supply B (token_utxos okv_store False db') =
        token_supply B (token_utxos okv_store False (one_output_db ex_address))"
    using accepted_transfer [OF ex_op_facts(1) ex_message_def ex_op_facts(9,10) ex_message_accepted(1) r a
        ex_message_accepted(2) ex_transfer_accepted ref_stores one_output_wf b p] by blast
  then show ?thesis by auto
qed

text \<open>A request that pays ten tokens, all that the reference codec's address holds.\<close>

definition ex_paying :: request where
  "ex_paying = \<lparr>req_identifier = ex_address, req_reqId = 8,
     req_operation = \<lparr>op_type = ''1'', op_inputs = None, op_outputs = None, op_signatures = None\<rparr>,
     req_fees = Fees3 [ex_valid_input] [] [replicate 32 (CHR ''k'')]\<rparr>"

definition ex_paying_db :: "(ms, okv, fee_txn list, unit) fees_db" where
  "ex_paying_db = \<lparr>tk_state = tk_state (one_output_db ex_address), tk_cache = tk_cache (one_output_db ex_address),
     fd_ledger = [], fd_token_tracker = (), fd_fees_tracker = tracker_init\<rparr>"

definition ex_ten :: ms where
  "ex_ten = set_to_state ms_store ref_fs (build_path_for_set_fees None) (FeesDict [(''nym'', 10)]) ms_empty"

definition ex_fees_json :: jval where
  "ex_fees_json = JList [ex_inputs, JList [], JList (map JStr [replicate 32 (CHR ''k'')])]"

lemma ex_paying_facts:
  "fees_parts_of ex_fees_json = Some ([ex_valid_input], [], map JStr [replicate 32 (CHR ''k'')])"
  "accepts (CLIENT_REQUEST_FIELDS_fees ref_fields ref_fees_fields ref_b58 ''bad'' (Some ex_fees_json))"
  "fees_verify_signature ex_auth (req_fees ex_paying) ''digest'' = Inr (Some [ex_address])"
  "fee_due ms_store ref_fs ex_ten ex_md = Inr 10"
  "authorize ms_store ref_fs okv_store (\<lambda>_. ''no'') ex_paying ex_md ex_ten (tk_cache ex_paying_db) = Inr (True, '''')"
  subgoal by (simp add: ex_fees_json_def ex_inputs_def)
  subgoal by code_simp
  subgoal by code_simp
  subgoal by code_simp
  subgoal by code_simp
  done

lemma ex_paying_db_facts:
  "token_utxos okv_store False ex_paying_db = one_output ex_address" "token_wf ms_store okv_store False ex_paying_db"
  using one_output_utxos [of ex_address] one_output_wf [of ex_address]
  by (simp_all add: ex_paying_db_def token_wf_def token_utxos_def)

theorem accepted_fees_witness:
  "\<exists>db'. domain_apply_request ms_store okv_store ref_ledger 1 ex_paying ex_domain_txn ex_paying_db = (Inr ex_domain_txn, db') \<and>
    token_supply {ex_address} (token_utxos okv_store False db') = token_supply {ex_address} (one_output ex_address) - 10"
proof -
  have nb: "\<forall>xs x. ex_fees_json = JList xs \<longrightarrow> x \<in> set xs \<longrightarrow> no_bools x"
    using ex_op_facts(10) by (auto simp: ex_fees_json_def no_bools_def)
  have r: "req_fees ex_paying = Fees3 [ex_valid_input] [] [replicate 32 (CHR ''k'')]"
    "op_type (req_operation ex_paying) \<noteq> XFER_PUBLIC" by (simp_all add: ex_paying_def txn_type_defs)
  have b: "below 1 (token_utxos okv_store False ex_paying_db)" "lg_next_seq_no ref_ledger (fd_ledger ex_paying_db) = 1 + 1"
    unfolding ex_paying_db_facts(1) by (simp_all add: below_def one_output_def ex_paying_db_def ref_ledger_def)
  show ?thesis
    using accepted_fees [OF ref_fees.fees_field_laws_axioms nb ex_paying_facts(2,1) r ex_paying_facts(3-5) ref_stores
        ex_paying_db_facts(2) b, of 1 ex_domain_txn]
    by (force simp: ex_paying_db_facts(1))
qed

end
